(* ===== verification/Prelude.thy ===== *)
theory Prelude
  imports Main "HOL-Library.Word"
begin

text \<open>
  The vocabulary every component shares.

  \<^item> Machine integers: \<open>u8\<close>, \<open>u32\<close> and \<open>u64\<close> are words, so \<open>+\<close>, \<open>-\<close> and \<open>*\<close> wrap as in C
    (\<open>size_t\<close>, \<open>uint64_t\<close> and \<open>time_t\<close> are 64 bits wide, \<open>unsigned\<close> is 32).
  \<^item> Pointers: \<open>Null\<close>, or a block number and a byte offset in that block. A block is one object
    that \<open>malloc\<close> returned; block numbers are never used twice, so an access through a stale
    pointer is seen by the model.
  \<^item> Outcomes: an operation of the program is a function into \<open>'a outcome\<close>. \<open>None\<close> stands for a
    run that does not return, \<open>Some (Inl f)\<close> for a run that ends in the fault \<open>f\<close>, and
    \<open>Some (Inr x)\<close> for a run that returns \<open>x\<close>. \<open>obind\<close> is sequencing (the \<open>;\<close> of C).
  \<^item> \<open>safe P r\<close>, the total-correctness judgement of the development: \<open>r\<close> returns a value with
    property \<open>P\<close>, or it is a deliberate \<open>abort()\<close> of the program. A run that does not return,
    an invalid memory access or any other fault is not safe.
  \<^item> The decimal output of \<open>printf\<close>'s \<open>%u\<close> and \<open>%d\<close>.
\<close>

section \<open>Machine integers and pointers\<close>

type_synonym u8 = "8 word"
type_synonym u32 = "32 word"
type_synonym u64 = "64 word"

datatype ptr = Null | Ptr (blk: nat) (ofs: u64)

definition ptr_minus :: "ptr \<Rightarrow> u64 \<Rightarrow> ptr" where
  "ptr_minus p n = (case p of Null \<Rightarrow> Null | Ptr b o' \<Rightarrow> Ptr b (o' - n))"

lemma ptr_minus_Ptr [simp]: "ptr_minus (Ptr b o') n = Ptr b (o' - n)"
  by (simp add: ptr_minus_def)

lemma unat_inc: "x \<noteq> - 1 \<Longrightarrow> unat (x + 1) = unat x + 1" for x :: u64
proof -
  assume "x \<noteq> - 1"
  then have "x + 1 \<noteq> 0" by (simp add: eq_neg_iff_add_eq_0)
  then show ?thesis by (metis Suc_eq_plus1 add.commute unatSuc)
qed

section \<open>Outcomes of a run\<close>

datatype fault =
    Null_deref
  | Dangling
  | Out_of_bounds
  | Bad_free
  | Uninitialised
  | Undefined
  | Aborted string
  | Exited int

type_synonym 'a outcome = "(fault + 'a) option"

definition ok :: "'a \<Rightarrow> 'a outcome" where
  "ok x = Some (Inr x)"

definition raise :: "fault \<Rightarrow> 'a outcome" where
  "raise f = Some (Inl f)"

definition obind :: "'a outcome \<Rightarrow> ('a \<Rightarrow> 'b outcome) \<Rightarrow> 'b outcome" where
  "obind m f = (case m of None \<Rightarrow> None | Some (Inl e) \<Rightarrow> Some (Inl e) | Some (Inr x) \<Rightarrow> f x)"

definition safe :: "('a \<Rightarrow> bool) \<Rightarrow> 'a outcome \<Rightarrow> bool" where
  "safe P r = (case r of None \<Rightarrow> False
      | Some (Inl f) \<Rightarrow> (case f of Aborted _ \<Rightarrow> True | _ \<Rightarrow> False)
      | Some (Inr x) \<Rightarrow> P x)"

lemma ok_inject [simp]: "ok x = ok y \<longleftrightarrow> x = y"
  by (simp add: ok_def)

lemma ok_neq_raise [simp]: "ok x \<noteq> raise f" "raise f \<noteq> ok x" "ok x \<noteq> None" "None \<noteq> ok x"
  "raise f \<noteq> None" "None \<noteq> raise f"
  by (simp_all add: ok_def raise_def)

lemma raise_inject [simp]: "raise f = raise g \<longleftrightarrow> f = g"
  by (simp add: raise_def)

lemma obind_ok [simp]: "obind (ok x) f = f x"
  by (simp add: obind_def ok_def)

lemma obind_raise [simp]: "obind (raise e) f = raise e"
  by (simp add: obind_def raise_def)

lemma obind_None [simp]: "obind None f = None"
  by (simp add: obind_def)

lemma obind_assoc [simp]: "obind (obind m f) g = obind m (\<lambda>x. obind (f x) g)"
  by (simp add: obind_def split: option.split sum.split)

lemma obind_eq_ok: "obind m f = ok y \<longleftrightarrow> (\<exists>x. m = ok x \<and> f x = ok y)"
  by (auto simp: obind_def ok_def split: option.splits sum.splits)

lemma obind_mono [partial_function_mono]:
  assumes "mono_option m" and "\<And>y. mono_option (\<lambda>f. g y f)"
  shows "mono_option (\<lambda>f. obind (m f) (\<lambda>y. g y f))"
proof (rule monotoneI, goal_cases)
  case le: (1 f g')
  have "option_ord (m f) (m g')"
    using assms(1) le by (rule monotoneD [of _ _ _ f g'])
  then consider "m f = None" | "m f = m g'"
    by (auto simp: flat_ord_def)
  moreover have "option_ord (g y f) (g y g')" for y
    using assms(2) le by (rule monotoneD [of _ _ _ f g'])
  ultimately show ?case
    by cases (simp_all add: obind_def flat_ord_def split: option.split sum.split)
qed

lemma safe_ok [simp]: "safe P (ok x) = P x"
  by (simp add: safe_def ok_def)

lemma safe_None [simp]: "\<not> safe P None"
  by (simp add: safe_def)

lemma safe_raise [simp]: "safe P (raise f) \<longleftrightarrow> (\<exists>msg. f = Aborted msg)"
  by (cases f) (simp_all add: safe_def raise_def)

lemma safe_obind [simp]: "safe P (obind m f) = safe (\<lambda>x. safe P (f x)) m"
  by (auto simp: safe_def obind_def split: option.splits sum.splits fault.splits)

lemma safe_mono: "safe P r \<Longrightarrow> (\<And>x. P x \<Longrightarrow> Q x) \<Longrightarrow> safe Q r"
  by (auto simp: safe_def split: option.splits sum.splits fault.splits)

lemma safeD_ok: "safe P r \<Longrightarrow> r = ok x \<Longrightarrow> P x"
  by simp

lemma safe_conj: "safe P r \<Longrightarrow> safe Q r \<Longrightarrow> safe (\<lambda>x. P x \<and> Q x) r"
  by (auto simp: safe_def split: option.splits sum.splits fault.splits)

lemma safe_cases:
  assumes "safe P r"
  obtains (returns) x where "r = ok x" and "P x" | (aborts) msg where "r = raise (Aborted msg)"
  using assms by (auto simp: safe_def ok_def raise_def split: option.splits sum.splits fault.splits)

text \<open>
  Runs that do not end in \<open>abort()\<close>. Together with \<open>safe\<close> this says that the run returns. The rules are
  collected in \<open>no_aborts\<close>; they follow the text of an operation.
\<close>

named_theorems no_aborts

definition no_abort :: "'a outcome \<Rightarrow> bool" where
  "no_abort r \<longleftrightarrow> (\<forall>msg. r \<noteq> raise (Aborted msg))"

lemma no_abort_ok [no_aborts]: "no_abort (ok x)"
  by (simp add: no_abort_def)

lemma no_abort_raise [simp]: "no_abort (raise f) \<longleftrightarrow> (\<forall>msg. f \<noteq> Aborted msg)"
  by (simp add: no_abort_def)

lemma no_abort_faults [no_aborts]:
  "no_abort (raise Null_deref)" "no_abort (raise Dangling)" "no_abort (raise Out_of_bounds)" "no_abort (raise Bad_free)"
  by simp_all

lemma no_abort_obind: "no_abort m \<Longrightarrow> (\<And>x. m = ok x \<Longrightarrow> no_abort (f x)) \<Longrightarrow> no_abort (obind m f)"
  by (auto simp: no_abort_def obind_def ok_def raise_def split: option.split sum.split)

lemma no_abort_seq [no_aborts]: "no_abort m \<Longrightarrow> (\<And>x. no_abort (f x)) \<Longrightarrow> no_abort (obind m f)"
  by (rule no_abort_obind)

lemma no_abort_if [no_aborts]: "(b \<Longrightarrow> no_abort x) \<Longrightarrow> (\<not> b \<Longrightarrow> no_abort y) \<Longrightarrow> no_abort (if b then x else y)"
  by simp

lemma no_abort_pair [no_aborts]: "(\<And>x y. p = (x, y) \<Longrightarrow> no_abort (f x y)) \<Longrightarrow> no_abort (case p of (x, y) \<Rightarrow> f x y)"
  by (cases p) simp

lemma no_abort_option [no_aborts]:
  "no_abort x \<Longrightarrow> (\<And>y. no_abort (f y)) \<Longrightarrow> no_abort (case r of None \<Rightarrow> x | Some y \<Rightarrow> f y)"
  by (cases r) simp_all

lemma no_abort_case_list [no_aborts]:
  "no_abort x \<Longrightarrow> (\<And>y ys. no_abort (f y ys)) \<Longrightarrow> no_abort (case r of [] \<Rightarrow> x | y # ys \<Rightarrow> f y ys)"
  by (cases r) simp_all

text \<open>For the induction rules of loops, which speak of \<open>r = Some y\<close>.\<close>

lemma no_abortI: "(\<And>y. r = Some y \<Longrightarrow> \<forall>msg. y \<noteq> Inl (Aborted msg)) \<Longrightarrow> no_abort r"
  by (auto simp: no_abort_def raise_def)

lemma no_abortD: "r = Some y \<Longrightarrow> no_abort r \<Longrightarrow> \<forall>msg. y \<noteq> Inl (Aborted msg)"
  by (auto simp: no_abort_def raise_def)

lemma safe_returns: "safe P r \<Longrightarrow> no_abort r \<Longrightarrow> \<exists>x. r = ok x \<and> P x"
  by (auto simp: no_abort_def elim: safe_cases)

section \<open>Lists\<close>

lemma distinct_butlast_last: "distinct xs \<Longrightarrow> x \<in> set (butlast xs) \<Longrightarrow> x \<in> set xs \<and> x \<noteq> last xs"
  by (cases xs rule: rev_cases) auto

lemma distinct_tl_hd: "distinct xs \<Longrightarrow> x \<in> set (tl xs) \<Longrightarrow> x \<in> set xs \<and> x \<noteq> hd xs"
  by (cases xs) auto

text \<open>Removal by moving the last element into the gap.\<close>

definition swap_remove :: "nat \<Rightarrow> 'a list \<Rightarrow> 'a list" where
  "swap_remove i xs = butlast (xs[i := last xs])"

lemma length_swap_remove [simp]: "length (swap_remove i xs) = length xs - 1"
  by (simp add: swap_remove_def)

lemma nth_swap_remove:
  "i < length xs \<Longrightarrow> j < length xs - 1 \<Longrightarrow> swap_remove i xs ! j = (if j = i then last xs else xs ! j)"
  by (simp add: swap_remove_def nth_butlast)

lemma set_swap_remove:
  assumes "distinct xs" "i < length xs"
  shows "set (swap_remove i xs) = set xs - {xs ! i}" and "distinct (swap_remove i xs)"
proof -
  obtain ys z where xs: "xs = ys @ [z]"
    using assms(2) by (cases xs rule: rev_cases) auto
  have "set (swap_remove i xs) = set xs - {xs ! i} \<and> distinct (swap_remove i xs)"
  proof (cases "i = length ys")
    case True
    with assms(1) show ?thesis by (simp add: swap_remove_def xs)
  next
    case False
    with assms(2) have i: "i < length ys" by (simp add: xs)
    then have "swap_remove i xs = ys[i := z]"
      by (simp add: swap_remove_def xs list_update_append)
    with assms(1) i show ?thesis
      by (auto simp: xs nth_append set_update_distinct distinct_list_update in_set_conv_nth)
  qed
  then show "set (swap_remove i xs) = set xs - {xs ! i}" and "distinct (swap_remove i xs)" by simp_all
qed

lemma map_swap_remove: "xs \<noteq> [] \<Longrightarrow> map f (swap_remove i xs) = swap_remove i (map f xs)"
  by (simp add: swap_remove_def map_butlast map_update last_map)

lemma take_swap_remove: "i < length xs \<Longrightarrow> take i (swap_remove i xs) = take i xs"
  by (simp add: swap_remove_def take_butlast)

lemma drop_swap_remove:
  assumes "i < length xs"
  shows "set (drop i xs) \<subseteq> insert (xs ! i) (set (drop i (swap_remove i xs)))"
proof -
  have d: "drop i xs = xs ! i # drop (Suc i) xs"
    using assms by (simp add: Cons_nth_drop_Suc)
  have "drop i (xs[i := last xs]) = last xs # drop (Suc i) xs"
    using assms by (simp add: drop_update_swap d flip: Cons_nth_drop_Suc)
  then have "drop i (swap_remove i xs) = butlast (last xs # drop (Suc i) xs)"
    by (simp add: swap_remove_def drop_butlast)
  moreover have "set (drop (Suc i) xs) \<subseteq> set (butlast (last xs # drop (Suc i) xs))" if ne: "drop (Suc i) xs \<noteq> []"
  proof -
    have "last xs = last (drop (Suc i) xs)" using ne by (simp add: last_drop)
    moreover have "set zs \<subseteq> set (butlast (last zs # zs))" if "zs \<noteq> []" for zs :: "'a list"
      using that by (cases zs rule: rev_cases) auto
    ultimately show ?thesis using ne by metis
  qed
  ultimately show ?thesis
    unfolding d by (cases "drop (Suc i) xs = []") auto
qed

section \<open>Decimal output\<close>

text \<open>\<open>%u\<close> and \<open>%d\<close> of \<open>printf\<close>, and the reader that inverts \<open>%u\<close>.\<close>

definition digit_char :: "nat \<Rightarrow> char" where
  "digit_char d = char_of (48 + d)"

fun show_nat :: "nat \<Rightarrow> string" where
  "show_nat n = (if n < 10 then [digit_char n] else show_nat (n div 10) @ [digit_char (n mod 10)])"

declare show_nat.simps [simp del]

definition show_int :: "int \<Rightarrow> string" where
  "show_int i = (if i < 0 then CHR ''-'' # show_nat (nat (- i)) else show_nat (nat i))"

definition newline :: string where
  "newline = [CHR 0x0A]"

definition read_nat :: "string \<Rightarrow> nat" where
  "read_nat cs = foldl (\<lambda>a c. 10 * a + (of_char c - 48)) 0 cs"

lemma of_digit_char: "d < 10 \<Longrightarrow> of_char (digit_char d) = 48 + d"
  by (simp add: digit_char_def take_bit_nat_eq_self)

lemma read_show_nat [simp]: "read_nat (show_nat n) = n"
proof (induction n rule: show_nat.induct)
  case (1 n)
  show ?case
  proof (cases "n < 10")
    case True
    then show ?thesis
      by (simp add: show_nat.simps [of n] read_nat_def of_digit_char)
  next
    case False
    with "1.IH" show ?thesis
      by (simp add: show_nat.simps [of n] read_nat_def of_digit_char)
  qed
qed

end
