(* ===== verification/Util_Malloc.thy ===== *)
theory Util_Malloc
  imports Prelude
begin

text \<open>
  The allocation wrappers of \<^verbatim>\<open>util-malloc.c\<close> and \<^verbatim>\<open>mymalloc.c\<close> over a heap of typed blocks.

  The heap maps block numbers to the object stored in the block. The C library's allocator may
  refuse any request and may treat a size of zero as it likes, so it is described by an
  \<^theory_text>\<open>allocator\<close> record that the operations take as an argument: \<open>refuses al n sz\<close> says that the
  request for \<open>sz\<close> bytes made when \<open>n\<close> blocks have been numbered returns \<open>NULL\<close>, and
  \<open>realloc0_frees al\<close> says what \<open>realloc(p, 0)\<close> does. Each operation takes the object the caller
  puts in the new block as an argument. \<open>abort()\<close> is the fault \<open>Aborted\<close>, with the message that
  the code prints first.

  The locale \<open>checked_allocator\<close> is the contract the rest of the program relies on: a returned
  block is new, its size is the mathematical product of the two arguments, and the only other way
  to end is \<open>abort()\<close>. Both files are shown to satisfy it.
\<close>

section \<open>The C library's allocator\<close>

record allocator =
  refuses :: "nat \<Rightarrow> u64 \<Rightarrow> bool"
  realloc0_frees :: bool

record 'o heap =
  next_block :: nat
  live :: "nat \<Rightarrow> 'o option"

definition empty_heap :: "'o heap" where
  "empty_heap = \<lparr>next_block = 1, live = (\<lambda>_. None)\<rparr>"

definition c_malloc :: "allocator \<Rightarrow> u64 \<Rightarrow> 'o \<Rightarrow> 'o heap \<Rightarrow> ptr \<times> 'o heap" where
  "c_malloc al n ob h =
     (let b = next_block h; h' = h\<lparr>next_block := Suc b\<rparr> in
      if refuses al b n then (Null, h')
      else (Ptr b 0, h'\<lparr>live := (live h)(b \<mapsto> ob)\<rparr>))"

definition c_calloc :: "allocator \<Rightarrow> u64 \<Rightarrow> u64 \<Rightarrow> 'o \<Rightarrow> 'o heap \<Rightarrow> ptr \<times> 'o heap" where
  "c_calloc al count sz ob h =
     (if unat count * unat sz < 2 ^ 64 then c_malloc al (count * sz) ob h else (Null, h))"

definition c_free :: "ptr \<Rightarrow> 'o heap \<Rightarrow> 'o heap outcome" where
  "c_free p h =
     (case p of
        Null \<Rightarrow> ok h
      | Ptr b o' \<Rightarrow>
          if o' = 0 \<and> live h b \<noteq> None then ok (h\<lparr>live := (live h)(b := None)\<rparr>) else raise Bad_free)"

definition c_realloc ::
  "allocator \<Rightarrow> ptr \<Rightarrow> u64 \<Rightarrow> ('o \<Rightarrow> 'o) \<Rightarrow> 'o \<Rightarrow> 'o heap \<Rightarrow> (ptr \<times> 'o heap) outcome" where
  "c_realloc al p n keep ob h =
     (case p of
        Null \<Rightarrow> ok (c_malloc al n ob h)
      | Ptr b o' \<Rightarrow>
          (case live h b of
             None \<Rightarrow> raise Bad_free
           | Some old \<Rightarrow>
               if o' \<noteq> 0 then raise Bad_free
               else if n = 0 \<and> realloc0_frees al then ok (Null, h\<lparr>live := (live h)(b := None)\<rparr>)
               else (let (q, h') = c_malloc al n (keep old) h in
                     if q = Null then ok (Null, h')
                     else ok (q, h'\<lparr>live := (live h')(b := None)\<rparr>))))"

definition heap_wf :: "'o heap \<Rightarrow> bool" where
  "heap_wf h \<longleftrightarrow> (\<forall>b. live h b \<noteq> None \<longrightarrow> b < next_block h)"

definition allocated :: "'o heap \<Rightarrow> 'o \<Rightarrow> ptr \<Rightarrow> 'o heap \<Rightarrow> bool" where
  "allocated h ob p h' \<longleftrightarrow>
     (\<exists>b. p = Ptr b 0 \<and> next_block h \<le> b \<and> b < next_block h' \<and> live h' = (live h)(b \<mapsto> ob))"

section \<open>util-malloc.c\<close>

definition MAXNUM :: u64 where
  "MAXNUM = push_bit (8 * 4) 1"

definition SIZE_MAX :: u64 where
  "SIZE_MAX = 0xFFFFFFFFFFFFFFFF"

definition alloc_too_large :: "u64 \<Rightarrow> u64 \<Rightarrow> bool" where
  "alloc_too_large count sz =
     ((count \<ge> MAXNUM \<or> sz \<ge> MAXNUM) \<and> sz \<noteq> 0 \<and> count \<ge> SIZE_MAX div sz)"

definition REALLOCARRAY ::
  "allocator \<Rightarrow> ptr \<Rightarrow> u64 \<Rightarrow> u64 \<Rightarrow> ('o \<Rightarrow> 'o) \<Rightarrow> 'o \<Rightarrow> 'o heap \<Rightarrow> (ptr \<times> 'o heap) outcome" where
  "REALLOCARRAY al p count sz keep ob h =
     (if alloc_too_large count sz then raise (Aborted ''[-] alloc too large, aborting'')
      else obind (c_realloc al p (count * sz) keep ob h) (\<lambda>(q, h').
             if q = Null \<and> count * sz \<noteq> 0
             then raise (Aborted ''[-] out of memory, aborting'') else ok (q, h')))"

definition CALLOC :: "allocator \<Rightarrow> u64 \<Rightarrow> u64 \<Rightarrow> 'o \<Rightarrow> 'o heap \<Rightarrow> (ptr \<times> 'o heap) outcome" where
  "CALLOC al count sz ob h =
     (if alloc_too_large count sz then raise (Aborted ''[-] alloc too large, aborting'')
      else (let (p, h') = c_calloc al count sz ob h in
            if p = Null \<and> count * sz \<noteq> 0
            then raise (Aborted ''[-] out of memory, aborting'') else ok (p, h')))"

definition MALLOC :: "allocator \<Rightarrow> u64 \<Rightarrow> 'o \<Rightarrow> 'o heap \<Rightarrow> (ptr \<times> 'o heap) outcome" where
  "MALLOC al sz ob h =
     (let (p, h') = c_malloc al sz ob h in
      if p = Null \<and> sz \<noteq> 0 then raise (Aborted ''[-] out of memory, aborting'') else ok (p, h'))"

definition REALLOC ::
  "allocator \<Rightarrow> ptr \<Rightarrow> u64 \<Rightarrow> ('o \<Rightarrow> 'o) \<Rightarrow> 'o \<Rightarrow> 'o heap \<Rightarrow> (ptr \<times> 'o heap) outcome" where
  "REALLOC al p sz keep ob h =
     obind (c_realloc al p sz keep ob h) (\<lambda>(q, h').
       if q = Null then raise (Aborted ''[-] out of memory, aborting'') else ok (q, h'))"

text \<open>
  \<open>strdup(str)\<close> is \<open>malloc(strlen(str) + 1)\<close> and a copy; on a null argument it is undefined, so the
  test \<open>str != NULL\<close> of the wrapper comes too late. \<open>mk\<close> makes the heap object for a string.
\<close>

definition STRDUP ::
  "allocator \<Rightarrow> string option \<Rightarrow> (string \<Rightarrow> 'o) \<Rightarrow> 'o heap \<Rightarrow> (ptr \<times> 'o heap) outcome" where
  "STRDUP al str mk h =
     (case str of
        None \<Rightarrow> raise Null_deref
      | Some s \<Rightarrow>
          (let (p, h') = c_malloc al (of_nat (length s + 1)) (mk s) h in
           if p = Null then raise (Aborted ''[-] out of memory, aborting'') else ok (p, h')))"

definition FREE :: "ptr \<Rightarrow> 'o heap \<Rightarrow> 'o heap outcome" where
  "FREE p h = c_free p h"

section \<open>mymalloc.c\<close>

text \<open>The older wrappers: the same guard, no message, and an abort on every \<open>NULL\<close>.\<close>

definition my_MALLOC :: "allocator \<Rightarrow> u64 \<Rightarrow> 'o \<Rightarrow> 'o heap \<Rightarrow> (ptr \<times> 'o heap) outcome" where
  "my_MALLOC al sz ob h =
     (let (p, h') = c_malloc al sz ob h in if p = Null then raise (Aborted []) else ok (p, h'))"

definition my_CALLOC :: "allocator \<Rightarrow> u64 \<Rightarrow> u64 \<Rightarrow> 'o \<Rightarrow> 'o heap \<Rightarrow> (ptr \<times> 'o heap) outcome" where
  "my_CALLOC al count sz ob h =
     (if (count \<ge> MAXNUM \<or> sz \<ge> MAXNUM) \<and> sz \<noteq> 0 \<and> count \<ge> SIZE_MAX div sz
      then raise (Aborted [])
      else (let (p, h') = c_calloc al count sz ob h in
            if p = Null then raise (Aborted []) else ok (p, h')))"

definition my_REALLOC ::
  "allocator \<Rightarrow> ptr \<Rightarrow> u64 \<Rightarrow> ('o \<Rightarrow> 'o) \<Rightarrow> 'o \<Rightarrow> 'o heap \<Rightarrow> (ptr \<times> 'o heap) outcome" where
  "my_REALLOC al p sz keep ob h =
     obind (c_realloc al p sz keep ob h) (\<lambda>(q, h').
       if q = Null then raise (Aborted []) else ok (q, h'))"

definition my_REALLOCARRAY ::
  "allocator \<Rightarrow> ptr \<Rightarrow> u64 \<Rightarrow> u64 \<Rightarrow> ('o \<Rightarrow> 'o) \<Rightarrow> 'o \<Rightarrow> 'o heap \<Rightarrow> (ptr \<times> 'o heap) outcome" where
  "my_REALLOCARRAY al p count sz keep ob h =
     (if (count \<ge> MAXNUM \<or> sz \<ge> MAXNUM) \<and> sz \<noteq> 0 \<and> count \<ge> SIZE_MAX div sz
      then raise (Aborted [])
      else obind (c_realloc al p (count * sz) keep ob h) (\<lambda>(q, h').
             if q = Null then raise (Aborted []) else ok (q, h')))"

definition my_STRDUP ::
  "allocator \<Rightarrow> string option \<Rightarrow> (string \<Rightarrow> 'o) \<Rightarrow> 'o heap \<Rightarrow> (ptr \<times> 'o heap) outcome" where
  "my_STRDUP al str mk h =
     (case str of
        None \<Rightarrow> raise Null_deref
      | Some s \<Rightarrow>
          (let (p, h') = c_malloc al (of_nat (length s + 1)) (mk s) h in
           if p = Null then raise (Aborted []) else ok (p, h')))"

section \<open>The overflow guard\<close>

lemma MAXNUM_eq: "MAXNUM = 0x100000000"
  by (simp add: MAXNUM_def push_bit_eq_mult)

lemma guard_no_overflow:
  assumes "\<not> alloc_too_large count sz"
  shows "unat count * unat sz < 2 ^ 64"
proof (cases "count < MAXNUM \<and> sz < MAXNUM")
  case True
  then have "unat count \<le> 2 ^ 32 - 1" and "unat sz \<le> 2 ^ 32 - 1"
    by (auto simp: MAXNUM_eq word_less_nat_alt)
  then have "unat count * unat sz \<le> (2 ^ 32 - 1) * (2 ^ 32 - 1)"
    by (rule mult_le_mono)
  then show ?thesis by simp
next
  case False
  show ?thesis
  proof (cases "sz = 0")
    case False': False
    with False assms have "count < SIZE_MAX div sz"
      by (auto simp: alloc_too_large_def not_le not_less)
    then have "unat count < unat SIZE_MAX div unat sz"
      by (simp add: word_less_nat_alt unat_div)
    then have "unat count * unat sz \<le> (unat SIZE_MAX div unat sz) * unat sz"
      by (intro mult_le_mono) simp_all
    also have "\<dots> \<le> unat SIZE_MAX"
      by (simp add: div_times_less_eq_dividend)
    also have "\<dots> < 2 ^ 64"
      by (simp add: SIZE_MAX_def)
    finally show ?thesis .
  qed simp
qed

lemma guard_product:
  assumes "\<not> alloc_too_large count sz"
  shows "unat (count * sz) = unat count * unat sz"
  using guard_no_overflow [OF assms] by (simp add: unat_word_ariths)

text \<open>The guard refuses more than it must, by less than one element.\<close>

lemma guard_tight:
  assumes "alloc_too_large count sz"
  shows "2 ^ 64 \<le> (unat count + 1) * unat sz"
proof -
  from assms have "sz \<noteq> 0" and "SIZE_MAX div sz \<le> count"
    by (auto simp: alloc_too_large_def)
  then have pos: "0 < unat sz" and le: "unat SIZE_MAX div unat sz \<le> unat count"
    by (simp_all add: word_le_nat_alt unat_div unat_gt_0)
  have "unat SIZE_MAX = (unat SIZE_MAX div unat sz) * unat sz + unat SIZE_MAX mod unat sz"
    by simp
  also have "\<dots> < (unat SIZE_MAX div unat sz) * unat sz + unat sz"
    using pos by (intro add_strict_left_mono mod_less_divisor)
  also have "\<dots> \<le> (unat count + 1) * unat sz"
    using le by simp
  finally have "unat SIZE_MAX < (unat count + 1) * unat sz" .
  moreover have "unat SIZE_MAX = 2 ^ 64 - 1"
    by (simp add: SIZE_MAX_def)
  ultimately show ?thesis by simp
qed

section \<open>The contract of the wrappers\<close>

locale checked_allocator =
  fixes calloc :: "allocator \<Rightarrow> u64 \<Rightarrow> u64 \<Rightarrow> 'o \<Rightarrow> 'o heap \<Rightarrow> (ptr \<times> 'o heap) outcome"
    and reallocarray ::
      "allocator \<Rightarrow> ptr \<Rightarrow> u64 \<Rightarrow> u64 \<Rightarrow> ('o \<Rightarrow> 'o) \<Rightarrow> 'o \<Rightarrow> 'o heap \<Rightarrow> (ptr \<times> 'o heap) outcome"
    and strdup :: "allocator \<Rightarrow> string option \<Rightarrow> (string \<Rightarrow> 'o) \<Rightarrow> 'o heap \<Rightarrow> (ptr \<times> 'o heap) outcome"
  assumes calloc_spec: "count \<noteq> 0 \<Longrightarrow> sz \<noteq> 0 \<Longrightarrow>
      safe (\<lambda>(p, h'). allocated h ob p h' \<and> unat (count * sz) = unat count * unat sz)
        (calloc al count sz ob h)"
    and reallocarray_null: "count \<noteq> 0 \<Longrightarrow> sz \<noteq> 0 \<Longrightarrow>
      safe (\<lambda>(p, h'). allocated h ob p h' \<and> unat (count * sz) = unat count * unat sz)
        (reallocarray al Null count sz keep ob h)"
    and reallocarray_move: "count \<noteq> 0 \<Longrightarrow> sz \<noteq> 0 \<Longrightarrow> live h b = Some old \<Longrightarrow>
      safe (\<lambda>(p, h'). \<exists>b'. p = Ptr b' 0 \<and> next_block h \<le> b' \<and> b' < next_block h' \<and>
          live h' = (live h)(b' \<mapsto> keep old, b := None) \<and>
          unat (count * sz) = unat count * unat sz)
        (reallocarray al (Ptr b 0) count sz keep ob h)"
    and strdup_spec: "safe (\<lambda>(p, h'). allocated h (mk str) p h') (strdup al (Some str) mk h)"
begin

lemma calloc_fresh:
  assumes "heap_wf h" "count \<noteq> 0" "sz \<noteq> 0"
  shows "safe (\<lambda>(p, h'). heap_wf h' \<and> live h (blk p) = None \<and> live h' (blk p) = Some ob \<and>
      (\<forall>b. b \<noteq> blk p \<longrightarrow> live h' b = live h b)) (calloc al count sz ob h)"
  using assms(1)
  by (intro safe_mono [OF calloc_spec [OF assms(2,3)]])
    (fastforce simp: allocated_def heap_wf_def split: if_splits)

lemma strdup_fresh:
  assumes "heap_wf h"
  shows "safe (\<lambda>(p, h'). heap_wf h' \<and> live h (blk p) = None \<and> live h' (blk p) = Some (mk str) \<and>
      (\<forall>b. b \<noteq> blk p \<longrightarrow> live h' b = live h b)) (strdup al (Some str) mk h)"
  using assms
  by (intro safe_mono [OF strdup_spec])
    (fastforce simp: allocated_def heap_wf_def split: if_splits)

text \<open>Growing an array by one keeps every other block, frees the old copy and stays well formed.\<close>

lemma reallocarray_grow:
  assumes "heap_wf h" "count \<noteq> 0" "sz \<noteq> 0" "live h b = Some old"
  shows "safe (\<lambda>(p, h'). heap_wf h' \<and> live h (blk p) = None \<and> p = Ptr (blk p) 0 \<and>
      live h' = (live h)(blk p \<mapsto> keep old, b := None))
    (reallocarray al (Ptr b 0) count sz keep ob h)"
  using assms(1)
  by (intro safe_mono [OF reallocarray_move [of count sz h b old, OF assms(2-4)]])
    (fastforce simp: heap_wf_def split: if_splits)

end

lemma c_malloc_cases:
  obtains (fails) "c_malloc al n ob h = (Null, h\<lparr>next_block := Suc (next_block h)\<rparr>)"
  | (works) h' where "c_malloc al n ob h = (Ptr (next_block h) 0, h')"
      and "allocated h ob (Ptr (next_block h) 0) h'"
proof (cases "refuses al (next_block h) n")
  case True
  then show thesis by (intro fails) (simp add: c_malloc_def Let_def)
next
  case False
  then show thesis
    by (intro works [of "h\<lparr>next_block := Suc (next_block h), live := (live h)(next_block h \<mapsto> ob)\<rparr>"])
      (simp_all add: c_malloc_def Let_def allocated_def)
qed

lemma guard_nonzero:
  "\<not> alloc_too_large count sz \<Longrightarrow> count \<noteq> 0 \<Longrightarrow> sz \<noteq> 0 \<Longrightarrow> count * sz \<noteq> 0"
  by (metis guard_product mult_eq_0_iff unat_eq_0)

lemma CALLOC_spec:
  assumes "count \<noteq> 0" "sz \<noteq> 0"
  shows "safe (\<lambda>(p, h'). allocated h ob p h' \<and> unat (count * sz) = unat count * unat sz)
    (CALLOC al count sz ob h)"
proof (cases "alloc_too_large count sz")
  case False
  then have "CALLOC al count sz ob h = (let (p, h') = c_malloc al (count * sz) ob h in
      if p = Null then raise (Aborted ''[-] out of memory, aborting'') else ok (p, h'))"
    using guard_nonzero [OF False assms] guard_no_overflow [OF False]
    by (simp add: CALLOC_def c_calloc_def)
  with guard_product [OF False] show ?thesis
    by (cases rule: c_malloc_cases [of al "count * sz" ob h]) auto
qed (simp add: CALLOC_def)

lemma REALLOCARRAY_Null_spec:
  assumes "count \<noteq> 0" "sz \<noteq> 0"
  shows "safe (\<lambda>(p, h'). allocated h ob p h' \<and> unat (count * sz) = unat count * unat sz)
    (REALLOCARRAY al Null count sz keep ob h)"
proof (cases "alloc_too_large count sz")
  case False
  with guard_nonzero [OF False assms] guard_product [OF False] show ?thesis
    by (cases rule: c_malloc_cases [of al "count * sz" ob h])
      (auto simp: REALLOCARRAY_def c_realloc_def)
qed (simp add: REALLOCARRAY_def)

lemma REALLOCARRAY_move_spec:
  assumes "count \<noteq> 0" "sz \<noteq> 0" "live h b = Some old"
  shows "safe (\<lambda>(p, h'). \<exists>b'. p = Ptr b' 0 \<and> next_block h \<le> b' \<and> b' < next_block h' \<and>
      live h' = (live h)(b' \<mapsto> keep old, b := None) \<and> unat (count * sz) = unat count * unat sz)
    (REALLOCARRAY al (Ptr b 0) count sz keep ob h)"
proof (cases "alloc_too_large count sz")
  case False
  with guard_nonzero [OF False assms(1,2)] guard_product [OF False] assms(3) show ?thesis
    by (cases rule: c_malloc_cases [of al "count * sz" "keep old" h])
      (auto simp: REALLOCARRAY_def c_realloc_def allocated_def)
qed (simp add: REALLOCARRAY_def)

lemma STRDUP_spec:
  "safe (\<lambda>(p, h'). allocated h (mk str) p h') (STRDUP al (Some str) mk h)"
  by (cases rule: c_malloc_cases [of al "of_nat (length str + 1)" "mk str" h])
    (auto simp: STRDUP_def)

interpretation um: checked_allocator CALLOC REALLOCARRAY STRDUP
  by unfold_locales (fact CALLOC_spec REALLOCARRAY_Null_spec REALLOCARRAY_move_spec STRDUP_spec)+

section \<open>When the wrappers abort\<close>

text \<open>An allocator that never runs out of memory.\<close>

definition willing_allocator :: "allocator \<Rightarrow> bool" where
  "willing_allocator al \<longleftrightarrow> (\<forall>n sz. \<not> refuses al n sz)"

lemma CALLOC_aborts:
  assumes "count \<noteq> 0" "sz \<noteq> 0"
  shows "no_abort (CALLOC al count sz ob h) \<longleftrightarrow> \<not> alloc_too_large count sz \<and> \<not> refuses al (next_block h) (count * sz)"
  using guard_no_overflow [of count sz] guard_nonzero [of count sz] assms
  by (auto simp: CALLOC_def c_calloc_def c_malloc_def Let_def no_abort_ok)

lemma REALLOCARRAY_aborts:
  assumes "count \<noteq> 0" "sz \<noteq> 0" "live h b = Some old"
  shows "no_abort (REALLOCARRAY al (Ptr b 0) count sz keep ob h) \<longleftrightarrow>
    \<not> alloc_too_large count sz \<and> \<not> refuses al (next_block h) (count * sz)"
  using guard_nonzero [of count sz] assms
  by (auto simp: REALLOCARRAY_def c_realloc_def c_malloc_def Let_def no_abort_ok)

lemma CALLOC_no_abort: "willing_allocator al \<Longrightarrow> \<not> alloc_too_large count sz \<Longrightarrow> no_abort (CALLOC al count sz ob h)"
  using guard_no_overflow [of count sz]
  by (simp add: CALLOC_def c_calloc_def c_malloc_def Let_def no_abort_ok willing_allocator_def)

lemma REALLOCARRAY_no_abort:
  "willing_allocator al \<Longrightarrow> \<not> alloc_too_large count sz \<Longrightarrow> count * sz \<noteq> 0 \<Longrightarrow> no_abort (REALLOCARRAY al p count sz keep ob h)"
  by (auto simp: REALLOCARRAY_def c_realloc_def c_malloc_def Let_def no_abort_ok willing_allocator_def split: ptr.split option.split)

lemma STRDUP_no_abort [no_aborts]: "willing_allocator al \<Longrightarrow> no_abort (STRDUP al (Some str) mk h)"
  by (simp add: STRDUP_def c_malloc_def Let_def no_abort_ok willing_allocator_def)

lemma FREE_no_abort [no_aborts]: "no_abort (FREE p h)"
  by (auto simp: FREE_def c_free_def no_abort_ok split: ptr.split)

text \<open>Small requests and arrays of pointers pass the guard.\<close>

lemma guard_small: "count < MAXNUM \<Longrightarrow> sz < MAXNUM \<Longrightarrow> \<not> alloc_too_large count sz"
  by (simp add: alloc_too_large_def not_le)

lemma guard_pointers:
  assumes "n + 1 < 2 ^ 61"
  shows "\<not> alloc_too_large (of_nat n) 8" "0 < n \<Longrightarrow> of_nat n * 8 \<noteq> (0 :: u64)"
proof -
  have n: "unat (of_nat n :: u64) = n"
    using assms by (simp add: unat_of_nat)
  have "SIZE_MAX div 8 = 0x1FFFFFFFFFFFFFFF"
    by (simp add: SIZE_MAX_def)
  then have "(of_nat n :: u64) < SIZE_MAX div 8"
    using assms n by (simp add: word_less_nat_alt)
  then show g: "\<not> alloc_too_large (of_nat n) 8"
    by (simp add: alloc_too_large_def not_le)
  show "of_nat n * 8 \<noteq> (0 :: u64)" if "0 < n"
    using guard_nonzero [OF g] n that by force
qed

text \<open>The older file returns the same blocks whenever the requested size is not zero.\<close>

lemma my_CALLOC_ok:
  "count * sz \<noteq> 0 \<Longrightarrow> my_CALLOC al count sz ob h = ok r \<longleftrightarrow> CALLOC al count sz ob h = ok r"
  by (simp add: my_CALLOC_def CALLOC_def alloc_too_large_def split: prod.split)

lemma my_REALLOCARRAY_ok:
  "count * sz \<noteq> 0 \<Longrightarrow>
     my_REALLOCARRAY al p count sz keep ob h = ok r \<longleftrightarrow> REALLOCARRAY al p count sz keep ob h = ok r"
  by (auto simp: my_REALLOCARRAY_def REALLOCARRAY_def alloc_too_large_def obind_eq_ok
      split: if_splits)

lemma my_MALLOC_ok: "sz \<noteq> 0 \<Longrightarrow> my_MALLOC al sz ob h = ok r \<longleftrightarrow> MALLOC al sz ob h = ok r"
  by (simp add: my_MALLOC_def MALLOC_def split: prod.split)

lemma my_REALLOC_ok: "my_REALLOC al p sz keep ob h = ok r \<longleftrightarrow> REALLOC al p sz keep ob h = ok r"
  by (auto simp: my_REALLOC_def REALLOC_def obind_eq_ok split: if_splits)

lemma my_STRDUP_ok: "my_STRDUP al str mk h = ok r \<longleftrightarrow> STRDUP al str mk h = ok r"
  by (simp add: my_STRDUP_def STRDUP_def split: option.split prod.split)

end
