(* ===== verification/Malloc_Props.thy ===== *)
theory Malloc_Props
  imports Util_Malloc
begin

text \<open>
  The properties of the allocation wrappers. They rest on the laws of \<open>checked_allocator\<close>, which
  \<^theory_text>\<open>Util_Malloc\<close> proves for \<^verbatim>\<open>util-malloc.c\<close>.
\<close>

definition giving :: allocator where
  "giving = \<lparr>refuses = (\<lambda>_ _. False), realloc0_frees = True\<rparr>"

definition one_block :: "nat heap" where
  "one_block = \<lparr>next_block = 2, live = [1 \<mapsto> 7]\<rparr>"

lemma giving_simps [simp]: "\<not> refuses giving n sz" "\<not> alloc_too_large 3 8" "\<not> alloc_too_large 4 8"
  by (simp_all add: giving_def alloc_too_large_def MAXNUM_eq)





text \<open>C24: The overflow guard never lets a product wrap, and refuses only requests within one element of the limit.\<close>
theorem overflow_guard_exact:
  "if alloc_too_large count sz then 2 ^ 64 \<le> (unat count + 1) * unat sz
   else unat count * unat sz < 2 ^ 64 \<and> unat (count * sz) = unat count * unat sz"
proof (cases "alloc_too_large count sz")
  case True
  with guard_tight [OF True] show ?thesis by (simp only: if_True)
next
  case False
  with guard_no_overflow [OF False] guard_product [OF False] show ?thesis
    by (simp only: if_False simp_thms)
qed

text \<open>C25: For sizes other than zero the wrappers of mymalloc.c return exactly what those of util-malloc.c return.\<close>
theorem mymalloc_agrees:
  assumes "count * sz \<noteq> 0"
  shows "(my_CALLOC al count sz ob h = ok r \<longleftrightarrow> CALLOC al count sz ob h = ok r) \<and>
    (my_REALLOCARRAY al p count sz keep ob h = ok r \<longleftrightarrow> REALLOCARRAY al p count sz keep ob h = ok r) \<and>
    (my_MALLOC al (count * sz) ob h = ok r \<longleftrightarrow> MALLOC al (count * sz) ob h = ok r) \<and>
    (my_REALLOC al p sz keep ob h = ok r \<longleftrightarrow> REALLOC al p sz keep ob h = ok r) \<and>
    (my_STRDUP al str mk h = ok r \<longleftrightarrow> STRDUP al str mk h = ok r)"
  using my_CALLOC_ok [OF assms] my_REALLOCARRAY_ok [OF assms] my_MALLOC_ok [OF assms] my_REALLOC_ok
    my_STRDUP_ok by (intro conjI)

lemma mymalloc_agrees_witness:
  "(3 * 8 :: u64) \<noteq> 0 \<and> my_CALLOC giving 3 8 9 one_block = ok (Ptr 2 0, \<lparr>next_block = 3, live = [1 \<mapsto> 7, 2 \<mapsto> 9]\<rparr>)"
  using mymalloc_agrees [of "3 :: u64" "8 :: u64" giving 9 one_block]
  by (simp add: CALLOC_def alloc_too_large_def MAXNUM_eq c_calloc_def c_malloc_def Let_def giving_def
      one_block_def fun_upd_twist)

end
