(* ===== verification/Timer_Lists.thy ===== *)
theory Timer_Lists
  imports Event_Timeout
begin

text \<open>
  Doubly linked lists of timeout entries. \<open>dseg h l p xs\<close>: the pointer \<open>p\<close>, which is stored at
  location \<open>l\<close>, leads through the entries \<open>xs\<close> to \<open>NULL\<close>; every entry points back at the location
  that points at it, and no entry occurs twice. The lemmas say which writes leave a list alone and
  how a list changes when an entry is put in front or taken out.
\<close>

fun dseg :: "(ptr \<Rightarrow> TimeoutEntry option) \<Rightarrow> ploc \<Rightarrow> ptr \<Rightarrow> ptr list \<Rightarrow> bool" where
  "dseg h l p [] \<longleftrightarrow> p = Null"
| "dseg h l p (x # xs) \<longleftrightarrow> p = x \<and> x \<noteq> Null \<and> x \<notin> set xs \<and>
     (case h x of None \<Rightarrow> False | Some E \<Rightarrow> te_prev E = l \<and> dseg h (LNext x) (te_next E) xs)"

lemma dseg_cong: "(\<And>x. x \<in> set xs \<Longrightarrow> h' x = h x) \<Longrightarrow> dseg h' l p xs = dseg h l p xs"
  by (induction xs arbitrary: l p) (auto split: option.split)

lemma dseg_upd_other [simp]: "y \<notin> set xs \<Longrightarrow> dseg (h(y := v)) l p xs = dseg h l p xs"
  by (rule dseg_cong) auto

lemma dseg_distinct: "dseg h l p xs \<Longrightarrow> distinct xs"
  by (induction xs arbitrary: l p) (auto split: option.splits)

lemma dseg_mem: "dseg h l p xs \<Longrightarrow> x \<in> set xs \<Longrightarrow> x \<noteq> Null \<and> h x \<noteq> None"
  by (induction xs arbitrary: l p) (auto split: option.splits)

lemma dseg_head: "dseg h l p xs \<Longrightarrow> p = (case xs of [] \<Rightarrow> Null | x # _ \<Rightarrow> x)"
  by (cases xs) auto

lemma dseg_mem_prev: "dseg h l p xs \<Longrightarrow> x \<in> set xs \<Longrightarrow> h x = Some E \<Longrightarrow> l \<noteq> LNull \<Longrightarrow> te_prev E \<noteq> LNull"
  by (induction xs arbitrary: l p) (auto split: option.splits)

text \<open>The neighbours of an entry in the middle of a list.\<close>

lemma dseg_split:
  assumes "dseg h l p (xs @ e # ys)"
  obtains E where "h e = Some E"
    and "te_prev E = (if xs = [] then l else LNext (last xs))"
    and "te_next E = (case ys of [] \<Rightarrow> Null | y # _ \<Rightarrow> y)"
    and "dseg h (LNext e) (te_next E) ys"
  using assms
proof (induction xs arbitrary: l p thesis)
  case Nil
  then obtain E where E: "h e = Some E" "te_prev E = l" "dseg h (LNext e) (te_next E) ys"
    by (auto split: option.splits)
  show ?case
    by (rule Nil.prems(1) [of E]) (use E dseg_head [OF E(3)] in simp_all)
next
  case (Cons x xs)
  from Cons.prems(2) obtain F where F: "h x = Some F" "dseg h (LNext x) (te_next F) (xs @ e # ys)"
    by (auto split: option.splits)
  show ?case
  proof (rule Cons.IH [OF _ F(2)])
    fix E
    assume "h e = Some E" "te_prev E = (if xs = [] then LNext x else LNext (last xs))"
      "te_next E = (case ys of [] \<Rightarrow> Null | y # _ \<Rightarrow> y)" "dseg h (LNext e) (te_next E) ys"
    then show thesis by (intro Cons.prems(1) [of E]) auto
  qed
qed

text \<open>Changing the place the first entry points back at.\<close>

lemma dseg_relocate:
  assumes "dseg h l p ys"
    and "\<And>y. y \<in> set (tl ys) \<Longrightarrow> h' y = h y"
    and "ys \<noteq> [] \<Longrightarrow> h' p = map_option (\<lambda>E. E\<lparr>te_prev := l'\<rparr>) (h p)"
  shows "dseg h' l' p ys"
proof (cases ys)
  case Nil
  with assms(1) show ?thesis by simp
next
  case (Cons y zs)
  with assms(1) obtain E where E: "p = y" "y \<noteq> Null" "y \<notin> set zs" "h y = Some E"
      "dseg h (LNext y) (te_next E) zs"
    by (auto split: option.splits)
  moreover have "dseg h' (LNext y) (te_next E) zs"
    using E(5) assms(2) Cons by (subst dseg_cong [of zs h' h]) auto
  ultimately show ?thesis
    using assms(3) Cons by simp
qed

lemma dseg_push:
  assumes "dseg h l p xs" and "e \<noteq> Null" and "e \<notin> set xs" and "h' e = Some E"
    and "te_next E = p" and "te_prev E = l"
    and "\<And>y. y \<in> set (tl xs) \<Longrightarrow> h' y = h y"
    and "xs \<noteq> [] \<Longrightarrow> h' p = map_option (\<lambda>E. E\<lparr>te_prev := LNext e\<rparr>) (h p)"
  shows "dseg h' l e (e # xs)"
proof -
  have "dseg h' (LNext e) p xs"
    using assms(1,7,8) by (rule dseg_relocate)
  with assms(2-6) show ?thesis by simp
qed

lemma dseg_remove:
  assumes "dseg h l p (xs @ e # ys)" and "h e = Some E"
    and "\<And>x. x \<in> set (butlast xs) \<Longrightarrow> h' x = h x"
    and "xs \<noteq> [] \<Longrightarrow> h' (last xs) = map_option (\<lambda>F. F\<lparr>te_next := te_next E\<rparr>) (h (last xs))"
    and "\<And>y. y \<in> set (tl ys) \<Longrightarrow> h' y = h y"
    and "ys \<noteq> [] \<Longrightarrow> h' (hd ys) = map_option (\<lambda>F. F\<lparr>te_prev := te_prev E\<rparr>) (h (hd ys))"
  shows "dseg h' l (if xs = [] then te_next E else p) (xs @ ys)"
  using assms
proof (induction xs arbitrary: l p)
  case Nil
  then have E: "te_prev E = l" "dseg h (LNext e) (te_next E) ys"
    by simp_all
  then have "dseg h' l (te_next E) ys"
    using Nil.prems dseg_head [OF E(2)]
    by (intro dseg_relocate [OF E(2)]) (auto split: list.splits)
  then show ?case by simp
next
  case (Cons x xs)
  from Cons.prems(1) obtain F where F: "h x = Some F" "te_prev F = l" "p = x" "x \<noteq> Null"
      "x \<notin> set (xs @ e # ys)" "dseg h (LNext x) (te_next F) (xs @ e # ys)"
    by (auto split: option.splits)
  have IH: "dseg h' (LNext x) (if xs = [] then te_next E else te_next F) (xs @ ys)"
    using F(6) Cons.prems by (intro Cons.IH) (auto split: if_splits)
  show ?case
    using IH F Cons.prems(3,4) by (cases "xs = []") auto
qed

lemma dseg_removed_neighbours:
  assumes "dseg h l p (xs @ e # ys)"
  shows "e \<notin> set xs" "e \<notin> set ys" "set xs \<inter> set ys = {}" "distinct xs" "distinct ys"
    and "xs \<noteq> [] \<Longrightarrow> last xs \<noteq> e \<and> last xs \<notin> set ys"
    and "ys \<noteq> [] \<Longrightarrow> hd ys \<noteq> e \<and> hd ys \<notin> set xs"
    and "xs \<noteq> [] \<Longrightarrow> ys \<noteq> [] \<Longrightarrow> hd ys \<noteq> last xs"
  using dseg_distinct [OF assms] last_in_set [of xs] hd_in_set [of ys]
  by (auto simp: disjoint_iff) (metis hd_in_set last_in_set)

text \<open>The inner loop finds the first entry whose time has come.\<close>

lemma scan_slot_dseg:
  "dseg (ents m) l p xs \<Longrightarrow>
     scan_slot now m p =
       ok (case find (\<lambda>x. \<not> te_timestamp (the (ents m x)) > now) xs of None \<Rightarrow> Null | Some x \<Rightarrow> x)"
proof (induction xs arbitrary: l p)
  case Nil
  then show ?case by (simp add: scan_slot.simps)
next
  case (Cons x xs)
  then obtain E where E: "ents m x = Some E" "p = x" "x \<noteq> Null" "dseg (ents m) (LNext x) (te_next E) xs"
    by (auto split: option.splits)
  have "load_entry x m = ok E"
    using E by (auto simp: load_entry_def split: ptr.split)
  with E Cons.IH [OF E(4)] show ?case
    by (simp add: scan_slot.simps [of now m x])
qed

end
