(* ===== verification/Timer_Wheel.thy ===== *)
theory Timer_Wheel
  imports Timer_Lists
begin

text \<open>
  The timer wheel refines a map. \<open>timers m A\<close> says that the store \<open>m\<close> represents the map \<open>A\<close> from
  linked entries to (ring, expiry, offset): every slot of every ring is a well-formed list, an entry
  is in the slot of its expiry time, and an entry that is in no ring has null links. Then
  \<open>timeout_unlink\<close> is deletion, \<open>timeouts_add\<close> is update and \<open>timeouts_remove\<close> takes out an entry
  that has expired, if the scan meets one.
\<close>

type_synonym timer_map = "ptr \<Rightarrow> (nat \<times> u64 \<times> u64) option"

definition MASK :: u32 where
  "MASK = 0xFFFFF"

definition slot_of :: "u64 \<Rightarrow> nat" where
  "slot_of ts = slot_index ts MASK"

definition wheel :: "tmem \<Rightarrow> timer_map \<Rightarrow> (nat \<Rightarrow> nat \<Rightarrow> ptr list) \<Rightarrow> bool" where
  "wheel m A L \<longleftrightarrow>
     (\<forall>r R i. rings m r = Some R \<longrightarrow> i < SLOTS \<longrightarrow> dseg (ents m) (LSlot r i) (slots R i) (L r i)) \<and>
     (\<forall>r R. rings m r = Some R \<longrightarrow> mask R = MASK) \<and>
     (\<forall>p r ts off. A p = Some (r, ts, off) \<longrightarrow> rings m r \<noteq> None \<and> p \<in> set (L r (slot_of ts)) \<and>
        (\<exists>E. ents m p = Some E \<and> te_timestamp E = ts \<and> te_offset E = off)) \<and>
     (\<forall>r i p. p \<in> set (L r i) \<longrightarrow> (\<exists>ts off. A p = Some (r, ts, off) \<and> slot_of ts = i)) \<and>
     (\<forall>p E. ents m p = Some E \<longrightarrow> A p = None \<longrightarrow> te_prev E = LNull \<and> te_next E = Null)"

definition timers :: "tmem \<Rightarrow> timer_map \<Rightarrow> bool" where
  "timers m A \<longleftrightarrow> finite (dom A) \<and> (\<exists>L. wheel m A L)"

text \<open>What no operation but the scan changes: the allocated entries, their offsets, the indexes.\<close>

definition same_rings :: "tmem \<Rightarrow> tmem \<Rightarrow> bool" where
  "same_rings m m' \<longleftrightarrow>
     (\<forall>r. map_option current_index (rings m' r) = map_option current_index (rings m r)) \<and>
     tm_err m' = tm_err m"

section \<open>Access lemmas\<close>

lemma load_entry_ok [simp]: "p \<noteq> Null \<Longrightarrow> ents m p = Some E \<Longrightarrow> load_entry p m = ok E"
  by (cases p) (auto simp: load_entry_def)

lemma upd_entry_ok [simp]:
  "p \<noteq> Null \<Longrightarrow> ents m p = Some E \<Longrightarrow> upd_entry p f m = ok (m\<lparr>ents := (ents m)(p \<mapsto> f E)\<rparr>)"
  by (simp add: upd_entry_def)

lemma load_ring_ok [simp]: "rings m r = Some R \<Longrightarrow> load_ring (Ptr r 0) m = ok R"
  by (simp add: load_ring_def)

lemma load_slot_ok [simp]: "rings m r = Some R \<Longrightarrow> i < SLOTS \<Longrightarrow> load_slot (Ptr r 0) i m = ok (slots R i)"
  by (simp add: load_slot_def)

lemma upd_ring_ok [simp]:
  "rings m r = Some R \<Longrightarrow> upd_ring (Ptr r 0) f m = ok (m\<lparr>rings := (rings m)(r \<mapsto> f R)\<rparr>)"
  by (simp add: upd_ring_def)

lemma store_slot_ok [simp]:
  "rings m r = Some R \<Longrightarrow> i < SLOTS \<Longrightarrow>
     store_slot (Ptr r 0) i p m = ok (m\<lparr>rings := (rings m)(r \<mapsto> R\<lparr>slots := (slots R)(i := p)\<rparr>)\<rparr>)"
  by (simp add: store_slot_def)

lemma assign_loc_slot [simp]:
  "rings m r = Some R \<Longrightarrow> i < SLOTS \<Longrightarrow>
     assign_loc (LSlot r i) p m = ok (m\<lparr>rings := (rings m)(r \<mapsto> R\<lparr>slots := (slots R)(i := p)\<rparr>)\<rparr>)"
  by (simp add: assign_loc_def)

lemma assign_loc_next [simp]:
  "q \<noteq> Null \<Longrightarrow> ents m q = Some E \<Longrightarrow>
     assign_loc (LNext q) p m = ok (m\<lparr>ents := (ents m)(q \<mapsto> E\<lparr>te_next := p\<rparr>)\<rparr>)"
  by (simp add: assign_loc_def)

lemma SLOTS_eq: "SLOTS = 2 ^ 20"
  by (simp add: SLOTS_def)

lemma slot_index_eq: "slot_index ts MASK = unat ts mod 2 ^ 20"
proof -
  have "ucast MASK = (Bit_Operations.mask 20 :: u64)"
    by (simp add: MASK_def mask_eq_exp_minus_1)
  then have "slot_index ts MASK = unat (take_bit 20 ts)"
    by (simp add: slot_index_def take_bit_eq_mask)
  then show ?thesis
    by (simp add: take_bit_eq_mod unat_mod)
qed

lemma slot_of_eq: "slot_of ts = unat ts mod 2 ^ 20"
  by (simp add: slot_of_def slot_index_eq)

lemma slot_of_less [simp]: "slot_of ts < SLOTS"
  by (simp add: slot_of_eq SLOTS_eq)

section \<open>Unlinking an entry\<close>

definition unlinked_ents ::
  "(ptr \<Rightarrow> TimeoutEntry option) \<Rightarrow> ptr list \<Rightarrow> ptr \<Rightarrow> TimeoutEntry \<Rightarrow> ptr list \<Rightarrow> ptr \<Rightarrow> TimeoutEntry option" where
  "unlinked_ents h xs e E ys x =
     (if x = e then Some (E\<lparr>te_next := Null, te_prev := LNull, te_timestamp := 0\<rparr>)
      else if xs \<noteq> [] \<and> x = last xs then map_option (\<lambda>F. F\<lparr>te_next := te_next E\<rparr>) (h x)
      else if ys \<noteq> [] \<and> x = hd ys then map_option (\<lambda>F. F\<lparr>te_prev := te_prev E\<rparr>) (h x)
      else h x)"

lemma timeout_unlink_linked:
  assumes seg: "dseg (ents m) (LSlot r i) (slots R i) (xs @ e # ys)"
    and R: "rings m r = Some R" and i: "i < SLOTS" and E: "ents m e = Some E"
  shows "timeout_unlink e m = ok (m\<lparr>ents := unlinked_ents (ents m) xs e E ys,
    rings := (if xs = [] then (rings m)(r \<mapsto> R\<lparr>slots := (slots R)(i := te_next E)\<rparr>) else rings m)\<rparr>)"
proof -
  note nb = dseg_removed_neighbours [OF seg]
  have e: "e \<noteq> Null" using dseg_mem [OF seg, of e] by simp
  have prev: "te_prev E = (if xs = [] then LSlot r i else LNext (last xs))"
    and nxt: "te_next E = (case ys of [] \<Rightarrow> Null | y # _ \<Rightarrow> y)"
    using seg E by (auto elim: dseg_split)
  define h where "h = (if xs = [] then ents m
      else (ents m)(last xs \<mapsto> (the (ents m (last xs)))\<lparr>te_next := te_next E\<rparr>))"
  define rs where "rs = (if xs = [] then (rings m)(r \<mapsto> R\<lparr>slots := (slots R)(i := te_next E)\<rparr>) else rings m)"
  have lx: "xs \<noteq> [] \<Longrightarrow> last xs \<noteq> Null \<and> (\<exists>F. ents m (last xs) = Some F)"
    using dseg_mem [OF seg, of "last xs"] by auto
  have step1: "assign_loc (te_prev E) (te_next E) m = ok (m\<lparr>ents := h, rings := rs\<rparr>)"
    using lx R i by (auto simp: prev h_def rs_def)
  have he: "h e = Some E"
    using nb(1) E by (auto simp: h_def)
  have ly: "ys \<noteq> [] \<Longrightarrow> hd ys \<noteq> Null \<and> (\<exists>F. ents m (hd ys) = Some F) \<and> h (hd ys) = ents m (hd ys)"
    using dseg_mem [OF seg, of "hd ys"] nb(8) by (auto simp: h_def)
  define h2 where "h2 = (if ys = [] then h else h(hd ys \<mapsto> (the (h (hd ys)))\<lparr>te_prev := te_prev E\<rparr>))"
  have step2: "(if te_next E \<noteq> Null
      then upd_entry (te_next E) (\<lambda>N. N\<lparr>te_prev := te_prev E\<rparr>) (m\<lparr>ents := h, rings := rs\<rparr>)
      else ok (m\<lparr>ents := h, rings := rs\<rparr>)) = ok (m\<lparr>ents := h2, rings := rs\<rparr>)"
    using ly nxt by (cases ys) (auto simp: h2_def)
  have h2e: "h2 e = Some E"
    using he nb(2) by (cases ys) (auto simp: h2_def)
  have "h2(e \<mapsto> E\<lparr>te_next := Null, te_prev := LNull, te_timestamp := 0\<rparr>) = unlinked_ents (ents m) xs e E ys"
    using lx ly nb(6-8) by (auto simp: fun_eq_iff unlinked_ents_def h2_def h_def)
  moreover have "te_prev E \<noteq> LNull" by (simp add: prev)
  ultimately show ?thesis
    using e E step1 step2 he h2e
    by (simp add: timeout_unlink_def rs_def [symmetric])
qed

lemma wheelD:
  assumes "wheel m A L"
  shows "\<And>r R i. rings m r = Some R \<Longrightarrow> i < SLOTS \<Longrightarrow> dseg (ents m) (LSlot r i) (slots R i) (L r i)"
    and "\<And>r R. rings m r = Some R \<Longrightarrow> mask R = MASK"
    and "\<And>p r ts off. A p = Some (r, ts, off) \<Longrightarrow>
      p \<in> set (L r (slot_of ts)) \<and> (\<exists>R. rings m r = Some R) \<and>
      (\<exists>E. ents m p = Some E \<and> te_timestamp E = ts \<and> te_offset E = off)"
    and "\<And>p r i. p \<in> set (L r i) \<Longrightarrow> \<exists>ts off. A p = Some (r, ts, off) \<and> slot_of ts = i"
    and "\<And>p E. ents m p = Some E \<Longrightarrow> A p = None \<Longrightarrow> te_prev E = LNull \<and> te_next E = Null"
  using assms unfolding wheel_def by blast+

lemma wheelI:
  assumes "\<And>r R i. rings m r = Some R \<Longrightarrow> i < SLOTS \<Longrightarrow> dseg (ents m) (LSlot r i) (slots R i) (L r i)"
    and "\<And>r R. rings m r = Some R \<Longrightarrow> mask R = MASK"
    and "\<And>p r ts off. A p = Some (r, ts, off) \<Longrightarrow>
      p \<in> set (L r (slot_of ts)) \<and> (\<exists>R. rings m r = Some R) \<and>
      (\<exists>E. ents m p = Some E \<and> te_timestamp E = ts \<and> te_offset E = off)"
    and "\<And>p r i. p \<in> set (L r i) \<Longrightarrow> \<exists>ts off. A p = Some (r, ts, off) \<and> slot_of ts = i"
    and "\<And>p E. ents m p = Some E \<Longrightarrow> A p = None \<Longrightarrow> te_prev E = LNull \<and> te_next E = Null"
  shows "wheel m A L"
  using assms unfolding wheel_def by (intro conjI allI impI) blast+

lemma wheel_lists_apart:
  assumes "wheel m A L" "p \<in> set (L r i)" "p \<in> set (L r' i')"
  shows "r' = r \<and> i' = i"
  using wheelD(4) [OF assms(1,2)] wheelD(4) [OF assms(1,3)] by auto

text \<open>An entry in no ring is left alone.\<close>

lemma timeout_unlink_unlinked:
  assumes "wheel m A L" "A e = None" "e \<noteq> Null" "ents m e = Some E"
  shows "timeout_unlink e m = ok m"
  using wheelD(5) [OF assms(1,4,2)] assms(3,4) by (simp add: timeout_unlink_def)

lemma unlinked_ents_same [simp]:
  "x \<noteq> e \<Longrightarrow> x \<notin> set xs \<Longrightarrow> x \<notin> set ys \<Longrightarrow> unlinked_ents h xs e E ys x = h x"
  using last_in_set [of xs] hd_in_set [of ys] by (auto simp: unlinked_ents_def)

lemma unlinked_ents_fields:
  assumes "x \<noteq> e"
  shows "map_option te_timestamp (unlinked_ents h xs e E ys x) = map_option te_timestamp (h x)"
    and "map_option te_offset (unlinked_ents h xs e E ys x) = map_option te_offset (h x)"
  using assms by (auto simp: unlinked_ents_def option.map_comp comp_def)

text \<open>A change of one list leaves the other lists and the other entries as they are.\<close>

lemma change_list_segment:
  assumes W: "wheel m A L" and R: "rings m r = Some R"
    and seg: "dseg h (LSlot r i) p ys"
    and e_only: "\<And>r' i'. e \<in> set (L r' i') \<Longrightarrow> r' = r \<and> i' = i"
    and other: "\<And>x. x \<noteq> e \<Longrightarrow> x \<notin> set (L r i) \<Longrightarrow> h x = ents m x"
    and R': "((rings m)(r \<mapsto> R\<lparr>slots := (slots R)(i := p)\<rparr>)) r' = Some R'" and i': "i' < SLOTS"
  shows "dseg h (LSlot r' i') (slots R' i') ((L(r := (L r)(i := ys))) r' i')"
proof (cases "r' = r \<and> i' = i")
  case True
  with seg R' show ?thesis by auto
next
  case False
  then obtain R'' where R'': "rings m r' = Some R''" "slots R' i' = slots R'' i'"
    using R' R by (auto split: if_splits)
  have "x \<noteq> e \<and> x \<notin> set (L r i)" if "x \<in> set (L r' i')" for x
    using e_only [of r' i'] wheel_lists_apart [OF W that, of r i] that False by auto
  then have "dseg h (LSlot r' i') (slots R'' i') (L r' i') = dseg (ents m) (LSlot r' i') (slots R'' i') (L r' i')"
    using other by (intro dseg_cong) auto
  with wheelD(1) [OF W R''(1) i'] R''(2) False show ?thesis by auto
qed

lemma change_list_entry:
  assumes W: "wheel m A L" and q: "q \<noteq> e" "A q = Some (r', ts, off)"
    and sets: "\<And>x. x \<noteq> e \<Longrightarrow> x \<in> set ys \<longleftrightarrow> x \<in> set (L r i)"
    and fields: "\<And>x. x \<noteq> e \<Longrightarrow> map_option (\<lambda>F. (te_timestamp F, te_offset F)) (h x) =
      map_option (\<lambda>F. (te_timestamp F, te_offset F)) (ents m x)"
  shows "q \<in> set ((L(r := (L r)(i := ys))) r' (slot_of ts)) \<and> (\<exists>R. rings m r' = Some R) \<and>
    (\<exists>E. h q = Some E \<and> te_timestamp E = ts \<and> te_offset E = off)"
proof -
  from wheelD(3) [OF W q(2)] obtain F where F: "q \<in> set (L r' (slot_of ts))"
      "\<exists>R. rings m r' = Some R" "ents m q = Some F" "te_timestamp F = ts" "te_offset F = off"
    by auto
  from fields [OF q(1)] F obtain F' where "h q = Some F'" "te_timestamp F' = ts" "te_offset F' = off"
    by auto
  with F(1,2) sets [OF q(1)] show ?thesis by auto
qed

text \<open>
  Both linking and unlinking change one list, and the map at one entry \<open>e\<close>: the list of slot \<open>i\<close> of
  ring \<open>r\<close> becomes \<open>ys\<close>, and entries outside this list keep their contents.
\<close>

lemma wheel_change_list:
  assumes W: "wheel m A L" and R: "rings m r = Some R"
    and seg: "dseg h (LSlot r i) p ys"
    and sets: "\<And>x. x \<noteq> e \<Longrightarrow> x \<in> set ys \<longleftrightarrow> x \<in> set (L r i)"
    and e_only: "\<And>r' i'. e \<in> set (L r' i') \<Longrightarrow> r' = r \<and> i' = i"
    and other: "\<And>x. x \<noteq> e \<Longrightarrow> x \<notin> set (L r i) \<Longrightarrow> h x = ents m x"
    and fields: "\<And>x. x \<noteq> e \<Longrightarrow> map_option (\<lambda>F. (te_timestamp F, te_offset F)) (h x) =
      map_option (\<lambda>F. (te_timestamp F, te_offset F)) (ents m x)"
    and e_new: "case v of
        None \<Rightarrow> e \<notin> set ys \<and> (\<forall>E. h e = Some E \<longrightarrow> te_prev E = LNull \<and> te_next E = Null)
      | Some (r', ts, off) \<Rightarrow> r' = r \<and> slot_of ts = i \<and> e \<in> set ys \<and>
          (\<exists>E. h e = Some E \<and> te_timestamp E = ts \<and> te_offset E = off)"
  shows "wheel (m\<lparr>ents := h, rings := (rings m)(r \<mapsto> R\<lparr>slots := (slots R)(i := p)\<rparr>)\<rparr>)
    (A(e := v)) (L(r := (L r)(i := ys)))" (is "wheel ?m ?A ?L")
proof (rule wheelI)
  fix r' R' i'
  assume "rings ?m r' = Some R'" "i' < SLOTS"
  then show "dseg (ents ?m) (LSlot r' i') (slots R' i') (?L r' i')"
    using change_list_segment [OF W R seg e_only other] by simp
next
  fix q r' ts off
  assume q: "?A q = Some (r', ts, off)"
  show "q \<in> set (?L r' (slot_of ts)) \<and> (\<exists>R. rings ?m r' = Some R) \<and>
      (\<exists>E. ents ?m q = Some E \<and> te_timestamp E = ts \<and> te_offset E = off)"
  proof (cases "q = e")
    case True
    with q e_new show ?thesis by auto
  next
    case False
    with change_list_entry [OF W False _ sets fields] q show ?thesis by auto
  qed
next
  fix q r' i'
  assume "q \<in> set (?L r' i')"
  then have q: "q \<in> set (if r' = r \<and> i' = i then ys else L r' i')"
    by (auto split: if_splits)
  show "\<exists>ts off. ?A q = Some (r', ts, off) \<and> slot_of ts = i'"
  proof (cases "q = e")
    case True
    with q e_only [of r' i'] have "r' = r" "i' = i" "e \<in> set ys"
      by (auto split: if_splits)
    with e_new True show ?thesis by (cases v) auto
  next
    case False
    with q sets [of q] have "q \<in> set (L r' i')" by (auto split: if_splits)
    with False wheelD(4) [OF W] show ?thesis by simp
  qed
next
  fix q F
  assume q: "ents ?m q = Some F" "?A q = None"
  show "te_prev F = LNull \<and> te_next F = Null"
  proof (cases "q = e")
    case False
    then have "q \<notin> set (L r i)" using wheelD(4) [OF W, of q r i] q(2) by auto
    with q False other wheelD(5) [OF W, of q F] show ?thesis by simp
  qed (use q e_new in auto)
qed (use wheelD(2) [OF W] R in \<open>auto split: if_splits\<close>)

lemma unlinked_segment:
  assumes seg: "dseg h l p (xs @ e # ys)" and E: "h e = Some E"
  shows "dseg (unlinked_ents h xs e E ys) l (if xs = [] then te_next E else p) (xs @ ys)"
proof (rule dseg_remove [OF seg E])
  note nb = dseg_removed_neighbours [OF seg]
  show "unlinked_ents h xs e E ys x = h x" if "x \<in> set (butlast xs)" for x
    using distinct_butlast_last [OF nb(4) that] nb(1,7) by (auto simp: unlinked_ents_def)
  show "unlinked_ents h xs e E ys y = h y" if "y \<in> set (tl ys)" for y
    using distinct_tl_hd [OF nb(5) that] nb(2,6) by (auto simp: unlinked_ents_def)
qed (use dseg_removed_neighbours(6-8) [OF seg] in \<open>auto simp: unlinked_ents_def\<close>)

lemma wheel_unlink:
  assumes W: "wheel m A L" and A: "A e = Some (r, ts, off)" and L: "L r (slot_of ts) = xs @ e # ys"
    and E: "ents m e = Some E" and R: "rings m r = Some R"
  shows "wheel (m\<lparr>ents := unlinked_ents (ents m) xs e E ys,
      rings := (if xs = [] then (rings m)(r \<mapsto> R\<lparr>slots := (slots R)(slot_of ts := te_next E)\<rparr>) else rings m)\<rparr>)
    (A(e := None)) (L(r := (L r)(slot_of ts := xs @ ys)))"
proof -
  let ?h = "unlinked_ents (ents m) xs e E ys" and ?i = "slot_of ts"
  let ?p = "if xs = [] then te_next E else slots R ?i"
  have seg: "dseg (ents m) (LSlot r ?i) (slots R ?i) (xs @ e # ys)"
    using wheelD(1) [OF W R, of ?i] L by simp
  have "wheel (m\<lparr>ents := ?h, rings := (rings m)(r \<mapsto> R\<lparr>slots := (slots R)(?i := ?p)\<rparr>)\<rparr>)
      (A(e := None)) (L(r := (L r)(?i := xs @ ys)))"
  proof (rule wheel_change_list [OF W R unlinked_segment [OF seg E]])
    show "r' = r \<and> i' = ?i" if "e \<in> set (L r' i')" for r' i'
      using wheel_lists_apart [OF W that, of r ?i] L by auto
    show "case None of None \<Rightarrow> e \<notin> set (xs @ ys) \<and>
          (\<forall>E'. ?h e = Some E' \<longrightarrow> te_prev E' = LNull \<and> te_next E' = Null)
        | Some (r', ts', off') \<Rightarrow> r' = r \<and> slot_of ts' = ?i \<and> e \<in> set (xs @ ys) \<and>
            (\<exists>E'. ?h e = Some E' \<and> te_timestamp E' = ts' \<and> te_offset E' = off')"
      using dseg_removed_neighbours [OF seg] by (auto simp: unlinked_ents_def)
  qed (use L in \<open>auto simp: unlinked_ents_def option.map_comp comp_def\<close>)
  then show ?thesis
    using R by (cases "xs = []") (simp_all add: map_upd_triv)
qed

lemma timeout_unlink_spec:
  assumes T: "timers m A" and e: "e \<noteq> Null" "ents m e \<noteq> None"
  shows "\<exists>m'. timeout_unlink e m = ok m' \<and> timers m' (A(e := None)) \<and> same_rings m m' \<and>
    (\<forall>p. map_option te_offset (ents m' p) = map_option te_offset (ents m p))"
proof -
  obtain L where W: "wheel m A L" and fin: "finite (dom A)"
    using T by (auto simp: timers_def)
  obtain E where E: "ents m e = Some E"
    using e by auto
  show ?thesis
  proof (cases "A e")
    case None
    then show ?thesis
      using timeout_unlink_unlinked [OF W None e(1) E] T
      by (auto simp: same_rings_def fun_upd_idem)
  next
    case (Some a)
    obtain r ts off where A: "A e = Some (r, ts, off)"
      using Some by (cases a) auto
    obtain R where R: "rings m r = Some R" and mem: "e \<in> set (L r (slot_of ts))"
      using wheelD(3) [OF W A] by auto
    obtain xs ys where L: "L r (slot_of ts) = xs @ e # ys"
      using split_list [OF mem] by auto
    have "dseg (ents m) (LSlot r (slot_of ts)) (slots R (slot_of ts)) (xs @ e # ys)"
      using wheelD(1) [OF W R, of "slot_of ts"] L by simp
    note run = timeout_unlink_linked [OF this R slot_of_less E]
    have "te_offset E' = te_offset E" if "unlinked_ents (ents m) xs e E ys e = Some E'" for E'
      using that by (auto simp: unlinked_ents_def)
    moreover have "unlinked_ents (ents m) xs e E ys e \<noteq> None"
      by (simp add: unlinked_ents_def)
    ultimately have "map_option te_offset (unlinked_ents (ents m) xs e E ys p) = map_option te_offset (ents m p)"
      for p
      by (cases "p = e") (auto simp: unlinked_ents_fields E)
    then show ?thesis
      using run wheel_unlink [OF W A L E R] fin R
      by (auto simp: timers_def same_rings_def)
  qed
qed

section \<open>Adding an entry\<close>

definition pushed_ents ::
  "(ptr \<Rightarrow> TimeoutEntry option) \<Rightarrow> ptr \<Rightarrow> TimeoutEntry \<Rightarrow> ptr \<Rightarrow> ptr \<Rightarrow> TimeoutEntry option" where
  "pushed_ents h e E first x =
     (if x = e then Some E
      else if first \<noteq> Null \<and> x = first then map_option (\<lambda>F. F\<lparr>te_prev := LNext e\<rparr>) (h x)
      else h x)"

lemma pushed_segment:
  assumes seg: "dseg h l p xs" and e: "e \<noteq> Null" "e \<notin> set xs" and E: "te_prev E = l" "te_next E = p"
  shows "dseg (pushed_ents h e E p) l e (e # xs)"
proof (rule dseg_push [OF seg e _ E(2,1)])
  have p: "p = (case xs of [] \<Rightarrow> Null | x # _ \<Rightarrow> x)"
    using dseg_head [OF seg] .
  show "pushed_ents h e E p y = h y" if "y \<in> set (tl xs)" for y
    using distinct_tl_hd [OF dseg_distinct [OF seg] that] e(2) p that
    by (cases xs) (auto simp: pushed_ents_def)
  show "pushed_ents h e E p p = map_option (\<lambda>E. E\<lparr>te_prev := LNext e\<rparr>) (h p)" if "xs \<noteq> []"
    using that e(2) p dseg_mem [OF seg] by (cases xs) (auto simp: pushed_ents_def)
qed (simp add: pushed_ents_def)

lemma wheel_push:
  assumes W: "wheel m A L" and A: "A e = None" and e: "e \<noteq> Null" and R: "rings m r = Some R"
    and i: "i = slot_of (te_timestamp E)" and E: "te_prev E = LSlot r i" "te_next E = slots R i"
  shows "wheel (m\<lparr>ents := pushed_ents (ents m) e E (slots R i),
      rings := (rings m)(r \<mapsto> R\<lparr>slots := (slots R)(i := e)\<rparr>)\<rparr>)
    (A(e \<mapsto> (r, te_timestamp E, te_offset E))) (L(r := (L r)(i := e # L r i)))"
proof -
  have seg: "dseg (ents m) (LSlot r i) (slots R i) (L r i)"
    using wheelD(1) [OF W R] i by simp
  have notin: "e \<notin> set (L r' i')" for r' i'
    using wheelD(4) [OF W, of e r' i'] A by auto
  show ?thesis
  proof (rule wheel_change_list [OF W R pushed_segment [OF seg e notin E]])
    show "pushed_ents (ents m) e E (slots R i) x = ents m x" if "x \<noteq> e" "x \<notin> set (L r i)" for x
      using that dseg_head [OF seg] by (auto simp: pushed_ents_def split: list.splits)
  qed (use notin i in \<open>auto simp: pushed_ents_def option.map_comp comp_def\<close>)
qed

text \<open>The part of \<open>timeouts_add\<close> after the unlinking, on an entry that is in no ring.\<close>

lemma timeouts_add_fresh:
  assumes W: "wheel m A L" and A: "A e = None" and e: "e \<noteq> Null" "ents m e = Some E"
    and R: "rings m r = Some R"
    and E': "E' = E\<lparr>te_timestamp := ts, te_offset := ucast (ucast off :: u32),
      te_next := slots R (slot_of ts), te_prev := LSlot r (slot_of ts)\<rparr>"
  shows "timeouts_add (Ptr r 0) e off ts m =
    ok (m\<lparr>ents := pushed_ents (ents m) e E' (slots R (slot_of ts)),
          rings := (rings m)(r \<mapsto> R\<lparr>slots := (slots R)(slot_of ts := e)\<rparr>)\<rparr>)"
proof -
  let ?i = "slot_of ts"
  let ?p = "slots R ?i"
  have seg: "dseg (ents m) (LSlot r ?i) ?p (L r ?i)"
    using wheelD(1) [OF W R] by simp
  have first: "?p \<noteq> Null \<Longrightarrow> ?p \<noteq> e \<and> (\<exists>F. ents m ?p = Some F)"
    using dseg_head [OF seg] dseg_mem [OF seg] wheelD(4) [OF W, of e r ?i] A
    by (cases "L r ?i") auto
  have idx: "slot_index ts (mask R) = ?i" and links: "te_prev E = LNull" "te_next E = Null"
    using wheelD(2) [OF W R] wheelD(5) [OF W e(2) A] by (simp_all add: slot_of_def)
  have unlink: "timeout_unlink e m = ok m"
    using timeout_unlink_unlinked [OF W A e] .
  have "pushed_ents (ents m) e E' ?p =
      (if ?p = Null then (ents m)(e \<mapsto> E')
       else (ents m)(e \<mapsto> E', ?p \<mapsto> (the (ents m ?p))\<lparr>te_prev := LNext e\<rparr>))"
    using first by (auto simp: fun_eq_iff pushed_ents_def)
  then show ?thesis
    using e R first by (cases "?p = Null") (auto simp: timeouts_add_def unlink links idx Let_def E')
qed

lemma timeouts_add_spec:
  assumes T: "timers m A" and e: "e \<noteq> Null" "ents m e \<noteq> None" and r: "rings m r \<noteq> None"
  shows "\<exists>m'. timeouts_add (Ptr r 0) e off ts m = ok m' \<and>
    timers m' (A(e \<mapsto> (r, ts, ucast (ucast off :: u32)))) \<and> same_rings m m' \<and>
    (\<forall>p. p \<noteq> e \<longrightarrow> map_option te_offset (ents m' p) = map_option te_offset (ents m p))"
proof -
  obtain m1 where m1: "timeout_unlink e m = ok m1" "timers m1 (A(e := None))" "same_rings m m1"
      "\<And>p. map_option te_offset (ents m1 p) = map_option te_offset (ents m p)"
    using timeout_unlink_spec [OF T e] by auto
  then obtain L where W: "wheel m1 (A(e := None)) L" and fin: "finite (dom (A(e := None)))"
    by (auto simp: timers_def)
  obtain R where R: "rings m1 r = Some R"
    using m1(3) r by (auto simp: same_rings_def) (metis not_None_eq option.map_disc_iff)
  obtain E where E: "ents m1 e = Some E"
    using m1(4) [of e] e(2) by auto
  define E' where "E' = E\<lparr>te_timestamp := ts, te_offset := ucast (ucast off :: u32),
      te_next := slots R (slot_of ts), te_prev := LSlot r (slot_of ts)\<rparr>"
  define m2 where "m2 = m1\<lparr>ents := pushed_ents (ents m1) e E' (slots R (slot_of ts)),
      rings := (rings m1)(r \<mapsto> R\<lparr>slots := (slots R)(slot_of ts := e)\<rparr>)\<rparr>"
  have "timeouts_add (Ptr r 0) e off ts m1 = ok m2"
    unfolding m2_def by (rule timeouts_add_fresh [OF W _ e(1) E R E'_def]) simp
  moreover have "timeout_unlink e m1 = ok m1"
    by (rule timeout_unlink_unlinked [OF W _ e(1) E]) simp
  ultimately have run: "timeouts_add (Ptr r 0) e off ts m = ok m2"
    by (simp add: timeouts_add_def m1(1))
  have "\<exists>L. wheel m2 ((A(e := None))(e \<mapsto> (r, te_timestamp E', te_offset E'))) L"
    unfolding m2_def
    by (rule exI, rule wheel_push [OF W _ e(1) R, of _ E']) (simp_all add: E'_def)
  then have "timers m2 (A(e \<mapsto> (r, ts, ucast (ucast off :: u32))))"
    using fin by (simp add: timers_def E'_def)
  moreover have "same_rings m m2"
  proof -
    have "map_option current_index (rings m r) = Some (current_index R)"
      using m1(3) R by (metis (no_types, lifting) option.map(2) same_rings_def)
    with m1(3) show ?thesis by (auto simp: same_rings_def m2_def)
  qed
  moreover have "map_option te_offset (ents m2 p) = map_option te_offset (ents m p)" if "p \<noteq> e" for p
    using that m1(4) [of p, symmetric] by (auto simp: m2_def pushed_ents_def option.map_comp comp_def)
  ultimately show ?thesis
    using run by auto
qed

section \<open>The scan\<close>

text \<open>The scan takes the first entry, in the order of slots from the current index, that is due.\<close>

definition due :: "tmem \<Rightarrow> u64 \<Rightarrow> ptr \<Rightarrow> bool" where
  "due m now p \<longleftrightarrow> (\<exists>E. ents m p = Some E \<and> te_timestamp E \<le> now)"

definition move_index :: "tmem \<Rightarrow> nat \<Rightarrow> Timeouts \<Rightarrow> u64 \<Rightarrow> tmem" where
  "move_index m r R c = m\<lparr>rings := (rings m)(r \<mapsto> R\<lparr>current_index := c\<rparr>)\<rparr>"

lemma move_index_simps [simp]:
  "ents (move_index m r R c) = ents m"
  "tm_err (move_index m r R c) = tm_err m"
  "rings (move_index m r R c) = (rings m)(r \<mapsto> R\<lparr>current_index := c\<rparr>)"
  "move_index (move_index m r R c) r (R\<lparr>current_index := c\<rparr>) c' = move_index m r R c'"
  "due (move_index m r R c) now p = due m now p"
  by (simp_all add: move_index_def due_def)

lemma move_index_same: "rings m r = Some R \<Longrightarrow> move_index m r R (current_index R) = m"
  by (simp add: move_index_def map_upd_triv)

lemma wheel_move_index:
  assumes W: "wheel m A L" and R: "rings m r = Some R"
  shows "wheel (move_index m r R c) A L"
proof (rule wheelI)
  fix r' R' i
  assume "rings (move_index m r R c) r' = Some R'" "i < SLOTS"
  then show "dseg (ents (move_index m r R c)) (LSlot r' i) (slots R' i) (L r' i)"
    using wheelD(1) [OF W] R by (auto split: if_splits)
next
  fix r' R'
  assume "rings (move_index m r R c) r' = Some R'"
  then show "mask R' = MASK"
    using wheelD(2) [OF W] R by (auto split: if_splits)
next
  fix p r' ts off
  assume "A p = Some (r', ts, off)"
  then show "p \<in> set (L r' (slot_of ts)) \<and> (\<exists>R'. rings (move_index m r R c) r' = Some R') \<and>
      (\<exists>E. ents (move_index m r R c) p = Some E \<and> te_timestamp E = ts \<and> te_offset E = off)"
    using wheelD(3) [OF W] by simp
qed (use wheelD(4,5) [OF W] in simp_all)

lemma scan_slot_wheel:
  assumes W: "wheel m A L" and R: "rings m r = Some R" and i: "i < SLOTS"
  obtains (none) "scan_slot now m (slots R i) = ok Null" "\<And>q. q \<in> set (L r i) \<Longrightarrow> \<not> due m now q"
  | (found) p where "scan_slot now m (slots R i) = ok p" "p \<noteq> Null" "p \<in> set (L r i)" "due m now p"
proof -
  have seg: "dseg (ents m) (LSlot r i) (slots R i) (L r i)"
    using wheelD(1) [OF W R i] .
  have due: "due m now q \<longleftrightarrow> \<not> te_timestamp (the (ents m q)) > now" if "q \<in> set (L r i)" for q
    using dseg_mem [OF seg that] by (auto simp: due_def)
  show thesis
  proof (cases "find (\<lambda>x. \<not> te_timestamp (the (ents m x)) > now) (L r i)")
    case None
    show thesis
    proof (rule none)
      show "scan_slot now m (slots R i) = ok Null"
        by (simp add: scan_slot_dseg [OF seg] None)
      show "\<not> due m now q" if "q \<in> set (L r i)" for q
        using None due [OF that] that by (simp add: find_None_iff)
    qed
  next
    case (Some p)
    then have "p \<in> set (L r i)" "\<not> te_timestamp (the (ents m p)) > now"
      by (auto simp: find_Some_iff)
    then show thesis
      using scan_slot_dseg [OF seg, of now] due dseg_mem [OF seg] Some by (intro found [of p]) auto
  qed
qed

text \<open>What a scan from the index of the ring to the tick \<open>c\<close> has found.\<close>

definition scanned :: "tmem \<Rightarrow> (nat \<Rightarrow> nat \<Rightarrow> ptr list) \<Rightarrow> nat \<Rightarrow> u64 \<Rightarrow> u64 \<Rightarrow> ptr \<Rightarrow> u64 \<Rightarrow> bool" where
  "scanned m L r now from_tick p c \<longleftrightarrow> from_tick \<le> c \<and>
     (\<forall>c'. from_tick \<le> c' \<longrightarrow> c' < c \<longrightarrow> (\<forall>q \<in> set (L r (slot_of c')). \<not> due m now q)) \<and>
     (if p = Null then c = max from_tick (now + 1) else c \<le> now \<and> p \<in> set (L r (slot_of c)) \<and> due m now p)"

lemma scanned_step:
  assumes S: "scanned m L r now (t + 1) p c" and t: "t \<le> now" "now \<noteq> - 1"
    and none: "\<And>q. q \<in> set (L r (slot_of t)) \<Longrightarrow> \<not> due m now q"
  shows "scanned m L r now t p c"
proof -
  have "t \<noteq> - 1" using t by (metis word_order.extremum_uniqueI)
  then have step: "unat (t + 1) = unat t + 1" by (rule unat_inc)
  have next_now: "unat (now + 1) = unat now + 1" using t(2) by (rule unat_inc)
  have "\<not> due m now q" if "t \<le> c'" "c' < c" "q \<in> set (L r (slot_of c'))" for c' q
  proof (cases "c' = t")
    case False
    with that(1) have "unat t < unat c'"
      by (metis order_le_imp_less_or_eq word_less_nat_alt)
    then have "t + 1 \<le> c'" using step by (simp add: word_le_nat_alt)
    with S that(2,3) show ?thesis by (simp add: scanned_def)
  qed (use that(3) none in simp)
  moreover have "max (t + 1) (now + 1) = max t (now + 1)"
    using t(1) step next_now by (simp add: max_def word_le_nat_alt)
  moreover have "t \<le> c"
    using S step by (simp add: scanned_def word_le_nat_alt)
  ultimately show ?thesis using S by (simp add: scanned_def)
qed

lemma scan_ring_scanned:
  assumes "wheel m A L" "rings m r = Some R" "now \<noteq> - 1"
  shows "\<exists>p c. scan_ring (Ptr r 0) now m = ok (p, move_index m r R c) \<and> scanned m L r now (current_index R) p c"
  using assms
proof (induction "unat now + 1 - unat (current_index R)" arbitrary: m R rule: less_induct)
  case less
  note W = less.prems(1) and R = less.prems(2)
  let ?ci = "current_index R"
  show ?case
  proof (cases "?ci \<le> now")
    case False
    then have "now + 1 \<le> ?ci"
      using unat_inc [OF less.prems(3)] by (simp add: word_le_nat_alt)
    with False R show ?thesis
      by (intro exI [of _ Null] exI [of _ ?ci])
        (auto simp: scan_ring.simps [of _ now m] move_index_same not_less scanned_def max_absorb1)
  next
    case True
    have idx: "slot_index ?ci (mask R) = slot_of ?ci"
      using wheelD(2) [OF W R] by (simp add: slot_of_def)
    show ?thesis
    proof (cases rule: scan_slot_wheel [OF W R slot_of_less [of ?ci], of now, case_names none found])
      case (found p)
      then show ?thesis
        using R True
        by (intro exI [of _ p] exI [of _ ?ci])
          (auto simp: scan_ring.simps [of _ now m] idx move_index_same scanned_def)
    next
      case none
      let ?m = "move_index m r R (?ci + 1)" and ?R = "R\<lparr>current_index := ?ci + 1\<rparr>"
      have run: "scan_ring (Ptr r 0) now m = scan_ring (Ptr r 0) now ?m"
        using R True none(1) by (simp add: scan_ring.simps [of _ now m] idx move_index_def)
      have "?ci \<noteq> - 1"
        using True less.prems(3) by (metis word_order.extremum_uniqueI)
      then have smaller: "unat now + 1 - unat (current_index ?R) < unat now + 1 - unat ?ci"
        using True unat_inc [of ?ci] by (simp add: word_le_nat_alt)
      have "rings ?m r = Some ?R" by simp
      from less.hyps [OF smaller wheel_move_index [OF W R] this less.prems(3)]
      obtain p c where IH: "scan_ring (Ptr r 0) now ?m = ok (p, move_index ?m r ?R c)"
          "scanned ?m L r now (?ci + 1) p c" by auto
      have "scanned m L r now (?ci + 1) p c" using IH(2) by (auto simp: scanned_def split: if_splits)
      from scanned_step [OF this True less.prems(3) none(2)] show ?thesis
        using run IH(1) by (intro exI [of _ p] exI [of _ c]) simp
    qed
  qed
qed

lemmas scan_ring_correct = scan_ring_scanned [unfolded scanned_def]

section \<open>Taking out an expired entry\<close>

text \<open>
  \<open>timely m A\<close>: no linked entry is behind the index of its ring. An entry that is behind would be
  met only after a whole revolution. Every operation but an insertion into the past keeps this.
\<close>

definition timely :: "tmem \<Rightarrow> timer_map \<Rightarrow> bool" where
  "timely m A \<longleftrightarrow>
     (\<forall>p r ts off R. A p = Some (r, ts, off) \<longrightarrow> rings m r = Some R \<longrightarrow> current_index R \<le> ts)"

definition expired :: "timer_map \<Rightarrow> nat \<Rightarrow> u64 \<Rightarrow> ptr set" where
  "expired A r now = {p. \<exists>ts off. A p = Some (r, ts, off) \<and> ts \<le> now}"

lemma timelyD: "timely m A \<Longrightarrow> A p = Some (r, ts, off) \<Longrightarrow> rings m r = Some R \<Longrightarrow> current_index R \<le> ts"
  by (auto simp: timely_def)

lemma wheel_not_due:
  assumes "wheel m A L" "A q = Some (r, ts, off)" "\<forall>q \<in> set (L r (slot_of ts)). \<not> due m now q"
  shows "now < ts"
  using wheelD(3) [OF assms(1,2)] assms(3) by (auto simp: due_def)

lemma timeouts_remove_none:
  assumes W: "wheel m A L" and R: "rings m r = Some R"
    and run: "scan_ring (Ptr r 0) now m = ok (Null, move_index m r R c)"
    and c: "c = max (current_index R) (now + 1)" and now: "now \<noteq> - 1"
    and skipped: "\<forall>c'. current_index R \<le> c' \<longrightarrow> c' < c \<longrightarrow> (\<forall>q \<in> set (L r (slot_of c')). \<not> due m now q)"
  shows "timeouts_remove (Ptr r 0) now m = ok (Null, move_index m r R c)"
    and "A q = Some (r, ts, off) \<Longrightarrow> current_index R \<le> ts \<Longrightarrow> now < ts"
proof -
  show "timeouts_remove (Ptr r 0) now m = ok (Null, move_index m r R c)"
    by (simp add: timeouts_remove_def run)
  assume q: "A q = Some (r, ts, off)" "current_index R \<le> ts"
  show "now < ts"
  proof (rule ccontr)
    assume "\<not> now < ts"
    then have "ts < now + 1"
      using unat_inc [OF now] by (simp add: word_less_nat_alt word_le_nat_alt not_less)
    then have "ts < c"
      by (simp add: c less_max_iff_disj)
    with skipped q have "now < ts"
      by (intro wheel_not_due [OF W q(1)]) simp
    with \<open>\<not> now < ts\<close> show False by simp
  qed
qed

theorem timeouts_remove_spec:
  assumes T: "timers m A" and R: "rings m r = Some R" and now: "now \<noteq> - 1"
  obtains (none) "timeouts_remove (Ptr r 0) now m = ok (Null, move_index m r R (max (current_index R) (now + 1)))"
      and "timers (move_index m r R (max (current_index R) (now + 1))) A"
      and "\<And>q ts off. A q = Some (r, ts, off) \<Longrightarrow> current_index R \<le> ts \<Longrightarrow> now < ts"
  | (found) e ts off c m' where "timeouts_remove (Ptr r 0) now m = ok (ptr_minus e off, m')"
      and "A e = Some (r, ts, off)" and "ts \<le> now" and "e \<noteq> Null"
      and "timers m' (A(e := None))" and "same_rings (move_index m r R c) m'"
      and "\<forall>p. map_option te_offset (ents m' p) = map_option te_offset (ents m p)"
      and "slot_of ts = slot_of c" and "current_index R \<le> c" and "c \<le> now"
      and "\<And>q ts off. A q = Some (r, ts, off) \<Longrightarrow> current_index R \<le> ts \<Longrightarrow> c \<le> ts"
proof -
  obtain L where W: "wheel m A L" and fin: "finite (dom A)"
    using T by (auto simp: timers_def)
  have moved: "timers (move_index m r R c) A" for c
    using wheel_move_index [OF W R] fin by (auto simp: timers_def)
  obtain p c where scan: "scan_ring (Ptr r 0) now m = ok (p, move_index m r R c)" "current_index R \<le> c"
      and skipped: "\<forall>c'. current_index R \<le> c' \<longrightarrow> c' < c \<longrightarrow> (\<forall>q \<in> set (L r (slot_of c')). \<not> due m now q)"
      and res: "if p = Null then c = max (current_index R) (now + 1)
                else c \<le> now \<and> p \<in> set (L r (slot_of c)) \<and> due m now p"
    using scan_ring_correct [OF W R now] by (elim exE conjE)
  show thesis
  proof (cases "p = Null")
    case True
    with scan res have "scan_ring (Ptr r 0) now m = ok (Null, move_index m r R c)"
      and c: "c = max (current_index R) (now + 1)" by simp_all
    from timeouts_remove_none [OF W R this now skipped] c moved show thesis
      by (intro none) auto
  next
    case False
    with res have p: "c \<le> now" "p \<in> set (L r (slot_of c))" "due m now p" by simp_all
    obtain ts off where A: "A p = Some (r, ts, off)" "slot_of ts = slot_of c"
      using wheelD(4) [OF W p(2)] by auto
    obtain E where E: "ents m p = Some E" "te_timestamp E = ts" "te_offset E = off"
      using wheelD(3) [OF W A(1)] by auto
    obtain m' where m': "timeout_unlink p (move_index m r R c) = ok m'" "timers m' (A(p := None))"
        "same_rings (move_index m r R c) m'"
        "\<forall>q. map_option te_offset (ents m' q) = map_option te_offset (ents m q)"
      using timeout_unlink_spec [OF moved [of c] False] E by auto
    have "map_option te_offset (ents m' p) = Some off"
      using m'(4) E by simp
    then obtain E' where "ents m' p = Some E'" "te_offset E' = off"
      by auto
    then have run: "timeouts_remove (Ptr r 0) now m = ok (ptr_minus p off, m')"
      using scan False m'(1) by (simp add: timeouts_remove_def)
    have "ts \<le> now"
      using p(3) E by (simp add: due_def)
    have "c \<le> ts'" if "A q = Some (r, ts', off')" "current_index R \<le> ts'" for q ts' off'
    proof (rule ccontr)
      assume "\<not> c \<le> ts'"
      then have "now < ts'"
        using wheel_not_due [OF W that(1)] skipped that(2) by simp
      with \<open>\<not> c \<le> ts'\<close> p(1) show False by simp
    qed
    with run A \<open>ts \<le> now\<close> False m' scan(2) p(1) show thesis
      by (intro found [of p off m' ts c]) auto
  qed
qed

section \<open>A new ring\<close>

lemma wheel_new_ring:
  assumes "wheel m A L" "rings m r = None"
  shows "wheel (m\<lparr>rings := (rings m)(r \<mapsto> \<lparr>current_index = ts, mask = MASK, slots = (\<lambda>_. Null)\<rparr>)\<rparr>) A L"
proof (rule wheelI)
  have empty: "L r i = []" for i
  proof (rule ccontr)
    assume "L r i \<noteq> []"
    then obtain p where "p \<in> set (L r i)" by (cases "L r i") auto
    with wheelD(4) [OF assms(1)] wheelD(3) [OF assms(1)] assms(2) show False by fastforce
  qed
  fix r' R i
  assume "rings (m\<lparr>rings := (rings m)(r \<mapsto> \<lparr>current_index = ts, mask = MASK, slots = (\<lambda>_. Null)\<rparr>)\<rparr>) r' = Some R"
    and "i < SLOTS"
  then show "dseg (ents (m\<lparr>rings := (rings m)(r \<mapsto> \<lparr>current_index = ts, mask = MASK, slots = (\<lambda>_. Null)\<rparr>)\<rparr>))
      (LSlot r' i) (slots R i) (L r' i)"
    using wheelD(1) [OF assms(1)] empty by (auto split: if_splits)
qed (use wheelD(2-5) [OF assms(1)] assms(2) in \<open>fastforce split: if_splits\<close>)+

lemma timeouts_create_spec:
  assumes T: "timers m A" and used: "\<And>r. rings m r \<noteq> None \<Longrightarrow> r < next_block h"
  shows "safe (\<lambda>(p, h', m'). \<exists>r. p = Ptr r 0 \<and> allocated h ob p h' \<and> rings m r = None \<and> timers m' A \<and>
      m' = m\<lparr>rings := (rings m)(r \<mapsto>
        \<lparr>current_index = timestamp_from_tv now usecs, mask = MASK, slots = (\<lambda>_. Null)\<rparr>)\<rparr>)
    (timeouts_create al ob now usecs h m)"
proof -
  have mask: "of_nat ((8 * SLOTS) div 8 - 1) = MASK"
    by (simp add: SLOTS_eq MASK_def)
  have T': "timers (m\<lparr>rings := (rings m)(r \<mapsto> \<lparr>current_index = ts, mask = MASK, slots = (\<lambda>_. Null)\<rparr>)\<rparr>) A"
    if "rings m r = None" for r ts
    using T wheel_new_ring [OF _ that] by (auto simp: timers_def)
  have "rings m r = None" if "next_block h \<le> r" for r
    using used [of r] that by (meson leD)
  then show ?thesis
    unfolding timeouts_create_def Let_def mask
    using T' by (intro safe_obind [THEN iffD2] safe_mono [OF um.calloc_spec])
      (auto simp: allocated_def)
qed

end
