(* ===== verification/Timer_Queue.thy ===== *)
theory Timer_Queue
  imports Timer_Wheel
begin

text \<open>
  What the dispatcher uses of the timer wheel, as interfaces. \<open>timer_queue\<close> is the consumer's side:
  a store stands for a map from armed entries to their deadline and their container, and taking a
  timeout either returns \<open>NULL\<close> and then nothing has expired, or returns the container of an expired
  entry and removes that entry. \<open>timer_service\<close> adds arming and cancelling. Everything the loops
  \<open>for (;;) { x = timeouts_remove(...); if (x == NULL) break; ... }\<close> do follows from these laws:
  \<open>drains\<close> is such a loop with the containers it meets. Both are interpreted on the operations of
  \<^verbatim>\<open>event-timeout.c\<close>, for the ring in any block.
\<close>

type_synonym deadlines = "ptr \<Rightarrow> (u64 \<times> ptr) option"

definition overdue :: "deadlines \<Rightarrow> u64 \<Rightarrow> ptr set" where
  "overdue D now = {e. \<exists>ts p. D e = Some (ts, p) \<and> ts \<le> now}"

definition pending :: "deadlines \<Rightarrow> u64 \<Rightarrow> deadlines" where
  "pending D now = (\<lambda>e. case D e of Some (ts, p) \<Rightarrow> if ts \<le> now then None else D e | None \<Rightarrow> None)"

lemma pending_none: "overdue D now = {} \<Longrightarrow> pending D now = D"
  by (fastforce simp: overdue_def pending_def fun_eq_iff split: option.split)

lemma pending_remove: "e \<in> overdue D now \<Longrightarrow> pending (D(e := None)) now = pending D now"
  by (auto simp: overdue_def pending_def fun_eq_iff split: option.split)

lemma overdue_remove: "overdue (D(e := None)) now = overdue D now - {e}"
  by (auto simp: overdue_def)

inductive drains :: "(u64 \<Rightarrow> 'm \<Rightarrow> (ptr \<times> 'm) outcome) \<Rightarrow> u64 \<Rightarrow> 'm \<Rightarrow> ptr list \<Rightarrow> 'm \<Rightarrow> bool"
  for pop :: "u64 \<Rightarrow> 'm \<Rightarrow> (ptr \<times> 'm) outcome" and now :: u64 where
  stop: "pop now m = ok (Null, m') \<Longrightarrow> drains pop now m [] m'"
| more: "pop now m = ok (p, m1) \<Longrightarrow> p \<noteq> Null \<Longrightarrow> drains pop now m1 ps m' \<Longrightarrow>
    drains pop now m (p # ps) m'"

inductive_cases drains_NilE: "drains pop now m [] m'"
inductive_cases drains_ConsE: "drains pop now m (p # ps) m'"

lemma drains_deterministic:
  "drains pop now m ps m1 \<Longrightarrow> drains pop now m qs m2 \<Longrightarrow> ps = qs \<and> m1 = m2"
proof (induction arbitrary: qs m2 rule: drains.induct)
  case (stop m m')
  from stop(2) show ?case
    by cases (use stop(1) in simp_all)
next
  case (more m p m1 ps m')
  from more(5) show ?case
  proof cases
    case (more p' m1' ps')
    have "p' = p \<and> m1' = m1"
      using more(2) \<open>pop now m = ok (p, m1)\<close> by simp
    with more show ?thesis
      using \<open>\<And>qs m2. drains pop now m1 qs m2 \<Longrightarrow> ps = qs \<and> m' = m2\<close> by auto
  qed (use more(1,2) in simp)
qed

locale timer_queue =
  fixes rep :: "'m \<Rightarrow> deadlines \<Rightarrow> bool"
    and pop :: "u64 \<Rightarrow> 'm \<Rightarrow> (ptr \<times> 'm) outcome"
  assumes rep_finite: "rep m D \<Longrightarrow> finite (dom D)"
    and rep_owner: "rep m D \<Longrightarrow> D e = Some (ts, p) \<Longrightarrow> p \<noteq> Null"
    and pop_none: "rep m D \<Longrightarrow> now \<noteq> - 1 \<Longrightarrow> overdue D now = {} \<Longrightarrow>
      \<exists>m'. pop now m = ok (Null, m') \<and> rep m' D"
    and pop_some: "rep m D \<Longrightarrow> now \<noteq> - 1 \<Longrightarrow> overdue D now \<noteq> {} \<Longrightarrow>
      \<exists>e ts p m'. D e = Some (ts, p) \<and> ts \<le> now \<and> pop now m = ok (p, m') \<and> rep m' (D(e := None))"
begin

lemma overdue_finite: "rep m D \<Longrightarrow> finite (overdue D now)"
  by (rule finite_subset [OF _ rep_finite]) (auto simp: overdue_def)

text \<open>The loop stops, has taken every overdue entry once and leaves the others armed.\<close>

lemma drain_all:
  assumes "rep m D" "now \<noteq> - 1"
  shows "\<exists>es m'. drains pop now m (map (snd \<circ> the \<circ> D) es) m' \<and> rep m' (pending D now) \<and>
    distinct es \<and> set es = overdue D now"
  using assms
proof (induction "card (overdue D now)" arbitrary: m D)
  case 0
  then have "overdue D now = {}"
    using overdue_finite by simp
  with pop_none [OF 0(2,3) this] pending_none [OF this] show ?case
    by (intro exI [of _ "[]"]) (auto intro: drains.stop)
next
  case (Suc n)
  then have "overdue D now \<noteq> {}" by auto
  with pop_some [OF Suc(3,4)] obtain e ts p m1 where
      e: "D e = Some (ts, p)" "ts \<le> now" and run: "pop now m = ok (p, m1)" "rep m1 (D(e := None))"
    by auto
  then have mem: "e \<in> overdue D now" by (auto simp: overdue_def)
  have "n = card (overdue (D(e := None)) now)"
    using Suc(2) mem overdue_finite [OF Suc(3)] by (simp add: overdue_remove)
  from Suc(1) [OF this run(2) Suc(4)] obtain es m' where
      es: "drains pop now m1 (map (snd \<circ> the \<circ> D(e := None)) es) m'"
        "rep m' (pending (D(e := None)) now)" "distinct es" "set es = overdue (D(e := None)) now"
    by auto
  have "map (snd \<circ> the \<circ> D(e := None)) es = map (snd \<circ> the \<circ> D) es"
    using es(4) by (auto simp: overdue_remove)
  with es(1) run(1) rep_owner [OF Suc(3) e(1)] e(1)
  have "drains pop now m (map (snd \<circ> the \<circ> D) (e # es)) m'"
    by (auto intro: drains.more)
  moreover have "distinct (e # es)" "set (e # es) = overdue D now"
    using es(3,4) mem by (auto simp: overdue_remove)
  ultimately show ?case
    using es(2) pending_remove [OF mem] by (intro exI [of _ "e # es"] exI [of _ m']) simp
qed

end

locale timer_service = timer_queue rep pop
  for rep :: "'m \<Rightarrow> deadlines \<Rightarrow> bool" and pop :: "u64 \<Rightarrow> 'm \<Rightarrow> (ptr \<times> 'm) outcome" +
  fixes entry :: "'m \<Rightarrow> ptr \<Rightarrow> bool"
    and arm :: "ptr \<Rightarrow> u64 \<Rightarrow> u64 \<Rightarrow> 'm \<Rightarrow> 'm outcome"
    and cancel :: "ptr \<Rightarrow> 'm \<Rightarrow> 'm outcome"
    and passed :: "'m \<Rightarrow> u64"
  assumes arm_spec: "rep m D \<Longrightarrow> entry m e \<Longrightarrow> passed m \<le> ts \<Longrightarrow> off < 2 ^ 32 \<Longrightarrow>
      \<exists>m'. arm e off ts m = ok m' \<and> rep m' (D(e \<mapsto> (ts, ptr_minus e off))) \<and> passed m' = passed m"
    and cancel_spec: "rep m D \<Longrightarrow> entry m e \<Longrightarrow>
      \<exists>m'. cancel e m = ok m' \<and> rep m' (D(e := None)) \<and> passed m' = passed m"
begin

text \<open>An armed entry is the one the queue hands back, as soon as it is due and alone in being so.\<close>

lemma arm_then_pop:
  assumes D: "rep m D" "entry m e" "passed m \<le> ts" "off < 2 ^ 32"
    and due: "ts \<le> now" "now \<noteq> - 1" "overdue (D(e := None)) now = {}"
  shows "\<exists>m1 m2. arm e off ts m = ok m1 \<and> pop now m1 = ok (ptr_minus e off, m2) \<and> rep m2 (D(e := None))"
proof -
  obtain m1 where m1: "arm e off ts m = ok m1" "rep m1 (D(e \<mapsto> (ts, ptr_minus e off)))"
    using arm_spec [OF D] by auto
  have only: "e' = e" if "(D(e \<mapsto> (ts, ptr_minus e off))) e' = Some (ts', p)" "ts' \<le> now" for e' ts' p
    using that due(3) by (auto simp: overdue_def split: if_splits)
  have "overdue (D(e \<mapsto> (ts, ptr_minus e off))) now \<noteq> {}"
    using due(1) by (auto simp: overdue_def intro!: exI [of _ e])
  from pop_some [OF m1(2) due(2) this] only m1(1) show ?thesis
    by (metis fun_upd_same fun_upd_upd option.inject prod.inject)
qed

end

section \<open>The ring in block r\<close>

definition ring_rep :: "nat \<Rightarrow> tmem \<Rightarrow> deadlines \<Rightarrow> bool" where
  "ring_rep r m D \<longleftrightarrow>
     (\<exists>A. timers m A \<and> timely m A \<and> rings m r \<noteq> None \<and>
        D = (\<lambda>e. case A e of Some (r', ts, off) \<Rightarrow> if r' = r then Some (ts, ptr_minus e off) else None
                 | None \<Rightarrow> None))"

definition passed_index :: "nat \<Rightarrow> tmem \<Rightarrow> u64" where
  "passed_index r m = (case rings m r of Some R \<Rightarrow> current_index R | None \<Rightarrow> 0)"

definition is_entry :: "tmem \<Rightarrow> ptr \<Rightarrow> bool" where
  "is_entry m e \<longleftrightarrow> e \<noteq> Null \<and> ents m e \<noteq> None"

lemma same_rings_Some:
  "same_rings m m' \<Longrightarrow> rings m r = Some R \<Longrightarrow> \<exists>R'. rings m' r = Some R' \<and> current_index R' = current_index R"
  unfolding same_rings_def by (metis map_option_eq_Some)

lemma same_rings_sym: "same_rings m m' \<Longrightarrow> same_rings m' m"
  by (simp add: same_rings_def)

lemma same_rings_trans: "same_rings m m1 \<Longrightarrow> same_rings m1 m2 \<Longrightarrow> same_rings m m2"
  by (simp add: same_rings_def)

lemma same_rings_refl [simp]: "same_rings m m" "same_rings m (m\<lparr>ents := f\<rparr>)"
  by (simp_all add: same_rings_def)

lemma same_rings_timely:
  assumes "same_rings m m'"
  shows "timely m' A = timely m A"
proof -
  have "timely m2 A" if S: "same_rings m1 m2" and T: "timely m1 A" for m1 m2
    unfolding timely_def
  proof (intro allI impI)
    fix p r ts off R
    assume A: "A p = Some (r, ts, off)" and R: "rings m2 r = Some R"
    obtain R1 where "rings m1 r = Some R1" "current_index R1 = current_index R"
      using same_rings_Some [OF same_rings_sym [OF S] R] by auto
    with timelyD [OF T A] show "current_index R \<le> ts" by simp
  qed
  with assms same_rings_sym [OF assms] show ?thesis by blast
qed

lemma same_rings_passed:
  assumes "same_rings m m'"
  shows "passed_index r m' = passed_index r m"
proof -
  have "map_option current_index (rings m' r) = map_option current_index (rings m r)"
    using assms by (simp add: same_rings_def)
  then show ?thesis
    by (cases "rings m r"; cases "rings m' r") (simp_all add: passed_index_def)
qed

lemma timely_remove: "timely m A \<Longrightarrow> timely m (A(e := None))"
  by (auto simp: timely_def)

lemma timers_nonnull: "timers m A \<Longrightarrow> A e = Some x \<Longrightarrow> e \<noteq> Null"
  unfolding timers_def by (cases x) (metis dseg_mem slot_of_less wheelD(1,3))

text \<open>Taking a timeout from a wheel where no entry is behind the index of its ring.\<close>

lemma move_index_rings: "rings m r = Some R \<Longrightarrow> rings (move_index m r R c) q = None \<longleftrightarrow> rings m q = None"
  by auto

lemma same_rings_None: "same_rings m m' \<Longrightarrow> rings m' r = None \<longleftrightarrow> rings m r = None"
  by (metis not_None_eq same_rings_Some same_rings_sym)

lemma timely_move_index:
  assumes "timely m A" "rings m r = Some R"
    and "\<And>e ts off. A e = Some (r, ts, off) \<Longrightarrow> c \<le> ts"
  shows "timely (move_index m r R c) A"
  using assms by (auto simp: timely_def split: if_splits)

lemma timeouts_remove_timely:
  assumes T: "timers m A" "timely m A" and R: "rings m r = Some R" and now: "now \<noteq> - 1"
  obtains (none) m' where "timeouts_remove (Ptr r 0) now m = ok (Null, m')"
      and "timers m' A" "timely m' A" "\<And>q. rings m' q = None \<longleftrightarrow> rings m q = None"
      and "\<And>e ts off. A e = Some (r, ts, off) \<Longrightarrow> now < ts"
  | (some) e ts off m' where "timeouts_remove (Ptr r 0) now m = ok (ptr_minus e off, m')"
      and "A e = Some (r, ts, off)" "ts \<le> now"
      and "timers m' (A(e := None))" "timely m' (A(e := None))" "\<And>q. rings m' q = None \<longleftrightarrow> rings m q = None"
proof (cases rule: timeouts_remove_spec [OF T(1) R now])
  case 1
  have later: "now < ts" if "A e = Some (r, ts, off)" for e ts off
    using 1(3) [OF that timelyD [OF T(2) that R]] .
  have "max (current_index R) (now + 1) \<le> ts" if e: "A e = Some (r, ts, off)" for e ts off
    using timelyD [OF T(2) e R] later [OF e] unat_inc [OF now] by (simp add: word_less_nat_alt word_le_nat_alt)
  then have "timely (move_index m r R (max (current_index R) (now + 1))) A"
    by (rule timely_move_index [OF T(2) R])
  with 1 later move_index_rings [OF R] show thesis
    by (intro none [of "move_index m r R (max (current_index R) (now + 1))"]) auto
next
  case (2 e ts off c m')
  have "c \<le> ts'" if "A q = Some (r, ts', off')" for q ts' off'
    using 2(11) [OF that timelyD [OF T(2) that R]] .
  then have "timely (move_index m r R c) A"
    using T R by (intro timely_move_index) auto
  then have "timely m' (A(e := None))"
    using same_rings_timely [OF 2(6)] by (simp add: timely_remove)
  moreover have "rings m' q = None \<longleftrightarrow> rings m q = None" for q
    using same_rings_None [OF 2(6)] move_index_rings [OF R] by simp
  ultimately show thesis
    using 2 by (intro some [of e off m' ts]) auto
qed

definition ring_deadlines :: "nat \<Rightarrow> timer_map \<Rightarrow> deadlines" where
  "ring_deadlines r A = (\<lambda>e. case A e of
     Some (r', ts, off) \<Rightarrow> if r' = r then Some (ts, ptr_minus e off) else None | None \<Rightarrow> None)"

lemma ring_deadlines_Some:
  "ring_deadlines r A e = Some (ts, p) \<longleftrightarrow> (\<exists>off. A e = Some (r, ts, off) \<and> p = ptr_minus e off)"
  by (auto simp: ring_deadlines_def split: option.split)

lemma ring_deadlines_upd [simp]:
  "ring_deadlines r (A(e := None)) = (ring_deadlines r A)(e := None)"
  "ring_deadlines r (A(e \<mapsto> (r, ts, off))) = (ring_deadlines r A)(e \<mapsto> (ts, ptr_minus e off))"
  by (simp_all add: ring_deadlines_def fun_eq_iff)

lemma ring_rep_iff: "ring_rep r m D \<longleftrightarrow>
    (\<exists>A. timers m A \<and> timely m A \<and> (\<exists>R. rings m r = Some R) \<and> D = ring_deadlines r A)"
  by (simp add: ring_rep_def ring_deadlines_def)

lemma overdue_ring: "e \<in> overdue (ring_deadlines r A) now \<longleftrightarrow> (\<exists>ts off. A e = Some (r, ts, off) \<and> ts \<le> now)"
  by (auto simp: overdue_def ring_deadlines_Some)

text \<open>The laws.\<close>

lemma remove_laws:
  assumes "ring_rep r m D" "now \<noteq> - 1"
  shows "overdue D now = {} \<Longrightarrow> \<exists>m'. timeouts_remove (Ptr r 0) now m = ok (Null, m') \<and> ring_rep r m' D"
    and "overdue D now \<noteq> {} \<Longrightarrow> \<exists>e ts p m'. D e = Some (ts, p) \<and> ts \<le> now \<and>
      timeouts_remove (Ptr r 0) now m = ok (p, m') \<and> ring_rep r m' (D(e := None))"
proof -
  obtain A R where A: "timers m A" "timely m A" "rings m r = Some R" "D = ring_deadlines r A"
    using assms(1) by (auto simp: ring_rep_iff)
  have "if overdue D now = {} then \<exists>m'. timeouts_remove (Ptr r 0) now m = ok (Null, m') \<and> ring_rep r m' D
    else \<exists>e ts p m'. D e = Some (ts, p) \<and> ts \<le> now \<and>
      timeouts_remove (Ptr r 0) now m = ok (p, m') \<and> ring_rep r m' (D(e := None))"
  proof (cases rule: timeouts_remove_timely [OF A(1-3) assms(2)])
    case (1 m')
    have "overdue D now = {}"
      using 1(5) by (fastforce simp: A(4) overdue_ring)
    moreover have "ring_rep r m' D"
      unfolding ring_rep_iff
    proof (intro exI conjI)
      show "rings m' r = Some (the (rings m' r))"
        using 1(4) [of r] A(3) by auto
    qed (fact 1(2,3) A(4))+
    ultimately show ?thesis using 1(1) by auto
  next
    case (2 e ts off m')
    have "e \<in> overdue D now"
      using 2(2,3) by (auto simp: A(4) overdue_ring)
    moreover have "ring_rep r m' (D(e := None))"
      unfolding ring_rep_iff
    proof (intro exI conjI)
      show "rings m' r = Some (the (rings m' r))"
        using 2(6) [of r] A(3) by auto
      show "D(e := None) = ring_deadlines r (A(e := None))"
        by (simp add: A(4))
    qed (fact 2(4,5))+
    moreover have "D e = Some (ts, ptr_minus e off)"
      using 2(2) by (simp add: A(4) ring_deadlines_Some)
    ultimately show ?thesis using 2(1,3) by auto
  qed
  then show "overdue D now = {} \<Longrightarrow> \<exists>m'. timeouts_remove (Ptr r 0) now m = ok (Null, m') \<and> ring_rep r m' D"
    and "overdue D now \<noteq> {} \<Longrightarrow> \<exists>e ts p m'. D e = Some (ts, p) \<and> ts \<le> now \<and>
      timeouts_remove (Ptr r 0) now m = ok (p, m') \<and> ring_rep r m' (D(e := None))"
    by simp_all
qed

lemma ring_rep_basic:
  assumes "ring_rep r m D"
  shows "finite (dom D)" and "D e = Some (ts, p) \<Longrightarrow> p \<noteq> Null"
proof -
  obtain A where A: "timers m A" "D = ring_deadlines r A"
    using assms by (auto simp: ring_rep_iff)
  have "dom D \<subseteq> dom A"
    by (auto simp: A(2) ring_deadlines_Some dom_def)
  with A(1) show "finite (dom D)"
    by (auto simp: timers_def intro: finite_subset)
  show "p \<noteq> Null" if "D e = Some (ts, p)"
    using that timers_nonnull [OF A(1)] by (cases e) (auto simp: A(2) ring_deadlines_Some)
qed

lemma add_law:
  assumes "ring_rep r m D" "is_entry m e" "passed_index r m \<le> ts" "off < 2 ^ 32"
  shows "\<exists>m'. timeouts_add (Ptr r 0) e off ts m = ok m' \<and> ring_rep r m' (D(e \<mapsto> (ts, ptr_minus e off))) \<and>
    passed_index r m' = passed_index r m"
proof -
  obtain A R where A: "timers m A" "timely m A" "rings m r = Some R" "D = ring_deadlines r A"
    using assms(1) by (auto simp: ring_rep_iff)
  have "unat off < 2 ^ 32"
    using assms(4) by (simp add: word_less_nat_alt)
  then have off: "ucast (ucast off :: u32) = off"
    by (simp add: word_unat_eq_iff unsigned_ucast_eq unsigned_take_bit_eq take_bit_nat_eq_self)
  have e: "e \<noteq> Null" "ents m e \<noteq> None"
    using assms(2) by (simp_all add: is_entry_def)
  obtain m' where m': "timeouts_add (Ptr r 0) e off ts m = ok m'" "timers m' (A(e \<mapsto> (r, ts, off)))"
      "same_rings m m'"
    using timeouts_add_spec [OF A(1) e, of r off ts] A(3) off by auto
  have "timely m (A(e \<mapsto> (r, ts, off)))"
    using A(2,3) assms(3) by (auto simp: timely_def passed_index_def)
  then have "timely m' (A(e \<mapsto> (r, ts, off)))"
    using same_rings_timely [OF m'(3)] by simp
  with m' A have "ring_rep r m' (D(e \<mapsto> (ts, ptr_minus e off)))"
    unfolding ring_rep_iff using same_rings_Some [OF m'(3) A(3)]
    by (intro exI [of _ "A(e \<mapsto> (r, ts, off))"]) auto
  with m' same_rings_passed show ?thesis by auto
qed

lemma unlink_law:
  assumes "ring_rep r m D" "is_entry m e"
  shows "\<exists>m'. timeout_unlink e m = ok m' \<and> ring_rep r m' (D(e := None)) \<and>
    passed_index r m' = passed_index r m"
proof -
  obtain A R where A: "timers m A" "timely m A" "rings m r = Some R" "D = ring_deadlines r A"
    using assms(1) by (auto simp: ring_rep_iff)
  have e: "e \<noteq> Null" "ents m e \<noteq> None"
    using assms(2) by (simp_all add: is_entry_def)
  obtain m' where m': "timeout_unlink e m = ok m'" "timers m' (A(e := None))" "same_rings m m'"
    using timeout_unlink_spec [OF A(1) e] by auto
  have "timely m' (A(e := None))"
    using A(2) same_rings_timely [OF m'(3)] by (simp add: timely_remove)
  with m' A have "ring_rep r m' (D(e := None))"
    unfolding ring_rep_iff using same_rings_Some [OF m'(3) A(3)]
    by (intro exI [of _ "A(e := None)"]) auto
  with m' same_rings_passed show ?thesis by auto
qed

interpretation ring: timer_service "ring_rep r" "timeouts_remove (Ptr r 0)" is_entry
    "timeouts_add (Ptr r 0)" timeout_unlink "passed_index r" for r
proof unfold_locales
  show "finite (dom D)" if "ring_rep r m D" for m D
    using ring_rep_basic(1) [OF that] .
  show "p \<noteq> Null" if "ring_rep r m D" "D e = Some (ts, p)" for m D e ts p
    using ring_rep_basic(2) [OF that] .
  show "\<exists>m'. timeouts_remove (Ptr r 0) now m = ok (Null, m') \<and> ring_rep r m' D"
    if "ring_rep r m D" "now \<noteq> - 1" "overdue D now = {}" for m D now
    using remove_laws(1) [OF that] .
  show "\<exists>e ts p m'. D e = Some (ts, p) \<and> ts \<le> now \<and>
      timeouts_remove (Ptr r 0) now m = ok (p, m') \<and> ring_rep r m' (D(e := None))"
    if "ring_rep r m D" "now \<noteq> - 1" "overdue D now \<noteq> {}" for m D now
    using remove_laws(2) [OF that] .
  show "\<exists>m'. timeouts_add (Ptr r 0) e off ts m = ok m' \<and> ring_rep r m' (D(e \<mapsto> (ts, ptr_minus e off))) \<and>
      passed_index r m' = passed_index r m"
    if "ring_rep r m D" "is_entry m e" "passed_index r m \<le> ts" "off < 2 ^ 32" for m D e off ts
    using add_law [OF that] .
  show "\<exists>m'. timeout_unlink e m = ok m' \<and> ring_rep r m' (D(e := None)) \<and>
      passed_index r m' = passed_index r m"
    if "ring_rep r m D" "is_entry m e" for m D e
    using unlink_law [OF that] .
qed

end
