(* ===== verification/Timer_Props.thy ===== *)
theory Timer_Props
  imports Timer_Queue
begin

text \<open>
  The properties of the timer wheel: creation, and the three operations against the map they refine,
  the order in which timeouts come out, and the two ways in which they do not.
\<close>

section \<open>A concrete wheel\<close>

text \<open>A ring in block 4 and two entries, which the witnesses below use.\<close>

definition demo_entry :: ptr where "demo_entry = Ptr 2 48"
definition demo_other :: ptr where "demo_other = Ptr 3 48"

definition demo :: "u64 \<Rightarrow> tmem" where
  "demo index = \<lparr>ents = [demo_entry \<mapsto> zero_entry, demo_other \<mapsto> zero_entry],
     rings = [4 \<mapsto> \<lparr>current_index = index, mask = MASK, slots = (\<lambda>_. Null)\<rparr>], tm_err = []\<rparr>"

lemma demo_simps [simp]:
  "ents (demo i) demo_entry = Some zero_entry" "ents (demo i) demo_other = Some zero_entry"
  "rings (demo i) 4 = Some \<lparr>current_index = i, mask = MASK, slots = (\<lambda>_. Null)\<rparr>"
  "demo_entry \<noteq> Null" "demo_other \<noteq> Null" "demo_entry \<noteq> demo_other" "demo_other \<noteq> demo_entry"
  "ptr_minus demo_entry 48 = Ptr 2 0" "ptr_minus demo_other 48 = Ptr 3 0"
  by (simp_all add: demo_def demo_entry_def demo_other_def)

lemma demo_timers: "timers (demo i) Map.empty"
  unfolding timers_def
proof (intro conjI exI)
  show "wheel (demo i) Map.empty (\<lambda>_ _. [])"
    by (rule wheelI) (auto simp: demo_def zero_entry_def split: if_splits)
qed simp


text \<open>The same ring with the first entry armed for tick \<open>ts\<close>.\<close>

lemma demo_behind:
  obtains m R where "timers m [demo_entry \<mapsto> (4, ts, 48)]" "rings m 4 = Some R" "current_index R = i"
proof -
  have e: "demo_entry \<noteq> Null" "ents (demo i) demo_entry \<noteq> None" by simp_all
  obtain m where m: "timers m [demo_entry \<mapsto> (4, ts, 48)]" "same_rings (demo i) m"
    using timeouts_add_spec [OF demo_timers e, of 4 48 ts] by auto
  obtain R where R: "rings m 4 = Some R" "current_index R = i"
    using same_rings_Some [OF m(2), of 4] by auto
  with m(1) show thesis by (intro that) auto
qed

lemma demo_armed:
  assumes "i \<le> ts"
  obtains m R where "timers m [demo_entry \<mapsto> (4, ts, 48)]" "rings m 4 = Some R" "current_index R = i"
    "timely m [demo_entry \<mapsto> (4, ts, 48)]"
proof -
  obtain m R where m: "timers m [demo_entry \<mapsto> (4, ts, 48)]" "rings m 4 = Some R" "current_index R = i"
    by (rule demo_behind)
  then have "timely m [demo_entry \<mapsto> (4, ts, 48)]"
    using assms by (auto simp: timely_def split: if_splits)
  with m show thesis by (rule that)
qed

section \<open>Refinement\<close>

text \<open>C11: \<open>timeouts_create\<close> returns a ring, or aborts exactly if the allocator refuses its 8388624 bytes. The
  ring is a new block, its index is the current time in ticks, and it stands for no armed entry: the map
  of the store is the one before.\<close>
theorem timeouts_create_correct:
  assumes "timers m A" "\<forall>r. rings m r \<noteq> None \<longrightarrow> r < next_block h"
  shows "if refuses al (next_block h) 8388624 then \<exists>msg. timeouts_create al ob now usecs h m = raise (Aborted msg)
    else \<exists>r h' m'. timeouts_create al ob now usecs h m = ok (Ptr r 0, h', m') \<and>
      allocated h ob (Ptr r 0) h' \<and> rings m r = None \<and> timers m' A \<and>
      m' = m\<lparr>rings := (rings m)(r \<mapsto>
        \<lparr>current_index = timestamp_from_tv now usecs, mask = MASK, slots = (\<lambda>_. Null)\<rparr>)\<rparr> \<and>
      (\<forall>e ts off. A e \<noteq> Some (r, ts, off))"
proof -
  have none: "A e \<noteq> Some (r, ts, off)" if "rings m r = None" for r e ts off
    using that assms(1) by (auto simp: timers_def dest!: wheelD(3))
  have used: "r < next_block h" if "rings m r \<noteq> None" for r
    using assms(2) that by blast
  have guard: "\<not> alloc_too_large 1 8388624"
    by (rule guard_small) (simp_all add: MAXNUM_eq)
  show ?thesis
  proof (cases "refuses al (next_block h) 8388624")
    case True
    then have "\<not> no_abort (CALLOC al 1 8388624 ob h)"
      using CALLOC_aborts [of 1 8388624 al ob h] guard by simp
    then show ?thesis
      using True by (auto simp: no_abort_def timeouts_create_def)
  next
    case False
    then have "no_abort (timeouts_create al ob now usecs h m)"
      using CALLOC_aborts [of 1 8388624 al ob h] guard unfolding timeouts_create_def Let_def
      by (intro no_aborts) simp
    with False safe_returns [OF timeouts_create_spec [OF assms(1) used]] none show ?thesis
      by fastforce
  qed
qed

lemma timeouts_create_correct_witness:
  "\<exists>r h' m'. timeouts_create \<lparr>refuses = (\<lambda>_ _. False), realloc0_frees = True\<rparr> (9 :: nat) 100 0
       \<lparr>next_block = 5, live = Map.empty\<rparr> (demo 3) = ok (Ptr r 0, h', m') \<and> r \<noteq> 4 \<and> timers m' Map.empty"
proof -
  have "\<forall>r. rings (demo 3) r \<noteq> None \<longrightarrow> r < next_block \<lparr>next_block = 5, live = Map.empty :: nat \<Rightarrow> nat option\<rparr>"
    by (simp add: demo_def)
  from timeouts_create_correct [OF demo_timers this, of "\<lparr>refuses = (\<lambda>_ _. False), realloc0_frees = True\<rparr>" 9 100 0]
  show ?thesis
    by (auto simp: demo_def)
qed

text \<open>C10: \<open>timeout_unlink\<close> deletes its entry from the map and changes nothing else: it always
  returns, also for an entry in no ring, and the indexes and the messages stay as they are.\<close>
theorem timeout_unlink_correct:
  assumes "timers m A" "e \<noteq> Null" "ents m e \<noteq> None"
  shows "\<exists>m'. timeout_unlink e m = ok m' \<and> timers m' (A(e := None)) \<and>
    (\<forall>r. map_option current_index (rings m' r) = map_option current_index (rings m r)) \<and> tm_err m' = tm_err m"
  using timeout_unlink_spec [OF assms] by (auto simp: same_rings_def)

lemma timeout_unlink_correct_witness:
  "\<exists>m m'. timers m [demo_entry \<mapsto> (4, 7, 48)] \<and> timeout_unlink demo_entry m = ok m' \<and> timers m' Map.empty"
proof -
  obtain m where m: "timers m [demo_entry \<mapsto> (4, 7, 48)]"
    by (rule demo_armed [of 3 7]) simp
  then have "ents m demo_entry \<noteq> None"
    by (auto simp: timers_def dest!: wheelD(3) [where p = demo_entry])
  from timeout_unlink_correct [OF m _ this] m show ?thesis by auto
qed

text \<open>C9: \<open>timeouts_add\<close> always returns. It arms its entry for the given tick, in place of any
  earlier arming, with the offset cut to 32 bits, and prints no message: the test for a change of
  the time comes after the entry has been unlinked, so it never holds.\<close>
theorem timeouts_add_correct:
  assumes "timers m A" "e \<noteq> Null" "ents m e \<noteq> None" "rings m r \<noteq> None"
  shows "\<exists>m'. timeouts_add (Ptr r 0) e off ts m = ok m' \<and>
    timers m' (A(e \<mapsto> (r, ts, ucast (ucast off :: u32)))) \<and>
    (\<forall>r. map_option current_index (rings m' r) = map_option current_index (rings m r)) \<and> tm_err m' = tm_err m"
  using timeouts_add_spec [OF assms, of off ts] by (auto simp: same_rings_def)

lemma timeouts_add_correct_witness:
  "\<exists>m'. timeouts_add (Ptr 4 0) demo_entry 48 7 (demo 3) = ok m' \<and> timers m' [demo_entry \<mapsto> (4, 7, 48)]"
  using timeouts_add_correct [OF demo_timers, of demo_entry 3 4 48 7] by auto






section \<open>Order and limits\<close>

lemma slot_of_inj:
  assumes "slot_of a = slot_of b" "b \<le> a" "unat a < unat b + SLOTS"
  shows "a = b"
proof -
  have "(unat a - unat b) mod 2 ^ 20 = 0"
    using assms(1,2) by (simp add: slot_of_eq word_le_nat_alt mod_eq_iff_dvd_symdiff_nat
        flip: mod_eq_dvd_iff_nat)
  moreover have "unat a - unat b < 2 ^ 20"
    using assms(3) by (simp add: SLOTS_eq)
  ultimately show ?thesis
    using assms(2) by (simp add: word_le_nat_alt word_unat_eq_iff)
qed

text \<open>C8: timeouts come out in the order of their deadlines, as long as all of the ring are armed
  for less than one revolution (2^20 ticks) after its index: the entry that \<open>timeouts_remove\<close> returns
  has the smallest deadline of the ring.\<close>
theorem timeouts_remove_earliest:
  assumes "timers m A" "timely m A" "rings m r = Some R" "now \<noteq> - 1"
    and window: "\<forall>e ts off. A e = Some (r, ts, off) \<longrightarrow> unat ts < unat (current_index R) + SLOTS"
    and run: "timeouts_remove (Ptr r 0) now m = ok (p, m')" "p \<noteq> Null"
  shows "\<exists>e ts off. A e = Some (r, ts, off) \<and> p = ptr_minus e off \<and>
    (\<forall>e' ts' off'. A e' = Some (r, ts', off') \<longrightarrow> ts \<le> ts')"
proof (cases rule: timeouts_remove_spec [OF assms(1,3,4)])
  case 1
  with run show ?thesis by simp
next
  case (2 e ts off c m2)
  have c: "c \<le> ts'" if "A e' = Some (r, ts', off')" for e' ts' off'
    using 2(11) [OF that timelyD [OF assms(2) that assms(3)]] .
  have "unat ts < unat c + SLOTS"
    using window 2(2,9) by (fastforce simp: word_le_nat_alt)
  then have "ts = c"
    using slot_of_inj [OF 2(8) c [OF 2(2)]] by simp
  moreover have "p = ptr_minus e off"
    using run(1) 2(1) by simp
  ultimately show ?thesis
    using 2(2) c by blast
qed


text \<open>C14: at the last tick of the 64-bit clock the scan of a ring without armed entries does not
  return: the index can never pass that time, it wraps to 0.\<close>
theorem timeouts_remove_never_returns:
  assumes "timers m A" "rings m r = Some R" "\<forall>e ts off. A e \<noteq> Some (r, ts, off)"
  shows "timeouts_remove (Ptr r 0) (- 1) m = None"
proof -
  have returns: "t = Ptr r 0 \<Longrightarrow> now = - 1 \<Longrightarrow> timers m A \<Longrightarrow> rings m r \<noteq> None \<Longrightarrow> False"
    if "scan_ring t now m = Some y" for t now m y
    using that
  proof (induction rule: scan_ring.raw_induct [rotated, consumes 1, case_names step])
    case (step scan t now m y)
    from step(5,6) obtain L R where W: "wheel m A L" and R: "rings m r = Some R" and fin: "finite (dom A)"
      by (auto simp: timers_def)
    let ?i = "slot_index (current_index R) (mask R)"
    have i: "?i < SLOTS"
      using wheelD(2) [OF W R] slot_of_less [of "current_index R"] by (simp add: slot_of_def)
    have "L r ?i = []"
      using wheelD(4) [OF W, of _ r ?i] assms(3) by (cases "L r ?i") auto
    then have "slots R ?i = Null"
      using dseg_head [OF wheelD(1) [OF W R i]] by simp
    then have run: "scan (Ptr r 0) (- 1) (move_index m r R (current_index R + 1)) = Some y"
      using step(2-4) R i by (simp add: scan_slot.simps [of _ _ Null] move_index_def)
    have "timers (move_index m r R (current_index R + 1)) A"
      using wheel_move_index [OF W R] fin by (auto simp: timers_def)
    with step(1) [OF run refl refl] show False by simp
  qed
  have "scan_ring (Ptr r 0) (- 1) m = None"
    using returns [OF _ refl refl assms(1)] assms(2) by (cases "scan_ring (Ptr r 0) (- 1) m") auto
  then show ?thesis by (simp add: timeouts_remove_def)
qed

lemma timeouts_remove_earliest_witness:
  "\<exists>m m'. timers m [demo_entry \<mapsto> (4, 7, 48)] \<and> timeouts_remove (Ptr 4 0) 9 m = ok (Ptr 2 0, m') \<and>
     (\<exists>e ts off. [demo_entry \<mapsto> (4, 7 :: u64, 48 :: u64)] e = Some (4, ts, off) \<and> Ptr 2 0 = ptr_minus e off \<and>
       (\<forall>e' ts' off'. [demo_entry \<mapsto> (4, 7 :: u64, 48 :: u64)] e' = Some (4, ts', off') \<longrightarrow> ts \<le> ts'))"
proof -
  obtain m R where m: "timers m [demo_entry \<mapsto> (4, 7, 48)]" "rings m 4 = Some R" "current_index R = 3"
      "timely m [demo_entry \<mapsto> (4, 7, 48)]"
    by (rule demo_armed [of 3 7]) simp
  obtain m' where run: "timeouts_remove (Ptr 4 0) 9 m = ok (Ptr 2 0, m')"
  proof (cases rule: timeouts_remove_timely [OF m(1,4,2), of 9])
    case (2 m')
    then show thesis using 2(5) [of demo_entry 7 48] by simp
  next
    case (3 e ts off m')
    then show thesis by (intro that) (auto split: if_splits)
  qed simp
  have "\<forall>e ts off. [demo_entry \<mapsto> (4, 7 :: u64, 48 :: u64)] e = Some (4, ts, off) \<longrightarrow> unat ts < unat (current_index R) + SLOTS"
    by (simp add: SLOTS_eq)
  from timeouts_remove_earliest [OF m(1,4,2) _ this run] run m(1) show ?thesis
    by (intro exI conjI) auto
qed


lemma timeouts_remove_never_returns_witness:
  "timeouts_remove (Ptr 4 0) (- 1) (demo 3) = None"
  by (rule timeouts_remove_never_returns [OF demo_timers]) simp_all

section \<open>Ticks\<close>

text \<open>C15: below 2^50 seconds the tick count of a time does not wrap: it is 16384 for each second and
  one for each 16384 microseconds, so that a whole second of microseconds counts for 61 ticks at
  most, and times in different seconds keep their order.\<close>
theorem timestamp_from_tv_bounds:
  assumes "unat secs < 2 ^ 50" "unat usecs < 1000000"
  shows "unat (timestamp_from_tv secs usecs) = unat secs * 16384 + unat usecs div 16384 \<and>
    unat secs * 16384 \<le> unat (timestamp_from_tv secs usecs) \<and>
    unat (timestamp_from_tv secs usecs) \<le> unat secs * 16384 + 61"
proof -
  have secs: "unat (secs * 16384) = unat secs * 16384"
    using assms(1) by (simp add: unat_mult_lem [THEN iffD1])
  have usecs: "unat ((ucast usecs :: u64) div 16384) = unat usecs div 16384"
    by (simp add: unat_div unsigned_ucast_eq take_bit_nat_eq_self order_less_trans [OF unsigned_less])
  have le: "unat usecs div 16384 \<le> 61"
    using assms(2) by simp
  have "unat secs * 16384 + unat usecs div 16384 < 2 ^ 64"
    using assms(1) le by simp
  then have "unat (timestamp_from_tv secs usecs) = unat secs * 16384 + unat usecs div 16384"
    using secs usecs
    by (simp add: timestamp_from_tv_def TICKS_FROM_TV_def TICKS_FROM_SECS_def TICKS_FROM_USECS_def
        unat_add_lem [THEN iffD1])
  with le show ?thesis by simp
qed

lemma timestamp_from_tv_bounds_witness:
  "unat (timestamp_from_tv 1000 999999) = 1000 * 16384 + 61"
  using timestamp_from_tv_bounds [of 1000 999999] by simp



end
