(* ===== verification/Dispatch_State.thy ===== *)
theory Dispatch_State
  imports Event_Timeout
begin

text \<open>
  The data of \<^verbatim>\<open>dispatch.c\<close> and \<^verbatim>\<open>dispatch.h\<close>, and the machine it runs on.

  \<^item> The heap holds one object per block: a dispatcher, a service, a connection, an array of
    pointers, a string, a timer ring, or a block of the application.
  \<^item> \<open>'w os\<close> gathers the operating system's calls. Each is a function of the state \<open>'w\<close> of the
    world outside the program and may return anything; a theorem about the dispatcher holds for
    every operating system.
  \<^item> \<open>'w callbacks\<close> gives a meaning to the function pointers of a service (0 is \<open>NULL\<close>).
  \<^item> The trace lists the program's observable actions in order: what it prints, the sockets it
    opens and closes, and the notifications it sends to the application.
\<close>

section \<open>Structures\<close>

type_synonym fnptr = nat

record service =
  s_fd :: int
  s_recv :: fnptr
  s_send :: fnptr
  s_event :: fnptr
  s_cfg_timeout_inactivity :: u32
  s_userdata :: ptr
  s_hostaddr :: ptr
  s_hostport :: ptr

record connection =
  c_index :: nat
  c_fd :: int
  c_userdata :: ptr
  c_svc :: ptr
  c_send_buf :: ptr
  c_send_length :: u64
  c_peeraddr :: ptr
  c_peerport :: ptr

record dispatcher =
  d_services :: ptr
  d_service_count :: nat
  d_connections :: ptr
  d_connection_count :: nat
  d_inactivity :: ptr
  d_sleep :: ptr
  d_receive :: ptr

record new_connection =
  n_sizeof_struct :: u64
  n_servicedata :: ptr
  n_hostaddr :: ptr
  n_hostport :: ptr
  n_peeraddr :: ptr
  n_peerport :: ptr

datatype dispatch_event =
    DISPATCH_NEW_CONNECTION
  | DISPATCH_END_CONNECTION
  | DISPATCH_TIMEOUT_INACTIVITY
  | DISPATCH_TIMEOUT_SLEEP
  | DISPATCH_TIMEOUT_RECEIVE

record telnet_service =
  data_port :: int

datatype obj =
    ODisp dispatcher
  | OSvc service
  | OConn connection
  | OArr "ptr list"
  | OStr string
  | ORing
  | OTelnet telnet_service

definition zero_service :: service where
  "zero_service = \<lparr>s_fd = 0, s_recv = 0, s_send = 0, s_event = 0, s_cfg_timeout_inactivity = 0,
     s_userdata = Null, s_hostaddr = Null, s_hostport = Null\<rparr>"

definition zero_connection :: connection where
  "zero_connection = \<lparr>c_index = 0, c_fd = 0, c_userdata = Null, c_svc = Null, c_send_buf = Null,
     c_send_length = 0, c_peeraddr = Null, c_peerport = Null\<rparr>"

definition zero_dispatcher :: dispatcher where
  "zero_dispatcher = \<lparr>d_services = Null, d_service_count = 0, d_connections = Null,
     d_connection_count = 0, d_inactivity = Null, d_sleep = Null, d_receive = Null\<rparr>"

text \<open>Offsets of the timers in \<open>struct dispatcher_connection\<close> (64-bit layout, 160 bytes).\<close>

definition OFF_INACTIVITY :: u64 where "OFF_INACTIVITY = 48"
definition OFF_SLEEP :: u64 where "OFF_SLEEP = 80"
definition OFF_RECEIVE :: u64 where "OFF_RECEIVE = 112"

definition field :: "ptr \<Rightarrow> u64 \<Rightarrow> ptr" where
  "field p off = (case p of Null \<Rightarrow> Null | Ptr b o' \<Rightarrow> Ptr b (o' + off))"

section \<open>The operating system and the application\<close>

type_synonym sockaddr = nat

record addrinfo =
  ai_family :: int
  ai_addr :: sockaddr

datatype obs =
    Out string
  | Err string
  | Getaddrinfo addrinfo
  | Freeaddrinfo addrinfo
  | Socket int
  | Accept int
  | Close int
  | Notify ptr dispatch_event
  | Deliver ptr "u8 list"

record 'w state =
  hp :: "obj heap"
  tm :: tmem
  world :: 'w
  trace :: "obs list"

record 'w os =
  os_alloc :: allocator
  os_time :: "'w \<Rightarrow> u64 \<times> 'w"
  os_select :: "int \<Rightarrow> int set \<Rightarrow> int set \<Rightarrow> int set \<Rightarrow> u64 \<Rightarrow> 'w \<Rightarrow> (int \<times> int set \<times> int set \<times> int set) \<times> 'w"
  os_sleep :: "u32 \<Rightarrow> 'w \<Rightarrow> 'w"
  os_recv :: "int \<Rightarrow> nat \<Rightarrow> 'w \<Rightarrow> u8 list option \<times> 'w"
  os_so_error :: "int \<Rightarrow> 'w \<Rightarrow> int option \<times> 'w"
  os_accept :: "int \<Rightarrow> 'w \<Rightarrow> (int \<times> sockaddr) \<times> 'w"
  os_getnameinfo :: "sockaddr \<Rightarrow> 'w \<Rightarrow> (int \<times> string \<times> string) \<times> 'w"
  os_getaddrinfo :: "string \<Rightarrow> 'w \<Rightarrow> (int \<times> addrinfo) \<times> 'w"
  os_socket :: "int \<Rightarrow> 'w \<Rightarrow> int \<times> 'w"
  os_fcntl_getfl :: "int \<Rightarrow> 'w \<Rightarrow> int \<times> 'w"
  os_fcntl_setfl :: "int \<Rightarrow> int \<Rightarrow> 'w \<Rightarrow> int \<times> 'w"
  os_reuseaddr :: "int \<Rightarrow> 'w \<Rightarrow> int \<times> 'w"
  os_reuseport :: "int \<Rightarrow> 'w \<Rightarrow> int \<times> 'w"
  os_bind :: "int \<Rightarrow> sockaddr \<Rightarrow> 'w \<Rightarrow> int \<times> 'w"
  os_listen :: "int \<Rightarrow> int \<Rightarrow> 'w \<Rightarrow> int \<times> 'w"
  os_close :: "int \<Rightarrow> 'w \<Rightarrow> 'w"
  os_errno :: "'w \<Rightarrow> int"
  strerror :: "int \<Rightarrow> string"
  gai_strerror :: "int \<Rightarrow> string"

record 'w callbacks =
  cb_recv :: "fnptr \<Rightarrow> ptr \<Rightarrow> ptr \<Rightarrow> u8 list \<Rightarrow> 'w state \<Rightarrow> 'w state outcome"
  cb_event :: "fnptr \<Rightarrow> ptr \<Rightarrow> dispatch_event \<Rightarrow> new_connection option \<Rightarrow> 'w state \<Rightarrow> 'w state outcome"

section \<open>Access\<close>

definition emit :: "obs \<Rightarrow> 'w state \<Rightarrow> 'w state" where
  "emit a s = s\<lparr>trace := trace s @ [a]\<rparr>"

definition load_obj :: "ptr \<Rightarrow> 'w state \<Rightarrow> obj outcome" where
  "load_obj p s =
     (case p of Null \<Rightarrow> raise Null_deref
      | Ptr b o' \<Rightarrow> (case live (hp s) b of
          None \<Rightarrow> raise Dangling
        | Some ob \<Rightarrow> if o' = 0 then ok ob else raise Dangling))"

definition store_obj :: "ptr \<Rightarrow> obj \<Rightarrow> 'w state \<Rightarrow> 'w state" where
  "store_obj p ob s = s\<lparr>hp := (hp s)\<lparr>live := (live (hp s))(blk p \<mapsto> ob)\<rparr>\<rparr>"

definition load_disp :: "ptr \<Rightarrow> 'w state \<Rightarrow> dispatcher outcome" where
  "load_disp p s = obind (load_obj p s) (\<lambda>ob. case ob of ODisp D \<Rightarrow> ok D | _ \<Rightarrow> raise Dangling)"

definition load_svc :: "ptr \<Rightarrow> 'w state \<Rightarrow> service outcome" where
  "load_svc p s = obind (load_obj p s) (\<lambda>ob. case ob of OSvc v \<Rightarrow> ok v | _ \<Rightarrow> raise Dangling)"

definition load_conn :: "ptr \<Rightarrow> 'w state \<Rightarrow> connection outcome" where
  "load_conn p s = obind (load_obj p s) (\<lambda>ob. case ob of OConn c \<Rightarrow> ok c | _ \<Rightarrow> raise Dangling)"

definition load_str :: "ptr \<Rightarrow> 'w state \<Rightarrow> string outcome" where
  "load_str p s = obind (load_obj p s) (\<lambda>ob. case ob of OStr str \<Rightarrow> ok str | _ \<Rightarrow> raise Dangling)"

definition load_arr :: "ptr \<Rightarrow> nat \<Rightarrow> 'w state \<Rightarrow> ptr outcome" where
  "load_arr p i s = obind (load_obj p s) (\<lambda>ob. case ob of
     OArr xs \<Rightarrow> if i < length xs then ok (xs ! i) else raise Out_of_bounds | _ \<Rightarrow> raise Dangling)"

definition store_arr :: "ptr \<Rightarrow> nat \<Rightarrow> ptr \<Rightarrow> 'w state \<Rightarrow> 'w state outcome" where
  "store_arr p i q s = obind (load_obj p s) (\<lambda>ob. case ob of
     OArr xs \<Rightarrow> if i < length xs then ok (store_obj p (OArr (xs[i := q])) s) else raise Out_of_bounds
   | _ \<Rightarrow> raise Dangling)"

definition upd_disp :: "ptr \<Rightarrow> (dispatcher \<Rightarrow> dispatcher) \<Rightarrow> 'w state \<Rightarrow> 'w state outcome" where
  "upd_disp p f s = obind (load_disp p s) (\<lambda>D. ok (store_obj p (ODisp (f D)) s))"

definition upd_conn :: "ptr \<Rightarrow> (connection \<Rightarrow> connection) \<Rightarrow> 'w state \<Rightarrow> 'w state outcome" where
  "upd_conn p f s = obind (load_conn p s) (\<lambda>c. ok (store_obj p (OConn (f c)) s))"

definition upd_svc :: "ptr \<Rightarrow> (service \<Rightarrow> service) \<Rightarrow> 'w state \<Rightarrow> 'w state outcome" where
  "upd_svc p f s = obind (load_svc p s) (\<lambda>v. ok (store_obj p (OSvc (f v)) s))"

definition with_heap :: "(obj heap \<Rightarrow> (ptr \<times> obj heap) outcome) \<Rightarrow> 'w state \<Rightarrow> (ptr \<times> 'w state) outcome" where
  "with_heap f s = obind (f (hp s)) (\<lambda>(p, h). ok (p, s\<lparr>hp := h\<rparr>))"

definition with_tm :: "(tmem \<Rightarrow> tmem outcome) \<Rightarrow> 'w state \<Rightarrow> 'w state outcome" where
  "with_tm f s = obind (f (tm s)) (\<lambda>m. ok (s\<lparr>tm := m\<rparr>))"

text \<open>A call of the operating system.\<close>

definition sys :: "('w \<Rightarrow> 'a \<times> 'w) \<Rightarrow> 'w state \<Rightarrow> 'a \<times> 'w state" where
  "sys f s = (case f (world s) of (r, w) \<Rightarrow> (r, s\<lparr>world := w\<rparr>))"

definition c_close :: "'w os \<Rightarrow> int \<Rightarrow> 'w state \<Rightarrow> 'w state" where
  "c_close os fd s = emit (Close fd) (s\<lparr>world := os_close os fd (world s)\<rparr>)"

definition errstr :: "'w os \<Rightarrow> 'w state \<Rightarrow> string" where
  "errstr os s = strerror os (os_errno os (world s))"

text \<open>
  Calls through the function pointers of a service. A null function pointer is a null dereference.
\<close>

definition call_event ::
  "'w callbacks \<Rightarrow> fnptr \<Rightarrow> ptr \<Rightarrow> dispatch_event \<Rightarrow> new_connection option \<Rightarrow> 'w state \<Rightarrow> 'w state outcome" where
  "call_event cbs f conn ev n s =
     (if f = 0 then raise Null_deref else cb_event cbs f conn ev n (emit (Notify conn ev) s))"

definition call_recv :: "'w callbacks \<Rightarrow> fnptr \<Rightarrow> ptr \<Rightarrow> ptr \<Rightarrow> u8 list \<Rightarrow> 'w state \<Rightarrow> 'w state outcome" where
  "call_recv cbs f conn userdata buf s =
     (if f = 0 then raise Null_deref else cb_recv cbs f conn userdata buf (emit (Deliver conn buf) s))"

text \<open>
  \<open>CALLOC(1, sizeof(struct dispatcher_connection))\<close> and its release: the block and the three timer
  entries inside it appear and disappear together.
\<close>

definition entry_ptrs :: "ptr \<Rightarrow> ptr list" where
  "entry_ptrs p = [field p OFF_INACTIVITY, field p OFF_SLEEP, field p OFF_RECEIVE]"

definition alloc_conn :: "'w os \<Rightarrow> 'w state \<Rightarrow> (ptr \<times> 'w state) outcome" where
  "alloc_conn os s =
     obind (with_heap (CALLOC (os_alloc os) 1 160 (OConn zero_connection)) s) (\<lambda>(p, s).
       ok (p, s\<lparr>tm := (tm s)\<lparr>ents := (\<lambda>e. if e \<in> set (entry_ptrs p) then Some zero_entry else ents (tm s) e)\<rparr>\<rparr>))"

definition free_conn :: "ptr \<Rightarrow> 'w state \<Rightarrow> 'w state outcome" where
  "free_conn p s =
     obind (FREE p (hp s)) (\<lambda>h.
       ok (s\<lparr>hp := h, tm := (tm s)\<lparr>ents := (\<lambda>e. if e \<in> set (entry_ptrs p) then None else ents (tm s) e)\<rparr>\<rparr>))"

definition strdup :: "'w os \<Rightarrow> string \<Rightarrow> 'w state \<Rightarrow> (ptr \<times> 'w state) outcome" where
  "strdup os str s = with_heap (STRDUP (os_alloc os) (Some str) OStr) s"

text \<open>
  \<open>REALLOCARRAY(p, n, sizeof(p[0]))\<close> on an array of pointers: the common part is kept, and the rest
  of the new array is not initialised (\<open>Null\<close> stands for it; the code writes it before it reads it).
\<close>

definition resize :: "nat \<Rightarrow> obj \<Rightarrow> obj" where
  "resize n ob = (case ob of OArr xs \<Rightarrow> OArr (take n xs @ replicate (n - length xs) Null) | _ \<Rightarrow> ob)"

definition realloc_arr :: "'w os \<Rightarrow> ptr \<Rightarrow> nat \<Rightarrow> 'w state \<Rightarrow> (ptr \<times> 'w state) outcome" where
  "realloc_arr os p n s =
     with_heap (REALLOCARRAY (os_alloc os) p (of_nat n) 8 (resize n) (OArr (replicate n Null))) s"

section \<open>Loops\<close>

text \<open>
  \<open>for (i = ...; i < bound; i++)\<close>, where the bound is read in every round and the body may step
  the index back (it returns the index of the next round).
\<close>

partial_function (option) for_loop ::
  "('s \<Rightarrow> nat outcome) \<Rightarrow> (nat \<Rightarrow> 's \<Rightarrow> (nat \<times> 's) outcome) \<Rightarrow> nat \<Rightarrow> 's \<Rightarrow> 's outcome" where
  "for_loop bound body i s =
     obind (bound s) (\<lambda>n.
       if i < n then obind (body i s) (\<lambda>(j, s). for_loop bound body j s) else ok s)"

declare for_loop.simps [code]

end
