(* ===== verification/Dispatch.thy ===== *)
theory Dispatch
  imports Dispatch_State
begin

text \<open>
  The operations of \<^verbatim>\<open>dispatch.c\<close>, statement by statement over the state of
  \<^theory_text>\<open>Dispatch_State\<close>. \<open>dispatcher_dispatch\<close> is split at the loops of its C body.
\<close>

section \<open>Creation, destruction\<close>

definition dispatcher_create :: "'w os \<Rightarrow> 'w state \<Rightarrow> (ptr \<times> 'w state) outcome" where
  "dispatcher_create os s =
     obind (with_heap (CALLOC (os_alloc os) 1 56 (ODisp zero_dispatcher)) s) (\<lambda>(d, s).
     let (now, s) = sys (os_time os) s in
     obind (timeouts_create (os_alloc os) ORing now 0 (hp s) (tm s)) (\<lambda>(t, h, m).
     obind (upd_disp d (\<lambda>D. D\<lparr>d_inactivity := t\<rparr>) (s\<lparr>hp := h, tm := m\<rparr>)) (\<lambda>s.
     ok (d, s))))"

definition dispatcher_destroy :: "ptr \<Rightarrow> 'w state \<Rightarrow> 'w state outcome" where
  "dispatcher_destroy d s = obind (FREE d (hp s)) (\<lambda>h. ok (s\<lparr>hp := h\<rparr>))"

section \<open>Listening sockets\<close>

text \<open>\<^verbatim>\<open>util-socket.c\<close>: the result of the first \<open>fcntl\<close> is not tested.\<close>

definition O_NONBLOCK :: int where
  "O_NONBLOCK = 0x800"

definition socket_set_nonblocking :: "'w os \<Rightarrow> int \<Rightarrow> 'w state \<Rightarrow> int \<times> 'w state" where
  "socket_set_nonblocking os fd s =
     (let (flag, s) = sys (os_fcntl_getfl os fd) s;
          flag = or flag O_NONBLOCK;
          (flag, s) = sys (os_fcntl_setfl os fd flag) s
      in if flag = -1 then (-1, s) else (0, s))"

definition err_line :: "string list \<Rightarrow> obs" where
  "err_line parts = Err (concat (''[-] '' # parts) @ newline)"

text \<open>Leaving \<open>dispatcher_add_listener\<close> after \<open>getaddrinfo\<close> has returned: what is released.\<close>

definition listener_fail :: "'w os \<Rightarrow> int option \<Rightarrow> addrinfo \<Rightarrow> 'w state \<Rightarrow> (int \<times> 'w state) outcome" where
  "listener_fail os fd ai s =
     (let s = (case fd of None \<Rightarrow> s | Some fd \<Rightarrow> c_close os fd s) in ok (-1, emit (Freeaddrinfo ai) s))"

definition addr_text :: "string \<Rightarrow> string \<Rightarrow> string" where
  "addr_text host port = ''(['' @ host @ '']:'' @ port @ ''): ''"

text \<open>From the point where the socket listens: the service structure and the list of services.\<close>

definition add_service ::
  "'w os \<Rightarrow> ptr \<Rightarrow> ptr \<Rightarrow> fnptr \<Rightarrow> fnptr \<Rightarrow> fnptr \<Rightarrow> string \<Rightarrow> string \<Rightarrow> int \<Rightarrow> 'w state \<Rightarrow> (int \<times> 'w state) outcome" where
  "add_service os d servicedata recv send event hostaddr hostport fd s =
     obind (with_heap (CALLOC (os_alloc os) 1 64 (OSvc zero_service)) s) (\<lambda>(svc, s).
     obind (upd_svc svc (\<lambda>v. v\<lparr>s_recv := recv, s_send := send, s_event := event\<rparr>) s) (\<lambda>s.
     obind (strdup os hostaddr s) (\<lambda>(ha, s).
     obind (upd_svc svc (\<lambda>v. v\<lparr>s_hostaddr := ha\<rparr>) s) (\<lambda>s.
     obind (strdup os hostport s) (\<lambda>(hport, s).
     obind (upd_svc svc (\<lambda>v. v\<lparr>s_hostport := hport, s_fd := fd, s_userdata := servicedata,
         s_cfg_timeout_inactivity := 5\<rparr>) s) (\<lambda>s.
     obind (load_disp d s) (\<lambda>D.
     obind (realloc_arr os (d_services D) (d_service_count D + 1) s) (\<lambda>(arr, s).
     obind (upd_disp d (\<lambda>D. D\<lparr>d_services := arr\<rparr>) s) (\<lambda>s.
     obind (store_arr arr (d_service_count D) svc s) (\<lambda>s.
     obind (upd_disp d (\<lambda>D. D\<lparr>d_service_count := d_service_count D + 1\<rparr>) s) (\<lambda>s.
     ok (0, s))))))))))))"

definition dispatcher_add_listener ::
  "'w os \<Rightarrow> ptr \<Rightarrow> ptr \<Rightarrow> int \<Rightarrow> fnptr \<Rightarrow> fnptr \<Rightarrow> fnptr \<Rightarrow> 'w state \<Rightarrow> (int \<times> 'w state) outcome" where
  "dispatcher_add_listener os d servicedata port recv send event s =
     (let fn = ''dispatcher_add_listener'' in
      if port < 0 \<or> 65535 < port
      then ok (-1, emit (err_line [fn, '': invalid port number '', show_int port]) s) else
      let ((err, ai), s) = sys (os_getaddrinfo os (show_int port)) s in
      if err \<noteq> 0
      then ok (-1, emit (err_line [fn, '': getaddrinfo(): '', gai_strerror os err]) s) else
      let s = emit (Getaddrinfo ai) s;
          ((err, hostaddr, hostport), s) = sys (os_getnameinfo os (ai_addr ai)) s in
      if err \<noteq> 0
      then listener_fail os None ai (emit (err_line [fn, '':getnameinfo(): '', gai_strerror os err]) s) else
      let (fd, s) = sys (os_socket os (ai_family ai)) s in
      if fd = -1
      then listener_fail os None ai (emit (err_line [fn, '':socket(): '', errstr os s]) s) else
      let s = emit (Socket fd) s;
          (_, s) = socket_set_nonblocking os fd s;
          (err, s) = sys (os_reuseaddr os fd) s in
      if err \<noteq> 0
      then listener_fail os (Some fd) ai
             (emit (err_line [fn, '':SO_REUSEADDR'', addr_text hostaddr hostport, errstr os s]) s) else
      let (err, s) = sys (os_reuseport os fd) s in
      if err \<noteq> 0
      then listener_fail os (Some fd) ai
             (emit (err_line [fn, '':SO_REUSEPORT'', addr_text hostaddr hostport, errstr os s]) s) else
      let (err, s) = sys (os_bind os fd (ai_addr ai)) s in
      if err \<noteq> 0
      then listener_fail os (Some fd) ai
             (emit (err_line [fn, '':bind'', addr_text hostaddr hostport, errstr os s]) s) else
      let (err, s) = sys (os_listen os fd 10) s in
      if err \<noteq> 0
      then listener_fail os (Some fd) ai
             (emit (err_line [fn, '':listen'', addr_text hostaddr hostport, errstr os s]) s) else
      let s = emit (Err (''[+] '' @ fn @ '': listening on ['' @ hostaddr @ '']:'' @ hostport @ newline)) s in
      add_service os d servicedata recv send event hostaddr hostport fd s)"

section \<open>Addresses of a connection\<close>

text \<open>The four out-parameters are given by the caller's wish for them (null pointer or not).\<close>

definition dispatcher_get_addrs ::
  "ptr \<Rightarrow> bool \<Rightarrow> bool \<Rightarrow> bool \<Rightarrow> bool \<Rightarrow> 'w state \<Rightarrow> (ptr option \<times> ptr option \<times> ptr option \<times> ptr option) outcome" where
  "dispatcher_get_addrs conn want_peeraddr want_peerport want_hostaddr want_hostport s =
     obind (if want_peeraddr then obind (load_conn conn s) (\<lambda>c. ok (Some (c_peeraddr c))) else ok None) (\<lambda>pa.
     obind (if want_peerport then obind (load_conn conn s) (\<lambda>c. ok (Some (c_peerport c))) else ok None) (\<lambda>pp.
     obind (if want_hostaddr then obind (load_conn conn s) (\<lambda>c.
              obind (load_svc (c_svc c) s) (\<lambda>v. ok (Some (s_hostaddr v)))) else ok None) (\<lambda>ha.
     obind (if want_hostport then obind (load_conn conn s) (\<lambda>c.
              obind (load_svc (c_svc c) s) (\<lambda>v. ok (Some (s_hostport v)))) else ok None) (\<lambda>hport.
     ok (pa, pp, ha, hport)))))"

definition connection_info :: "connection \<Rightarrow> service \<Rightarrow> new_connection" where
  "connection_info c v =
     \<lparr>n_sizeof_struct = 48, n_servicedata = s_userdata v, n_hostaddr = s_hostaddr v,
      n_hostport = s_hostport v, n_peeraddr = c_peeraddr c, n_peerport = c_peerport c\<rparr>"

section \<open>Adding and removing a connection\<close>

text \<open>
  \<open>(unsigned)count\<close> in the messages keeps 32 bits. Taking the last element of an empty list reads
  \<open>connections[SIZE_MAX]\<close>.
\<close>

definition count_line :: "string \<Rightarrow> nat \<Rightarrow> obs" where
  "count_line sign n = Out (''connection count'' @ sign @ '' = '' @ show_nat (n mod 2 ^ 32) @ newline)"

definition connection_unlist :: "ptr \<Rightarrow> nat \<Rightarrow> 'w state \<Rightarrow> 'w state outcome" where
  "connection_unlist d i s =
     obind (load_disp d s) (\<lambda>D.
     if d_connection_count D = 0 then raise Out_of_bounds else
     obind (load_arr (d_connections D) (d_connection_count D - 1) s) (\<lambda>last.
     obind (store_arr (d_connections D) i last s) (\<lambda>s.
     obind (load_arr (d_connections D) i s) (\<lambda>moved.
     obind (upd_conn moved (\<lambda>c. c\<lparr>c_index := i\<rparr>) s) (\<lambda>s.
     obind (upd_disp d (\<lambda>D. D\<lparr>d_connection_count := d_connection_count D - 1\<rparr>) s) (\<lambda>s.
     ok (emit (count_line ''--'' (d_connection_count D - 1)) s)))))))"

definition connection_close :: "'w os \<Rightarrow> ptr \<Rightarrow> 'w state \<Rightarrow> 'w state outcome" where
  "connection_close os conn s =
     obind (load_conn conn s) (\<lambda>c.
     let s = (if c_fd c > 0 then c_close os (c_fd c) s else s) in
     obind (upd_conn conn (\<lambda>c. c\<lparr>c_fd := -1\<rparr>) s) (\<lambda>s.
     obind (with_tm (timeout_unlink (field conn OFF_INACTIVITY)) s) (\<lambda>s.
     obind (with_tm (timeout_unlink (field conn OFF_SLEEP)) s) (\<lambda>s.
     obind (with_tm (timeout_unlink (field conn OFF_RECEIVE)) s) (\<lambda>s.
     free_conn conn s)))))"

definition connection_remove :: "'w os \<Rightarrow> 'w callbacks \<Rightarrow> ptr \<Rightarrow> nat \<Rightarrow> 'w state \<Rightarrow> 'w state outcome" where
  "connection_remove os cbs d i s =
     obind (load_disp d s) (\<lambda>D.
     obind (load_arr (d_connections D) i s) (\<lambda>conn.
     obind (load_conn conn s) (\<lambda>c.
     let svc = c_svc c in
     obind (connection_unlist d i s) (\<lambda>s.
     obind (load_svc svc s) (\<lambda>v.
     obind (load_conn conn s) (\<lambda>c.
     obind (call_event cbs (s_event v) conn DISPATCH_END_CONNECTION (Some (connection_info c v)) s) (\<lambda>s.
     connection_close os conn s)))))))"

text \<open>From the allocation to the point where the connection is in the list.\<close>

definition connection_new ::
  "'w os \<Rightarrow> ptr \<Rightarrow> int \<Rightarrow> string \<Rightarrow> string \<Rightarrow> 'w state \<Rightarrow> (ptr \<times> 'w state) outcome" where
  "connection_new os svc fd2 peeraddr peerport s =
     obind (alloc_conn os s) (\<lambda>(conn, s).
     obind (upd_conn conn (\<lambda>c. c\<lparr>c_fd := fd2, c_svc := svc\<rparr>) s) (\<lambda>s.
     obind (strdup os peeraddr s) (\<lambda>(pa, s).
     obind (upd_conn conn (\<lambda>c. c\<lparr>c_peeraddr := pa\<rparr>) s) (\<lambda>s.
     obind (strdup os peerport s) (\<lambda>(pp, s).
     obind (upd_conn conn (\<lambda>c. c\<lparr>c_peerport := pp\<rparr>) s) (\<lambda>s.
     ok (conn, s)))))))"

definition connection_arm :: "'w os \<Rightarrow> ptr \<Rightarrow> ptr \<Rightarrow> ptr \<Rightarrow> 'w state \<Rightarrow> 'w state outcome" where
  "connection_arm os d svc conn s =
     obind (load_svc svc s) (\<lambda>v.
     let (now, s) = sys (os_time os) s in
     obind (load_disp d s) (\<lambda>D.
     with_tm (timeouts_add (d_inactivity D) (field conn OFF_INACTIVITY) OFF_INACTIVITY
       (timestamp_from_tv (now + ucast (s_cfg_timeout_inactivity v)) 0)) s))"

definition connection_list :: "'w os \<Rightarrow> ptr \<Rightarrow> ptr \<Rightarrow> 'w state \<Rightarrow> 'w state outcome" where
  "connection_list os d conn s =
     obind (load_disp d s) (\<lambda>D.
     obind (realloc_arr os (d_connections D) (d_connection_count D + 1) s) (\<lambda>(arr, s).
     obind (upd_disp d (\<lambda>D. D\<lparr>d_connections := arr\<rparr>) s) (\<lambda>s.
     obind (store_arr arr (d_connection_count D) conn s) (\<lambda>s.
     obind (upd_conn conn (\<lambda>c. c\<lparr>c_index := d_connection_count D\<rparr>) s) (\<lambda>s.
     obind (upd_disp d (\<lambda>D. D\<lparr>d_connection_count := d_connection_count D + 1\<rparr>) s) (\<lambda>s.
     ok (emit (count_line ''++'' (d_connection_count D + 1)) s)))))))"

definition connection_add ::
  "'w os \<Rightarrow> 'w callbacks \<Rightarrow> ptr \<Rightarrow> ptr \<Rightarrow> int \<Rightarrow> string \<Rightarrow> string \<Rightarrow> 'w state \<Rightarrow> (ptr \<times> 'w state) outcome" where
  "connection_add os cbs d svc fd2 peeraddr peerport s =
     obind (connection_new os svc fd2 peeraddr peerport s) (\<lambda>(conn, s).
     obind (connection_arm os d svc conn s) (\<lambda>s.
     obind (connection_list os d conn s) (\<lambda>s.
     obind (load_svc svc s) (\<lambda>v.
     obind (load_conn conn s) (\<lambda>c.
     obind (call_event cbs (s_event v) conn DISPATCH_NEW_CONNECTION (Some (connection_info c v)) s) (\<lambda>s.
     ok (conn, s)))))))"

section \<open>Timeouts\<close>

definition take_timeout :: "ptr \<Rightarrow> u64 \<Rightarrow> 'w state \<Rightarrow> (ptr \<times> 'w state) outcome" where
  "take_timeout t timestamp s = obind (timeouts_remove t timestamp (tm s)) (\<lambda>(p, m). ok (p, s\<lparr>tm := m\<rparr>))"

definition notify_timeout :: "'w callbacks \<Rightarrow> dispatch_event \<Rightarrow> ptr \<Rightarrow> 'w state \<Rightarrow> 'w state outcome" where
  "notify_timeout cbs ev conn s =
     obind (load_conn conn s) (\<lambda>c.
     obind (load_svc (c_svc c) s) (\<lambda>v. call_event cbs (s_event v) conn ev None s))"

partial_function (option) inactivity_loop ::
  "'w os \<Rightarrow> 'w callbacks \<Rightarrow> ptr \<Rightarrow> u64 \<Rightarrow> 'w state \<Rightarrow> 'w state outcome" where
  "inactivity_loop os cbs d timestamp s =
     obind (load_disp d s) (\<lambda>D.
     obind (take_timeout (d_inactivity D) timestamp s) (\<lambda>(conn, s).
     if conn = Null then ok s else
     obind (notify_timeout cbs DISPATCH_TIMEOUT_INACTIVITY conn s) (\<lambda>s.
     obind (load_conn conn s) (\<lambda>c.
     obind (connection_remove os cbs d (c_index c) s) (\<lambda>s.
     inactivity_loop os cbs d timestamp s)))))"

declare inactivity_loop.simps [code]

definition timeout_inactivity ::
  "'w os \<Rightarrow> 'w callbacks \<Rightarrow> ptr \<Rightarrow> u64 \<Rightarrow> u32 \<Rightarrow> 'w state \<Rightarrow> 'w state outcome" where
  "timeout_inactivity os cbs d secs usecs s = inactivity_loop os cbs d (TICKS_FROM_TV secs (ucast usecs)) s"

text \<open>
  The loops of \<open>timeout_sleep\<close> and \<open>timeout_receive\<close> differ in the event only: both take from
  \<open>d->timeouts.sleep\<close>.
\<close>

partial_function (option) sleep_loop ::
  "'w callbacks \<Rightarrow> ptr \<Rightarrow> dispatch_event \<Rightarrow> u64 \<Rightarrow> 'w state \<Rightarrow> 'w state outcome" where
  "sleep_loop cbs d ev timestamp s =
     obind (load_disp d s) (\<lambda>D.
     obind (take_timeout (d_sleep D) timestamp s) (\<lambda>(conn, s).
     if conn = Null then ok s else
     obind (notify_timeout cbs ev conn s) (\<lambda>s.
     sleep_loop cbs d ev timestamp s)))"

declare sleep_loop.simps [code]

definition timeout_sleep :: "'w callbacks \<Rightarrow> ptr \<Rightarrow> u64 \<Rightarrow> u32 \<Rightarrow> 'w state \<Rightarrow> 'w state outcome" where
  "timeout_sleep cbs d secs usecs s =
     sleep_loop cbs d DISPATCH_TIMEOUT_SLEEP (TICKS_FROM_TV secs (ucast usecs)) s"

definition timeout_receive :: "'w callbacks \<Rightarrow> ptr \<Rightarrow> u64 \<Rightarrow> u32 \<Rightarrow> 'w state \<Rightarrow> 'w state outcome" where
  "timeout_receive cbs d secs usecs s =
     sleep_loop cbs d DISPATCH_TIMEOUT_RECEIVE (TICKS_FROM_TV secs (ucast usecs)) s"

section \<open>dispatcher_dispatch\<close>

text \<open>
  The three \<open>fd_set\<close>s hold descriptors 0 to \<open>FD_SETSIZE - 1\<close>. The macros do not check their
  argument: outside that range they write or read outside the set.
\<close>

definition FD_SETSIZE :: int where
  "FD_SETSIZE = 1024"

record fdsets =
  nfds :: int
  readset :: "int set"
  writeset :: "int set"
  errset :: "int set"

definition fd_zero :: fdsets where
  "fd_zero = \<lparr>nfds = 0, readset = {}, writeset = {}, errset = {}\<rparr>"

definition fd_add :: "int \<Rightarrow> fdsets \<Rightarrow> fdsets outcome" where
  "fd_add fd f =
     (let f = (if nfds f < fd + 1 then f\<lparr>nfds := fd + 1\<rparr> else f) in
      if 0 \<le> fd \<and> fd < FD_SETSIZE
      then ok (f\<lparr>readset := insert fd (readset f), writeset := insert fd (writeset f),
                 errset := insert fd (errset f)\<rparr>)
      else raise Out_of_bounds)"

definition fd_isset :: "int \<Rightarrow> int set \<Rightarrow> bool outcome" where
  "fd_isset fd S = (if 0 \<le> fd \<and> fd < FD_SETSIZE then ok (fd \<in> S) else raise Out_of_bounds)"

text \<open>The descriptors of all services and connections go into all three sets.\<close>

definition service_at :: "ptr \<Rightarrow> nat \<Rightarrow> 'w state \<Rightarrow> service outcome" where
  "service_at d i s =
     obind (load_disp d s) (\<lambda>D. obind (load_arr (d_services D) i s) (\<lambda>p. load_svc p s))"

definition connection_at :: "ptr \<Rightarrow> nat \<Rightarrow> 'w state \<Rightarrow> (ptr \<times> connection) outcome" where
  "connection_at d i s =
     obind (load_disp d s) (\<lambda>D. obind (load_arr (d_connections D) i s) (\<lambda>p.
     obind (load_conn p s) (\<lambda>c. ok (p, c))))"

definition service_count :: "ptr \<Rightarrow> 'w state \<Rightarrow> nat outcome" where
  "service_count d s = obind (load_disp d s) (\<lambda>D. ok (d_service_count D))"

definition connection_count :: "ptr \<Rightarrow> 'w state \<Rightarrow> nat outcome" where
  "connection_count d s = obind (load_disp d s) (\<lambda>D. ok (d_connection_count D))"

definition build_fdsets :: "ptr \<Rightarrow> 'w state \<Rightarrow> fdsets outcome" where
  "build_fdsets d s =
     obind (for_loop (\<lambda>_. service_count d s)
              (\<lambda>i f. obind (service_at d i s) (\<lambda>v. obind (fd_add (s_fd v) f) (\<lambda>f. ok (i + 1, f)))) 0 fd_zero)
       (\<lambda>f. for_loop (\<lambda>_. connection_count d s)
              (\<lambda>i f. obind (connection_at d i s) (\<lambda>(_, c). obind (fd_add (c_fd c) f) (\<lambda>f. ok (i + 1, f)))) 0 f)"

definition peer_text :: "connection \<Rightarrow> service \<Rightarrow> 'w state \<Rightarrow> string outcome" where
  "peer_text c v s =
     obind (load_str (c_peeraddr c) s) (\<lambda>pa. obind (load_str (c_peerport c) s) (\<lambda>pp.
     obind (load_str (s_hostaddr v) s) (\<lambda>ha. obind (load_str (s_hostport v) s) (\<lambda>hport.
     ok (''['' @ pa @ '']:'' @ pp @ '' -> ['' @ ha @ '']:'' @ hport)))))"

definition host_text :: "service \<Rightarrow> 'w state \<Rightarrow> string outcome" where
  "host_text v s =
     obind (load_str (s_hostaddr v) s) (\<lambda>ha. obind (load_str (s_hostport v) s) (\<lambda>hport.
     ok (''['' @ ha @ '']:'' @ hport)))"

text \<open>One round of the loop that receives data. It returns the index of the next round.\<close>

definition receive_one ::
  "'w os \<Rightarrow> 'w callbacks \<Rightarrow> ptr \<Rightarrow> fdsets \<Rightarrow> nat \<Rightarrow> 'w state \<Rightarrow> (nat \<times> 'w state) outcome" where
  "receive_one os cbs d f i s =
     obind (connection_at d i s) (\<lambda>(conn, c).
     obind (fd_isset (c_fd c) (readset f)) (\<lambda>ready.
     if \<not> ready then ok (i + 1, s) else
     let (r, s) = sys (os_recv os (c_fd c) 65536) s in
     case r of
       None \<Rightarrow>
         obind (load_svc (c_svc c) s) (\<lambda>v. obind (peer_text c v s) (\<lambda>txt.
         ok (i + 1, emit (err_line [txt, '': recv(): '', errstr os s]) s)))
     | Some [] \<Rightarrow> obind (connection_remove os cbs d i s) (\<lambda>s. ok (i, s))
     | Some buf \<Rightarrow>
         obind (load_svc (c_svc c) s) (\<lambda>v.
         if s_recv v = 0 then ok (i + 1, s)
         else obind (call_recv cbs (s_recv v) conn (c_userdata c) buf s) (\<lambda>s. ok (i + 1, s)))))"

definition connection_error_one ::
  "'w os \<Rightarrow> ptr \<Rightarrow> fdsets \<Rightarrow> nat \<Rightarrow> 'w state \<Rightarrow> (nat \<times> 'w state) outcome" where
  "connection_error_one os d f i s =
     obind (connection_at d i s) (\<lambda>(conn, c).
     obind (fd_isset (c_fd c) (errset f)) (\<lambda>ready.
     if \<not> ready then ok (i + 1, s) else
     let (r, s) = sys (os_so_error os (c_fd c)) s in
     case r of
       None \<Rightarrow> ok (i + 1, emit (err_line [''dispatcher_dispatch:getsockopt(SO_ERROR) '', errstr os s]) s)
     | Some err2 \<Rightarrow>
         obind (load_svc (c_svc c) s) (\<lambda>v. obind (peer_text c v s) (\<lambda>txt.
         ok (i + 1, emit (err_line [txt, '': error: '', strerror os err2]) s)))))"

definition accept_one ::
  "'w os \<Rightarrow> 'w callbacks \<Rightarrow> ptr \<Rightarrow> fdsets \<Rightarrow> nat \<Rightarrow> 'w state \<Rightarrow> (nat \<times> 'w state) outcome" where
  "accept_one os cbs d f i s =
     obind (load_disp d s) (\<lambda>D. obind (load_arr (d_services D) i s) (\<lambda>svc.
     obind (load_svc svc s) (\<lambda>v.
     obind (fd_isset (s_fd v) (readset f)) (\<lambda>r. obind (fd_isset (s_fd v) (writeset f)) (\<lambda>w.
     if \<not> r \<and> \<not> w then ok (i + 1, s) else
     let ((fd2, peer), s) = sys (os_accept os (s_fd v)) s in
     if fd2 = -1
     then obind (host_text v s) (\<lambda>txt.
            ok (i + 1, emit (err_line [''dispatcher_dispatch:accept('', txt, ''): '', errstr os s]) s))
     else
     let s = emit (Accept fd2) s;
         ((err, peeraddr, peerport), s) = sys (os_getnameinfo os peer) s in
     if err \<noteq> 0
     then ok (i + 1, c_close os fd2
            (emit (err_line [''dispatcher_dispatch:getnameinfo(): '', gai_strerror os err]) s))
     else
     obind (host_text v s) (\<lambda>txt.
     let s = emit (Err (''[+] accept('' @ txt @ '') from ['' @ peeraddr @ '']:'' @ peerport @ newline)) s in
     obind (connection_add os cbs d svc fd2 peeraddr peerport s) (\<lambda>(conn, s). ok (i + 1, s))))))))"

definition service_error_one ::
  "'w os \<Rightarrow> ptr \<Rightarrow> fdsets \<Rightarrow> nat \<Rightarrow> 'w state \<Rightarrow> (nat \<times> 'w state) outcome" where
  "service_error_one os d f i s =
     obind (service_at d i s) (\<lambda>v.
     obind (fd_isset (s_fd v) (errset f)) (\<lambda>ready.
     if \<not> ready then ok (i + 1, s) else
     let (r, s) = sys (os_so_error os (s_fd v)) s in
     case r of
       None \<Rightarrow> ok (i + 1, emit (err_line [''dispatcher_dispatch:getsockopt(SO_ERROR) '', errstr os s]) s)
     | Some err2 \<Rightarrow>
         obind (host_text v s) (\<lambda>txt.
         ok (i + 1, emit (err_line [txt, '': error: '', strerror os err2]) s))))"

text \<open>The part after \<open>select\<close> has returned a value other than 0.\<close>

definition process_events ::
  "'w os \<Rightarrow> 'w callbacks \<Rightarrow> ptr \<Rightarrow> fdsets \<Rightarrow> 'w state \<Rightarrow> 'w state outcome" where
  "process_events os cbs d f s =
     obind (for_loop (connection_count d) (receive_one os cbs d f) 0 s) (\<lambda>s.
     obind (for_loop (connection_count d) (connection_error_one os d f) 0 s) (\<lambda>s.
     obind (for_loop (service_count d) (accept_one os cbs d f) 0 s) (\<lambda>s.
     for_loop (service_count d) (service_error_one os d f) 0 s)))"

definition process_timeouts :: "'w os \<Rightarrow> 'w callbacks \<Rightarrow> ptr \<Rightarrow> 'w state \<Rightarrow> 'w state outcome" where
  "process_timeouts os cbs d s =
     (let (now, s) = sys (os_time os) s in
      obind (timeout_inactivity os cbs d now 0 s) (\<lambda>s.
      let (now, s) = sys (os_time os) s in
      obind (timeout_sleep cbs d now 0 s) (\<lambda>s.
      let (now, s) = sys (os_time os) s in
      timeout_receive cbs d now 0 s)))"

definition do_select :: "'w os \<Rightarrow> fdsets \<Rightarrow> u32 \<Rightarrow> 'w state \<Rightarrow> (int \<times> fdsets) \<times> 'w state" where
  "do_select os f milliseconds s =
     (let ((err, rd, wr, er), s) =
        sys (os_select os (nfds f) (readset f) (writeset f) (errset f) (ucast (milliseconds * 1000))) s
      in ((err, f\<lparr>readset := rd, writeset := wr, errset := er\<rparr>), s))"

definition dispatcher_dispatch ::
  "'w os \<Rightarrow> 'w callbacks \<Rightarrow> ptr \<Rightarrow> u32 \<Rightarrow> 'w state \<Rightarrow> (int \<times> 'w state) outcome" where
  "dispatcher_dispatch os cbs d milliseconds s =
     obind (build_fdsets d s) (\<lambda>f.
     let ((err, f), s) = do_select os f milliseconds s;
         s = (if err < 0
              then let s = emit (err_line [''dispatcher_dispatch:select('', show_int (nfds f), '') '', errstr os s]) s
                   in s\<lparr>world := os_sleep os (milliseconds * 2 div 1000) (world s)\<rparr>
              else s)
     in if err = 0 then ok (0, s)
        else obind (process_events os cbs d f s) (\<lambda>s.
             obind (process_timeouts os cbs d s) (\<lambda>s. ok (1, s))))"

end
