(* ===== verification/Dispatch_Inv.thy ===== *)
theory Dispatch_Inv
  imports Dispatch Timer_Wheel
begin

text \<open>
  The well-formedness invariant of a dispatcher.

  A \<open>view\<close> is what a dispatcher stands for: its record, its services, the blocks of the listed
  connections in list order, the connections that are allocated but not (or no longer) listed, and
  the map of its armed timers. \<open>dinv P d V h m\<close> says that heap \<open>h\<close> and timer store \<open>m\<close> represent the
  view \<open>V\<close> of the dispatcher in block \<open>d\<close>, with every service satisfying \<open>P\<close>:
  the arrays hold the listed pointers, connection number \<open>i\<close> knows its index \<open>i\<close>, there is no
  connection object that is not listed or in limbo, every string and service a connection points at
  is allocated, the numbers fit \<open>size_t\<close>, the timer entries that exist are exactly those inside
  connections, and whatever is armed is armed in the inactivity ring.
\<close>

abbreviation conn_ptr :: "nat \<Rightarrow> ptr" where
  "conn_ptr b \<equiv> Ptr b 0"

record view =
  v_disp :: dispatcher
  v_svcs :: "ptr list"
  v_conns :: "nat list"
  v_limbo :: "nat set"
  v_map :: timer_map

definition str_ok :: "obj heap \<Rightarrow> ptr \<Rightarrow> bool" where
  "str_ok h p \<longleftrightarrow> (\<exists>b str. p = Ptr b 0 \<and> live h b = Some (OStr str))"

definition svc_ok :: "(service \<Rightarrow> bool) \<Rightarrow> obj heap \<Rightarrow> ptr \<Rightarrow> bool" where
  "svc_ok P h p \<longleftrightarrow> (\<exists>b v. p = Ptr b 0 \<and> live h b = Some (OSvc v) \<and> P v \<and>
     str_ok h (s_hostaddr v) \<and> str_ok h (s_hostport v))"

definition conn_ok :: "(service \<Rightarrow> bool) \<Rightarrow> obj heap \<Rightarrow> connection \<Rightarrow> bool" where
  "conn_ok P h c \<longleftrightarrow> svc_ok P h (c_svc c) \<and> str_ok h (c_peeraddr c) \<and> str_ok h (c_peerport c)"

definition arr_ok :: "obj heap \<Rightarrow> ptr \<Rightarrow> ptr list \<Rightarrow> bool" where
  "arr_ok h p xs \<longleftrightarrow> (xs = [] \<and> p = Null) \<or>
     (\<exists>b ys. p = Ptr b 0 \<and> live h b = Some (OArr ys) \<and> length xs \<le> length ys \<and> take (length xs) ys = xs)"

definition inact :: "nat \<Rightarrow> ptr" where
  "inact b = Ptr b OFF_INACTIVITY"

definition timer_inv :: "dispatcher \<Rightarrow> timer_map \<Rightarrow> nat set \<Rightarrow> tmem \<Rightarrow> bool" where
  "timer_inv D A all m \<longleftrightarrow>
     timers m A \<and>
     (\<exists>r. d_inactivity D = Ptr r 0 \<and> rings m r \<noteq> None \<and>
        (\<forall>e x. A e = Some x \<longrightarrow> (\<exists>b ts. e = inact b \<and> b \<in> all \<and> x = (r, ts, OFF_INACTIVITY)))) \<and>
     (\<forall>e. ents m e \<noteq> None \<longleftrightarrow> (\<exists>b \<in> all. e \<in> set (entry_ptrs (conn_ptr b)))) \<and>
     (d_sleep D = Null \<or> (\<exists>q. d_sleep D = Ptr q 0 \<and> rings m q \<noteq> None \<and> d_sleep D \<noteq> d_inactivity D))"

definition arrays_ok :: "(service \<Rightarrow> bool) \<Rightarrow> view \<Rightarrow> obj heap \<Rightarrow> bool" where
  "arrays_ok P V h \<longleftrightarrow>
     d_service_count (v_disp V) = length (v_svcs V) \<and> arr_ok h (d_services (v_disp V)) (v_svcs V) \<and>
     d_connection_count (v_disp V) = length (v_conns V) \<and>
     arr_ok h (d_connections (v_disp V)) (map conn_ptr (v_conns V)) \<and>
     (d_services (v_disp V) = Null \<or> d_services (v_disp V) \<noteq> d_connections (v_disp V)) \<and>
     (\<forall>p \<in> set (v_svcs V). svc_ok P h p) \<and>
     length (v_svcs V) < 2 ^ 61 \<and> length (v_conns V) < 2 ^ 61"

definition conns_ok :: "(service \<Rightarrow> bool) \<Rightarrow> view \<Rightarrow> obj heap \<Rightarrow> bool" where
  "conns_ok P V h \<longleftrightarrow>
     distinct (v_conns V) \<and> set (v_conns V) \<inter> v_limbo V = {} \<and>
     (\<forall>i < length (v_conns V). \<exists>c. live h (v_conns V ! i) = Some (OConn c) \<and> c_index c = i \<and> conn_ok P h c) \<and>
     (\<forall>b. (\<exists>c. live h b = Some (OConn c)) \<longleftrightarrow> b \<in> set (v_conns V) \<union> v_limbo V)"

text \<open>Between the calls of the dispatcher's operations every listed connection is armed.\<close>

definition all_armed :: "view \<Rightarrow> bool" where
  "all_armed V \<longleftrightarrow> (\<forall>b \<in> set (v_conns V). v_map V (inact b) \<noteq> None)"

definition dinv :: "(service \<Rightarrow> bool) \<Rightarrow> nat \<Rightarrow> view \<Rightarrow> obj heap \<Rightarrow> tmem \<Rightarrow> bool" where
  "dinv P d V h m \<longleftrightarrow>
     heap_wf h \<and> live h d = Some (ODisp (v_disp V)) \<and> arrays_ok P V h \<and> conns_ok P V h \<and>
     timer_inv (v_disp V) (v_map V) (set (v_conns V) \<union> v_limbo V) m"

lemma dinvD:
  assumes "dinv P d V h m"
  shows "heap_wf h" "live h d = Some (ODisp (v_disp V))" "arrays_ok P V h" "conns_ok P V h"
    "timer_inv (v_disp V) (v_map V) (set (v_conns V) \<union> v_limbo V) m"
  using assms by (simp_all add: dinv_def)

lemma dinv_conn_iff:
  "dinv P d V h m \<Longrightarrow> (\<exists>c. live h b = Some (OConn c)) \<longleftrightarrow> b \<in> set (v_conns V) \<union> v_limbo V"
  by (simp add: dinv_def conns_ok_def)

lemma timer_invD:
  assumes "timer_inv D A all m"
  shows "timers m A"
    and "\<exists>r. d_inactivity D = Ptr r 0 \<and> rings m r \<noteq> None \<and>
        (\<forall>e x. A e = Some x \<longrightarrow> (\<exists>b ts. e = inact b \<and> b \<in> all \<and> x = (r, ts, OFF_INACTIVITY)))"
    and "\<And>e. ents m e \<noteq> None \<longleftrightarrow> (\<exists>b \<in> all. e \<in> set (entry_ptrs (conn_ptr b)))"
    and "d_sleep D = Null \<or> (\<exists>q. d_sleep D = Ptr q 0 \<and> rings m q \<noteq> None \<and> d_sleep D \<noteq> d_inactivity D)"
  using assms unfolding timer_inv_def by blast+

section \<open>Access\<close>

lemma load_obj_ok [simp]: "live (hp s) b = Some ob \<Longrightarrow> load_obj (Ptr b 0) s = ok ob"
  by (simp add: load_obj_def)

lemma load_disp_ok [simp]: "live (hp s) b = Some (ODisp D) \<Longrightarrow> load_disp (Ptr b 0) s = ok D"
  by (simp add: load_disp_def)

lemma load_svc_ok [simp]: "live (hp s) b = Some (OSvc v) \<Longrightarrow> load_svc (Ptr b 0) s = ok v"
  by (simp add: load_svc_def)

lemma load_conn_ok [simp]: "live (hp s) b = Some (OConn c) \<Longrightarrow> load_conn (Ptr b 0) s = ok c"
  by (simp add: load_conn_def)

lemma load_str_ok [simp]: "live (hp s) b = Some (OStr str) \<Longrightarrow> load_str (Ptr b 0) s = ok str"
  by (simp add: load_str_def)

lemma load_arr_ok [simp]:
  "live (hp s) b = Some (OArr xs) \<Longrightarrow> i < length xs \<Longrightarrow> load_arr (Ptr b 0) i s = ok (xs ! i)"
  by (simp add: load_arr_def)

lemma store_obj_simps [simp]:
  "hp (store_obj p ob s) = (hp s)\<lparr>live := (live (hp s))(blk p \<mapsto> ob)\<rparr>"
  "tm (store_obj p ob s) = tm s" "world (store_obj p ob s) = world s" "trace (store_obj p ob s) = trace s"
  by (simp_all add: store_obj_def)

lemma store_arr_ok [simp]:
  "live (hp s) b = Some (OArr xs) \<Longrightarrow> i < length xs \<Longrightarrow>
     store_arr (Ptr b 0) i q s = ok (store_obj (Ptr b 0) (OArr (xs[i := q])) s)"
  by (simp add: store_arr_def)

lemma upd_disp_ok [simp]:
  "live (hp s) b = Some (ODisp D) \<Longrightarrow> upd_disp (Ptr b 0) f s = ok (store_obj (Ptr b 0) (ODisp (f D)) s)"
  by (simp add: upd_disp_def)

lemma upd_conn_ok [simp]:
  "live (hp s) b = Some (OConn c) \<Longrightarrow> upd_conn (Ptr b 0) f s = ok (store_obj (Ptr b 0) (OConn (f c)) s)"
  by (simp add: upd_conn_def)

lemma upd_svc_ok [simp]:
  "live (hp s) b = Some (OSvc v) \<Longrightarrow> upd_svc (Ptr b 0) f s = ok (store_obj (Ptr b 0) (OSvc (f v)) s)"
  by (simp add: upd_svc_def)

lemma emit_simps [simp]:
  "hp (emit a s) = hp s" "tm (emit a s) = tm s" "world (emit a s) = world s"
  "trace (emit a s) = trace s @ [a]"
  by (simp_all add: emit_def)

lemma c_close_simps [simp]:
  "hp (c_close os fd s) = hp s" "tm (c_close os fd s) = tm s"
  "trace (c_close os fd s) = trace s @ [Close fd]"
  by (simp_all add: c_close_def)

lemma sys_simps:
  "sys f s = (r, s') \<Longrightarrow> hp s' = hp s \<and> tm s' = tm s \<and> trace s' = trace s"
  by (auto simp: sys_def split: prod.splits)

lemma field_simps' [simp]: "field (Ptr b 0) off = Ptr b off"
  by (simp add: field_def)

lemma set_entry_ptrs [simp]:
  "set (entry_ptrs (Ptr b 0)) = {Ptr b OFF_INACTIVITY, Ptr b OFF_SLEEP, Ptr b OFF_RECEIVE}"
  by (simp add: entry_ptrs_def)

lemma offsets_distinct [simp]:
  "OFF_INACTIVITY \<noteq> OFF_SLEEP" "OFF_INACTIVITY \<noteq> OFF_RECEIVE" "OFF_SLEEP \<noteq> OFF_RECEIVE"
  "OFF_SLEEP \<noteq> OFF_INACTIVITY" "OFF_RECEIVE \<noteq> OFF_INACTIVITY" "OFF_RECEIVE \<noteq> OFF_SLEEP"
  by (simp_all add: OFF_INACTIVITY_def OFF_SLEEP_def OFF_RECEIVE_def)

lemma inact_inject [simp]: "inact b = inact b' \<longleftrightarrow> b = b'"
  by (simp add: inact_def)

lemma arr_ok_nth:
  assumes "arr_ok (hp s) p xs" "i < length xs"
  shows "load_arr p i s = ok (xs ! i)"
  using assms by (auto simp: arr_ok_def) (metis nth_take)

section \<open>Monotonicity in the heap\<close>

text \<open>Strings and services are never changed or freed once a connection can see them.\<close>

definition keeps :: "obj heap \<Rightarrow> obj heap \<Rightarrow> bool" where
  "keeps h h' \<longleftrightarrow>
     (\<forall>b str. live h b = Some (OStr str) \<longrightarrow> live h' b = Some (OStr str)) \<and>
     (\<forall>b v. live h b = Some (OSvc v) \<longrightarrow> live h' b = Some (OSvc v))"

lemma str_ok_mono: "str_ok h p \<Longrightarrow> keeps h h' \<Longrightarrow> str_ok h' p"
  by (auto simp: str_ok_def keeps_def)

lemma svc_ok_mono: "svc_ok P h p \<Longrightarrow> keeps h h' \<Longrightarrow> svc_ok P h' p"
  unfolding svc_ok_def by (metis str_ok_mono keeps_def)

lemma conn_ok_mono: "conn_ok P h c \<Longrightarrow> keeps h h' \<Longrightarrow> conn_ok P h' c"
  by (auto simp: conn_ok_def intro: str_ok_mono svc_ok_mono)

lemma conn_ok_upd [simp]:
  "conn_ok P h (c\<lparr>c_userdata := u\<rparr>) = conn_ok P h c"
  "conn_ok P h (c\<lparr>c_index := i\<rparr>) = conn_ok P h c"
  "conn_ok P h (c\<lparr>c_fd := fd\<rparr>) = conn_ok P h c"
  by (simp_all add: conn_ok_def)

lemma arr_ok_cong: "(\<And>b. p = Ptr b 0 \<Longrightarrow> live h' b = live h b) \<Longrightarrow> arr_ok h' p xs = arr_ok h p xs"
  by (auto simp: arr_ok_def)

end
