(* ===== verification/Dispatch_Steps.thy ===== *)
theory Dispatch_Steps
  imports Dispatch_Inv Timer_Queue
begin

text \<open>
  How the invariant of a dispatcher follows the elementary steps of its operations: allocating a
  string or a connection, writing a connection, changing the timers, listing and unlisting a
  connection, freeing it. The frame of an application callback is among them: a callback may print,
  allocate and free blocks of its own and set the user data of connections.
\<close>

section \<open>Steps that leave the arrays alone\<close>

definition conn_same :: "connection \<Rightarrow> connection \<Rightarrow> bool" where
  "conn_same c c' \<longleftrightarrow> c_index c' = c_index c \<and> c_svc c' = c_svc c \<and>
     c_peeraddr c' = c_peeraddr c \<and> c_peerport c' = c_peerport c"

lemma conn_same_ok: "conn_same c c' \<Longrightarrow> conn_ok P h c' = conn_ok P h c"
  by (simp add: conn_same_def conn_ok_def)

lemma conn_same_upd [simp]:
  "conn_same c (c\<lparr>c_userdata := u\<rparr>)" "conn_same c (c\<lparr>c_fd := fd\<rparr>)" "conn_same c c"
  by (simp_all add: conn_same_def)

lemma dinv_change:
  assumes I: "dinv P d V h m" and wf: "heap_wf h'" and k: "keeps h h'"
    and d: "live h' d = live h d"
    and arr: "\<And>b xs. live h b = Some (OArr xs) \<Longrightarrow> live h' b = live h b"
    and conns: "\<And>b c. b \<in> set (v_conns V) \<Longrightarrow> live h b = Some (OConn c) \<Longrightarrow>
      \<exists>c'. live h' b = Some (OConn c') \<and> conn_same c c'"
    and all: "\<And>b. (\<exists>c. live h' b = Some (OConn c)) \<longleftrightarrow> b \<in> set (v_conns V) \<union> lim"
    and lim: "set (v_conns V) \<inter> lim = {}"
    and t: "timer_inv (v_disp V) A (set (v_conns V) \<union> lim) m'"
  shows "dinv P d (V\<lparr>v_limbo := lim, v_map := A\<rparr>) h' m'"
proof -
  have arr': "arr_ok h' p xs" if "arr_ok h p xs" for p xs
    using that arr by (auto simp: arr_ok_def)
  have "arrays_ok P (V\<lparr>v_limbo := lim, v_map := A\<rparr>) h'"
    using dinvD(3) [OF I] arr' svc_ok_mono [OF _ k] by (simp add: arrays_ok_def)
  moreover have "\<exists>c. live h' (v_conns V ! i) = Some (OConn c) \<and> c_index c = i \<and> conn_ok P h' c"
    if i: "i < length (v_conns V)" for i
  proof -
    obtain c where c: "live h (v_conns V ! i) = Some (OConn c)" "c_index c = i" "conn_ok P h c"
      using dinvD(4) [OF I] i by (auto simp: conns_ok_def)
    obtain c' where c': "live h' (v_conns V ! i) = Some (OConn c')" "conn_same c c'"
      using conns [OF _ c(1)] i by auto
    have "conn_ok P h' c'"
      using conn_ok_mono [OF c(3) k] conn_same_ok [OF c'(2)] by simp
    with c c' show ?thesis by (auto simp: conn_same_def)
  qed
  ultimately show ?thesis
    using I wf d all lim t by (simp add: dinv_def conns_ok_def)
qed

text \<open>Allocating a string or a block of the application.\<close>

lemma dinv_alloc_other:
  assumes I: "dinv P d V h m" and a: "allocated h ob p h'" and ob: "\<And>c. ob \<noteq> OConn c"
  shows "dinv P d V h' m"
proof -
  obtain b where b: "next_block h \<le> b" "b < next_block h'" "live h' = (live h)(b \<mapsto> ob)"
    using a by (auto simp: allocated_def)
  have fresh: "live h b = None"
    using dinvD(1) [OF I] b(1) by (auto simp: heap_wf_def)
  have "dinv P d (V\<lparr>v_limbo := v_limbo V, v_map := v_map V\<rparr>) h' m"
  proof (rule dinv_change [OF I])
    show "heap_wf h'"
      using dinvD(1) [OF I] b by (auto simp: heap_wf_def split: if_splits)
    show "(\<exists>c. live h' b' = Some (OConn c)) \<longleftrightarrow> b' \<in> set (v_conns V) \<union> v_limbo V" for b'
      using dinv_conn_iff [OF I, of b'] b(3) fresh ob by (cases "b' = b") simp_all
  qed (use I b fresh in \<open>auto simp: keeps_def dinv_def conns_ok_def\<close>)
  then show ?thesis by simp
qed

text \<open>Writing a connection: anything in limbo, the user data and the descriptor in the list.\<close>

lemma dinv_store_conn:
  assumes I: "dinv P d V h m" and c: "live h b = Some (OConn c)"
    and c': "b \<in> v_limbo V \<or> conn_same c c'"
  shows "dinv P d V (h\<lparr>live := (live h)(b \<mapsto> OConn c')\<rparr>) m"
proof -
  have "dinv P d (V\<lparr>v_limbo := v_limbo V, v_map := v_map V\<rparr>) (h\<lparr>live := (live h)(b \<mapsto> OConn c')\<rparr>) m"
  proof (rule dinv_change [OF I])
    show "heap_wf (h\<lparr>live := (live h)(b \<mapsto> OConn c')\<rparr>)"
      using dinvD(1) [OF I] c by (auto simp: heap_wf_def)
    show "\<exists>c''. live (h\<lparr>live := (live h)(b \<mapsto> OConn c')\<rparr>) b' = Some (OConn c'') \<and> conn_same c0 c''"
      if "b' \<in> set (v_conns V)" "live h b' = Some (OConn c0)" for b' c0
      using that c c' dinvD(4) [OF I] by (auto simp: conns_ok_def)
    show "(\<exists>c''. live (h\<lparr>live := (live h)(b \<mapsto> OConn c')\<rparr>) b' = Some (OConn c'')) \<longleftrightarrow>
        b' \<in> set (v_conns V) \<union> v_limbo V" for b'
      using dinvD(4) [OF I] c by (auto simp: conns_ok_def)
  qed (use I c in \<open>auto simp: keeps_def dinv_def conns_ok_def\<close>)
  then show ?thesis by simp
qed

text \<open>Replacing the timer store.\<close>

lemma dinv_timers:
  assumes "dinv P d V h m"
    and "timer_inv (v_disp V) A (set (v_conns V) \<union> v_limbo V) m'"
  shows "dinv P d (V\<lparr>v_map := A\<rparr>) h m'"
  using assms by (simp add: dinv_def arrays_ok_def conns_ok_def)

section \<open>Application callbacks\<close>

definition obj_core :: "obj option \<Rightarrow> obj option" where
  "obj_core x = (case x of
     Some (OConn c) \<Rightarrow> Some (OConn (c\<lparr>c_userdata := Null\<rparr>))
   | Some (OTelnet t) \<Rightarrow> None
   | _ \<Rightarrow> x)"

definition app_frame :: "obj heap \<Rightarrow> obj heap \<Rightarrow> bool" where
  "app_frame h h' \<longleftrightarrow> (heap_wf h \<longrightarrow> heap_wf h') \<and> (\<forall>b. obj_core (live h' b) = obj_core (live h b))"

lemma app_frame_refl [simp]: "app_frame h h"
  by (simp add: app_frame_def)

lemma app_frame_trans: "app_frame h h1 \<Longrightarrow> app_frame h1 h2 \<Longrightarrow> app_frame h h2"
  by (simp add: app_frame_def)

lemma obj_core_eq_simps:
  "obj_core x = Some (ODisp D) \<longleftrightarrow> x = Some (ODisp D)"
  "obj_core x = Some (OSvc v) \<longleftrightarrow> x = Some (OSvc v)"
  "obj_core x = Some (OArr xs) \<longleftrightarrow> x = Some (OArr xs)"
  "obj_core x = Some (OStr str) \<longleftrightarrow> x = Some (OStr str)"
  "(\<exists>c. x = Some (OConn c)) \<longleftrightarrow> (\<exists>c. obj_core x = Some (OConn c))"
  by (auto simp: obj_core_def split: option.splits obj.splits)

lemma obj_core_conn: "obj_core x = Some (OConn (c\<lparr>c_userdata := Null\<rparr>)) \<Longrightarrow> \<exists>u. x = Some (OConn (c\<lparr>c_userdata := u\<rparr>))"
  by (auto simp: obj_core_def split: option.splits obj.splits)
    (metis connection.surjective connection.update_convs(3))

lemma app_frame_conn:
  assumes "app_frame h h'" "live h b = Some (OConn c)"
  shows "\<exists>u. live h' b = Some (OConn (c\<lparr>c_userdata := u\<rparr>))"
proof -
  have "obj_core (live h' b) = Some (OConn (c\<lparr>c_userdata := Null\<rparr>))"
    using assms by (simp add: app_frame_def obj_core_def)
  then show ?thesis by (rule obj_core_conn)
qed

lemma app_frame_same:
  assumes "app_frame h h'"
  shows "live h' b = Some (ODisp D) \<longleftrightarrow> live h b = Some (ODisp D)"
    "live h' b = Some (OSvc v) \<longleftrightarrow> live h b = Some (OSvc v)"
    "live h' b = Some (OArr xs) \<longleftrightarrow> live h b = Some (OArr xs)"
    "live h' b = Some (OStr str) \<longleftrightarrow> live h b = Some (OStr str)"
    "(\<exists>c. live h' b = Some (OConn c)) \<longleftrightarrow> (\<exists>c. live h b = Some (OConn c))"
proof -
  have core: "obj_core (live h' b) = obj_core (live h b)"
    using assms by (simp add: app_frame_def)
  note iff = obj_core_eq_simps [of "live h' b"] obj_core_eq_simps [of "live h b"]
  show "live h' b = Some (ODisp D) \<longleftrightarrow> live h b = Some (ODisp D)"
    by (simp only: core flip: iff(1,6))
  show "live h' b = Some (OSvc v) \<longleftrightarrow> live h b = Some (OSvc v)"
    by (simp only: core flip: iff(2,7))
  show "live h' b = Some (OArr xs) \<longleftrightarrow> live h b = Some (OArr xs)"
    by (simp only: core flip: iff(3,8))
  show "live h' b = Some (OStr str) \<longleftrightarrow> live h b = Some (OStr str)"
    by (simp only: core flip: iff(4,9))
  show "(\<exists>c. live h' b = Some (OConn c)) \<longleftrightarrow> (\<exists>c. live h b = Some (OConn c))"
    by (simp only: core iff(5,10))
qed

lemma app_frame_keeps: "app_frame h h' \<Longrightarrow> keeps h h'"
  by (simp add: keeps_def app_frame_same)

lemma dinv_app_frame:
  assumes I: "dinv P d V h m" and f: "app_frame h h'"
  shows "dinv P d V h' m"
proof -
  have "dinv P d (V\<lparr>v_limbo := v_limbo V, v_map := v_map V\<rparr>) h' m"
  proof (rule dinv_change [OF I _ app_frame_keeps [OF f]])
    show "heap_wf h'"
      using dinvD(1) [OF I] f by (simp add: app_frame_def)
    show "live h' d = live h d"
      using dinvD(2) [OF I] app_frame_same(1) [OF f] by simp
    show "\<exists>c'. live h' b = Some (OConn c') \<and> conn_same c c'" if "live h b = Some (OConn c)" for b c
      using app_frame_conn [OF f that] by auto
    show "live h' b = live h b" if "live h b = Some (OArr xs)" for b xs
      using that app_frame_same(3) [OF f] by simp
    show "(\<exists>c. live h' b = Some (OConn c)) \<longleftrightarrow> b \<in> set (v_conns V) \<union> v_limbo V" for b
      using dinvD(4) [OF I] app_frame_same(5) [OF f] by (simp add: conns_ok_def)
  qed (use I in \<open>auto simp: dinv_def conns_ok_def\<close>)
  then show ?thesis by simp
qed

section \<open>Timer entries appear and disappear with their connection\<close>

lemma wheel_other_entries:
  assumes W: "wheel m A L" and rings: "rings m' = rings m"
    and same: "\<And>e. A e \<noteq> None \<Longrightarrow> ents m' e = ents m e"
    and new: "\<And>e E. A e = None \<Longrightarrow> ents m' e = Some E \<Longrightarrow> E = zero_entry \<or> ents m e = Some E"
  shows "wheel m' A L"
proof (rule wheelI)
  fix r R i
  assume R: "rings m' r = Some R" and i: "i < SLOTS"
  have "dseg (ents m') (LSlot r i) (slots R i) (L r i) = dseg (ents m) (LSlot r i) (slots R i) (L r i)"
    using wheelD(4) [OF W] by (intro dseg_cong same) fastforce
  then show "dseg (ents m') (LSlot r i) (slots R i) (L r i)"
    using wheelD(1) [OF W _ i] R rings by simp
next
  fix p E
  assume "ents m' p = Some E" and A: "A p = None"
  with new [OF A] wheelD(5) [OF W _ A] show "te_prev E = LNull \<and> te_next E = Null"
    by (auto simp: zero_entry_def)
qed (use wheelD(2-4) [OF W] rings same in auto)

lemma timers_other_entries:
  assumes "timers m A" "rings m' = rings m" "\<And>e. A e \<noteq> None \<Longrightarrow> ents m' e = ents m e"
    and "\<And>e E. A e = None \<Longrightarrow> ents m' e = Some E \<Longrightarrow> E = zero_entry \<or> ents m e = Some E"
  shows "timers m' A"
  using assms(1) wheel_other_entries [OF _ assms(2-4)] unfolding timers_def by blast

text \<open>The entries of block \<open>b\<close> appear; the entries of a block without armed entries disappear.\<close>

lemma timer_inv_new_conn:
  assumes T: "timer_inv D A all m" and b: "b \<notin> all"
  shows "timer_inv D A (insert b all)
    (m\<lparr>ents := (\<lambda>e. if e \<in> set (entry_ptrs (conn_ptr b)) then Some zero_entry else ents m e)\<rparr>)"
    (is "timer_inv _ _ _ ?m")
proof -
  note I = timer_invD [OF T]
  obtain r where r: "d_inactivity D = Ptr r 0" "rings m r \<noteq> None"
      "\<And>e x. A e = Some x \<Longrightarrow> \<exists>b ts. e = inact b \<and> b \<in> all \<and> x = (r, ts, OFF_INACTIVITY)"
    using I(2) by blast
  have A: "A e = None" if "e \<in> set (entry_ptrs (conn_ptr b))" for e
  proof (cases "A e")
    case (Some x)
    with r(3) b that show ?thesis by (fastforce simp: inact_def)
  qed
  have "timers ?m A"
  proof (rule timers_other_entries [OF I(1)])
    show "ents ?m e = ents m e" if "A e \<noteq> None" for e
      using that A [of e] by (cases "e \<in> set (entry_ptrs (conn_ptr b))") simp_all
  qed (simp_all del: set_entry_ptrs split: if_splits)
  moreover have "\<exists>r. d_inactivity D = Ptr r 0 \<and> rings ?m r \<noteq> None \<and>
      (\<forall>e x. A e = Some x \<longrightarrow> (\<exists>b' ts. e = inact b' \<and> b' \<in> insert b all \<and> x = (r, ts, OFF_INACTIVITY)))"
  proof -
    have "\<exists>b' ts. e = inact b' \<and> b' \<in> insert b all \<and> x = (r, ts, OFF_INACTIVITY)" if "A e = Some x" for e x
      using r(3) [OF that] by blast
    with r(1,2) show ?thesis by (intro exI [of _ r]) simp
  qed
  moreover have "ents ?m e \<noteq> None \<longleftrightarrow> (\<exists>b \<in> insert b all. e \<in> set (entry_ptrs (conn_ptr b)))" for e
    using I(3) [of e] unfolding bex_simps by (cases "e \<in> set (entry_ptrs (conn_ptr b))") simp_all
  ultimately show ?thesis
    using I(4) unfolding timer_inv_def by simp
qed

lemma timer_inv_drop_conn:
  assumes T: "timer_inv D A all m" and b: "A (inact b) = None"
  shows "timer_inv D A (all - {b})
    (m\<lparr>ents := (\<lambda>e. if e \<in> set (entry_ptrs (conn_ptr b)) then None else ents m e)\<rparr>)"
    (is "timer_inv _ _ _ ?m")
proof -
  note I = timer_invD [OF T]
  obtain r where r: "d_inactivity D = Ptr r 0" "rings m r \<noteq> None"
      "\<And>e x. A e = Some x \<Longrightarrow> \<exists>b ts. e = inact b \<and> b \<in> all \<and> x = (r, ts, OFF_INACTIVITY)"
    using I(2) by blast
  have other: "\<exists>b' ts. e = inact b' \<and> b' \<in> all - {b} \<and> x = (r, ts, OFF_INACTIVITY)" if "A e = Some x" for e x
    using r(3) [OF that] b that by auto
  have "timers ?m A"
  proof (rule timers_other_entries [OF I(1)])
    show "ents ?m e = ents m e" if "A e \<noteq> None" for e
      using that other by (force simp: inact_def)
  qed (auto split: if_splits)
  moreover have "\<exists>r. d_inactivity D = Ptr r 0 \<and> rings ?m r \<noteq> None \<and>
      (\<forall>e x. A e = Some x \<longrightarrow> (\<exists>b' ts. e = inact b' \<and> b' \<in> all - {b} \<and> x = (r, ts, OFF_INACTIVITY)))"
    using r other by (intro exI [of _ r]) simp
  moreover have "ents ?m e \<noteq> None \<longleftrightarrow> (\<exists>b' \<in> all - {b}. e \<in> set (entry_ptrs (conn_ptr b')))" for e
    using I(3) [of e] by auto
  ultimately show ?thesis
    using I(4) unfolding timer_inv_def by simp
qed

section \<open>The three operations on the inactivity timers\<close>

lemma timer_invI:
  assumes "timers m A" "d_inactivity D = Ptr r 0" "rings m r \<noteq> None"
    and "\<And>e x. A e = Some x \<Longrightarrow> \<exists>b ts. e = inact b \<and> b \<in> all \<and> x = (r, ts, OFF_INACTIVITY)"
    and "\<And>e. ents m e \<noteq> None \<longleftrightarrow> (\<exists>b \<in> all. e \<in> set (entry_ptrs (conn_ptr b)))"
    and "d_sleep D = Null \<or> (\<exists>q. d_sleep D = Ptr q 0 \<and> rings m q \<noteq> None \<and> d_sleep D \<noteq> d_inactivity D)"
  shows "timer_inv D A all m"
  using assms unfolding timer_inv_def by blast

lemma timer_invE:
  assumes "timer_inv D A all m"
  obtains r where "timers m A" "d_inactivity D = Ptr r 0" "rings m r \<noteq> None"
    and "\<And>e x. A e = Some x \<Longrightarrow> \<exists>b ts. e = inact b \<and> b \<in> all \<and> x = (r, ts, OFF_INACTIVITY)"
    and "\<And>e. ents m e \<noteq> None \<longleftrightarrow> (\<exists>b \<in> all. e \<in> set (entry_ptrs (conn_ptr b)))"
    and "d_sleep D = Null \<or> (\<exists>q. d_sleep D = Ptr q 0 \<and> rings m q \<noteq> None \<and> d_sleep D \<noteq> d_inactivity D)"
  using assms unfolding timer_inv_def by blast

lemma timer_inv_change:
  assumes "timer_inv D A all m" and "timers m' A'"
    and "\<And>q. rings m' q = None \<longleftrightarrow> rings m q = None" "\<And>e. ents m' e = None \<longleftrightarrow> ents m e = None"
    and "\<And>r e x. d_inactivity D = Ptr r 0 \<Longrightarrow> A' e = Some x \<Longrightarrow>
      \<exists>b ts. e = inact b \<and> b \<in> all \<and> x = (r, ts, OFF_INACTIVITY)"
  shows "timer_inv D A' all m'"
  using assms(1)
proof (cases rule: timer_invE)
  case (1 r)
  show ?thesis
  proof (rule timer_invI [OF assms(2) 1(2)])
    show "ents m' e \<noteq> None \<longleftrightarrow> (\<exists>b \<in> all. e \<in> set (entry_ptrs (conn_ptr b)))" for e
      using 1(5) assms(4) by metis
  qed (use 1(2,3,6) assms(3,5) in auto)
qed

lemma same_offsets_None:
  "\<forall>p. map_option te_offset (ents m' p) = map_option te_offset (ents m p) \<Longrightarrow>
     ents m' e = None \<longleftrightarrow> ents m e = None"
  by (metis option.map_disc_iff)

lemma timer_inv_unlink:
  assumes T: "timer_inv D A all m" and b: "b \<in> all" and e: "e \<in> set (entry_ptrs (conn_ptr b))"
  shows "\<exists>m'. timeout_unlink e m = ok m' \<and> timer_inv D (A(e := None)) all m' \<and> same_rings m m'"
  using T
proof (cases rule: timer_invE)
  case (1 r)
  have e': "e \<noteq> Null" "ents m e \<noteq> None"
    using 1(5) [of e] b e by auto
  obtain m' where m': "timeout_unlink e m = ok m'" "timers m' (A(e := None))" "same_rings m m'"
      "\<forall>p. map_option te_offset (ents m' p) = map_option te_offset (ents m p)"
    using timeout_unlink_spec [OF 1(1) e'] by auto
  have "timer_inv D (A(e := None)) all m'"
    by (rule timer_inv_change [OF T m'(2) same_rings_None [OF m'(3)] same_offsets_None [OF m'(4)]])
      (use 1(2,4) in \<open>auto split: if_splits\<close>)
  with m' show ?thesis by auto
qed

lemma off_inactivity_ucast [simp]: "ucast (ucast OFF_INACTIVITY :: u32) = OFF_INACTIVITY"
  by (simp add: OFF_INACTIVITY_def)

lemma timer_inv_arm:
  assumes T: "timer_inv D A all m" and b: "b \<in> all" and r: "d_inactivity D = Ptr r 0"
  shows "\<exists>m'. timeouts_add (Ptr r 0) (inact b) OFF_INACTIVITY ts m = ok m' \<and>
    timer_inv D (A(inact b \<mapsto> (r, ts, OFF_INACTIVITY))) all m' \<and> same_rings m m'"
  using T
proof (cases rule: timer_invE)
  case (1 r')
  have e: "inact b \<noteq> Null" "ents m (inact b) \<noteq> None"
    using 1(5) [of "inact b"] b by (auto simp: inact_def)
  have "rings m r \<noteq> None"
    using 1(2,3) r by simp
  then obtain m' where m': "timeouts_add (Ptr r 0) (inact b) OFF_INACTIVITY ts m = ok m'"
      "timers m' (A(inact b \<mapsto> (r, ts, OFF_INACTIVITY)))" "same_rings m m'"
      "\<forall>p. p \<noteq> inact b \<longrightarrow> map_option te_offset (ents m' p) = map_option te_offset (ents m p)"
    using timeouts_add_spec [OF 1(1) e, of r OFF_INACTIVITY ts] by auto
  have "ents m' p = None \<longleftrightarrow> ents m p = None" for p
  proof (cases "p = inact b")
    case True
    have "ents m' (inact b) \<noteq> None"
      using m'(2) by (auto simp: timers_def dest!: wheelD(3) [where p = "inact b"])
    with True e(2) show ?thesis by blast
  next
    case False
    with m'(4) show ?thesis by (metis option.map_disc_iff)
  qed
  then have "timer_inv D (A(inact b \<mapsto> (r, ts, OFF_INACTIVITY))) all m'"
    by (intro timer_inv_change [OF T m'(2) same_rings_None [OF m'(3)]])
      (use 1(2,4) r b in \<open>auto split: if_splits\<close>)
  with m' show ?thesis by auto
qed

text \<open>A scan moves the index of its ring over the ticks at which nothing is due.\<close>

lemma timely_none:
  assumes "timely m A" "rings m r = Some R" "now \<noteq> - 1"
    and none: "\<And>q ts off. A q = Some (r, ts, off) \<Longrightarrow> current_index R \<le> ts \<Longrightarrow> now < ts"
  shows "timely (move_index m r R (max (current_index R) (now + 1))) A" "A e = Some (r, ts, off) \<Longrightarrow> now < ts"
proof -
  have later: "now < ts" if "A e = Some (r, ts, off)" for e ts off
    using none [OF that timelyD [OF assms(1) that assms(2)]] .
  then show "A e = Some (r, ts, off) \<Longrightarrow> now < ts" .
  have "max (current_index R) (now + 1) \<le> ts" if e: "A e = Some (r, ts, off)" for e ts off
    using timelyD [OF assms(1) e assms(2)] later [OF e] unat_inc [OF assms(3)]
    by (simp add: word_less_nat_alt word_le_nat_alt)
  then show "timely (move_index m r R (max (current_index R) (now + 1))) A"
    using timely_move_index [OF assms(1,2)] by blast
qed

lemma timely_some:
  assumes "timely m A" "rings m r = Some R" "same_rings (move_index m r R c) m'"
    and none: "\<And>q ts off. A q = Some (r, ts, off) \<Longrightarrow> current_index R \<le> ts \<Longrightarrow> c \<le> ts"
  shows "timely m' A"
proof -
  have "c \<le> ts" if "A q = Some (r, ts, off)" for q ts off
    using none [OF that timelyD [OF assms(1) that assms(2)]] .
  then have "timely (move_index m r R c) A"
    by (rule timely_move_index [OF assms(1,2)])
  then show ?thesis using same_rings_timely [OF assms(3)] by simp
qed

lemma timer_inv_take:
  assumes T: "timer_inv D A all m" and r: "d_inactivity D = Ptr r 0" and now: "now \<noteq> - 1"
  obtains (none) m' where "timeouts_remove (Ptr r 0) now m = ok (Null, m')"
      and "timer_inv D A all m'"
      and "timely m A \<Longrightarrow> timely m' A \<and> (\<forall>b ts off. A (inact b) = Some (r, ts, off) \<longrightarrow> now < ts)"
  | (some) b ts m' where "timeouts_remove (Ptr r 0) now m = ok (conn_ptr b, m')"
      and "A (inact b) = Some (r, ts, OFF_INACTIVITY)" "ts \<le> now" "b \<in> all"
      and "timer_inv D (A(inact b := None)) all m'"
      and "timely m A \<Longrightarrow> timely m' (A(inact b := None))"
  using T
proof (cases rule: timer_invE)
  case (1 r')
  then have r': "r' = r" using r by simp
  obtain R where R: "rings m r = Some R"
    using 1(3) r' by auto
  note inactive = 1(4) [unfolded r']
  show thesis
  proof (cases rule: timeouts_remove_spec [OF 1(1) R now])
    case rem: 1
    let ?m = "move_index m r R (max (current_index R) (now + 1))"
    have "timely ?m A \<and> (\<forall>b ts off. A (inact b) = Some (r, ts, off) \<longrightarrow> now < ts)" if tl: "timely m A"
    proof (intro conjI allI impI)
      show "timely ?m A" by (rule timely_none(1) [OF tl R now rem(3)])
      show "now < ts" if "A (inact b) = Some (r, ts, off)" for b ts off
        by (rule timely_none(2) [OF tl R now rem(3) that])
    qed
    moreover have "timer_inv D A all ?m"
      by (rule timer_inv_change [OF T rem(2) move_index_rings [OF R]])
        (use inactive 1(2) r' in auto)
    ultimately show thesis
      using rem(1) by (intro none [of ?m])
  next
    case rem: (2 e ts off c m')
    obtain b ts' where e: "e = inact b" "b \<in> all" "(r, ts, off) = (r, ts', OFF_INACTIVITY)"
      using inactive [OF rem(2)] by blast
    have rings: "rings m' q = None \<longleftrightarrow> rings m q = None" for q
      using same_rings_None [OF rem(6)] move_index_rings [OF R] by simp
    have "timer_inv D (A(inact b := None)) all m'"
      using rem(5) e(1)
      by (intro timer_inv_change [OF T _ rings same_offsets_None [OF rem(7)]])
        (use inactive 1(2) r' in \<open>auto split: if_splits\<close>)
    moreover have "timely m' (A(inact b := None))" if "timely m A"
      by (rule timely_remove, rule timely_some [OF that R rem(6)], rule rem(11))
    moreover have "ptr_minus e off = conn_ptr b"
      using e by (simp add: inact_def)
    ultimately show thesis
      using rem(1-3) e by (intro some [of b m' ts]) simp_all
  qed
qed

end
