(* ===== verification/Dispatch_Lists.thy ===== *)
theory Dispatch_Lists
  imports Dispatch_Steps
begin

text \<open>
  The operations on one connection without its callbacks: \<open>connection_new\<close> allocates it,
  \<open>connection_arm\<close> starts its inactivity timer, \<open>connection_list\<close> and \<open>connection_unlist\<close> move it
  into and out of the array, \<open>connection_close\<close> releases it. On the view they are: a new element of
  the limbo, an update of the timer map, an element moved to the end of the list, an element of the
  list overwritten by the last one, and an element dropped from the limbo and from the map.
\<close>

section \<open>What the operations leave to the application\<close>

definition udata :: "obj heap \<Rightarrow> nat \<Rightarrow> ptr option" where
  "udata h b = (case live h b of Some (OConn c) \<Rightarrow> Some (c_userdata c) | _ \<Rightarrow> None)"

definition cfd :: "obj heap \<Rightarrow> nat \<Rightarrow> int option" where
  "cfd h b = (case live h b of Some (OConn c) \<Rightarrow> Some (c_fd c) | _ \<Rightarrow> None)"

definition app :: "obj heap \<Rightarrow> nat \<Rightarrow> telnet_service option" where
  "app h b = (case live h b of Some (OTelnet t) \<Rightarrow> Some t | _ \<Rightarrow> None)"

text \<open>A connection without its index, which the list may change.\<close>

definition conn_core :: "obj heap \<Rightarrow> nat \<Rightarrow> connection option" where
  "conn_core h b = (case live h b of Some (OConn c) \<Rightarrow> Some (c\<lparr>c_index := 0\<rparr>) | _ \<Rightarrow> None)"

definition core_frame :: "nat set \<Rightarrow> obj heap \<Rightarrow> obj heap \<Rightarrow> bool" where
  "core_frame B h h' \<longleftrightarrow> app h' = app h \<and> (\<forall>b \<in> B. conn_core h' b = conn_core h b)"

lemma udata_core: "udata h b = map_option c_userdata (conn_core h b)"
  by (simp add: udata_def conn_core_def split: option.split obj.split)

lemma cfd_core: "cfd h b = map_option c_fd (conn_core h b)"
  by (simp add: cfd_def conn_core_def split: option.split obj.split)

lemma core_frame_same:
  assumes "core_frame B h h'" "b \<in> B"
  shows "udata h' b = udata h b" and "cfd h' b = cfd h b"
  using assms by (simp_all add: core_frame_def udata_core cfd_core)

lemma conn_core_eq:
  assumes "conn_core h' b = conn_core h b" "live h b = Some (OConn c)"
  shows "\<exists>i. live h' b = Some (OConn (c\<lparr>c_index := i\<rparr>))"
  using assms
  by (auto simp: conn_core_def split: option.splits obj.splits)
    (metis connection.surjective connection.update_convs(1))

lemma core_frame_refl [simp]: "core_frame B h h"
  by (simp add: core_frame_def)

lemma core_frame_trans: "core_frame B h h1 \<Longrightarrow> core_frame B h1 h2 \<Longrightarrow> core_frame B h h2"
  by (simp add: core_frame_def)

lemma core_frame_mono: "core_frame B h h' \<Longrightarrow> B' \<subseteq> B \<Longrightarrow> core_frame B' h h'"
  by (auto simp: core_frame_def)

lemma core_frame_upd:
  assumes "live h' = (live h)(b := v)" "b \<notin> B"
    and "\<And>t. live h b \<noteq> Some (OTelnet t)" "\<And>t. v \<noteq> Some (OTelnet t)"
  shows "core_frame B h h'"
  using assms by (auto simp: core_frame_def app_def conn_core_def fun_eq_iff split: option.split obj.split)

lemma hp_update_simps [simp]:
  "hp (s\<lparr>hp := h\<rparr>) = h" "tm (s\<lparr>hp := h\<rparr>) = tm s" "world (s\<lparr>hp := h\<rparr>) = world s"
  "trace (s\<lparr>hp := h\<rparr>) = trace s"
  "hp (s\<lparr>tm := m\<rparr>) = hp s" "tm (s\<lparr>tm := m\<rparr>) = m" "world (s\<lparr>tm := m\<rparr>) = world s"
  "trace (s\<lparr>tm := m\<rparr>) = trace s"
  by (cases s; simp)+

lemma safe_with_heap [simp]:
  "safe Q (with_heap f s) = safe (\<lambda>(p, h). Q (p, s\<lparr>hp := h\<rparr>)) (f (hp s))"
  by (simp add: with_heap_def case_prod_unfold)

lemma safe_strdup:
  "(\<And>b h'. live h' = (live (hp s))(b \<mapsto> OStr str) \<Longrightarrow> allocated (hp s) (OStr str) (Ptr b 0) h' \<Longrightarrow>
      Q (Ptr b 0, s\<lparr>hp := h'\<rparr>)) \<Longrightarrow> safe Q (strdup os str s)"
  unfolding strdup_def safe_with_heap
  by (rule safe_mono [OF um.strdup_spec]) (auto simp: allocated_def)

section \<open>Allocation\<close>

lemma allocated_fresh: "allocated h ob (Ptr b 0) h' \<Longrightarrow> heap_wf h \<Longrightarrow> live h b = None"
  by (auto simp: allocated_def heap_wf_def)

lemma alloc_conn_spec:
  assumes I: "dinv P d V (hp s) (tm s)"
  shows "safe (\<lambda>(p, s'). \<exists>b. p = conn_ptr b \<and> b \<notin> set (v_conns V) \<union> v_limbo V \<and>
      live (hp s') b = Some (OConn zero_connection) \<and>
      dinv P d (V\<lparr>v_limbo := insert b (v_limbo V)\<rparr>) (hp s') (tm s') \<and>
      core_frame (set (v_conns V)) (hp s) (hp s') \<and> keeps (hp s) (hp s') \<and> same_rings (tm s) (tm s') \<and>
      world s' = world s \<and> trace s' = trace s)
    (alloc_conn os s)"
  unfolding alloc_conn_def safe_obind safe_with_heap
proof (rule safe_mono [OF um.calloc_spec], goal_cases)
  case (3 x)
  then obtain b h' where x: "x = (conn_ptr b, h')" and a: "allocated (hp s) (OConn zero_connection) (conn_ptr b) h'"
    by (auto simp: allocated_def)
  have live: "live h' = (live (hp s))(b \<mapsto> OConn zero_connection)" and nb: "b < next_block h'" "next_block (hp s) \<le> b"
    using a by (auto simp: allocated_def)
  have fresh: "live (hp s) b = None"
    using allocated_fresh [OF a dinvD(1) [OF I]] .
  then have b: "b \<notin> set (v_conns V) \<union> v_limbo V"
    using dinv_conn_iff [OF I, of b] by simp
  let ?m = "(tm s)\<lparr>ents := (\<lambda>e. if e \<in> set (entry_ptrs (conn_ptr b)) then Some zero_entry else ents (tm s) e)\<rparr>"
  have "dinv P d (V\<lparr>v_limbo := insert b (v_limbo V), v_map := v_map V\<rparr>) h' ?m"
  proof (rule dinv_change [OF I])
    show "heap_wf h'"
      using dinvD(1) [OF I] nb live by (auto simp: heap_wf_def split: if_splits)
    show "keeps (hp s) h'"
      using live fresh by (auto simp: keeps_def)
    show "(\<exists>c. live h' b' = Some (OConn c)) \<longleftrightarrow> b' \<in> set (v_conns V) \<union> insert b (v_limbo V)" for b'
      using dinv_conn_iff [OF I, of b'] live by (cases "b' = b") simp_all
    show "timer_inv (v_disp V) (v_map V) (set (v_conns V) \<union> insert b (v_limbo V)) ?m"
      using timer_inv_new_conn [OF dinvD(5) [OF I] b] by simp
    show "set (v_conns V) \<inter> insert b (v_limbo V) = {}"
      using b I by (auto simp: dinv_def conns_ok_def)
  qed (use live fresh dinvD(2) [OF I] in \<open>auto simp del: fun_upd_apply simp: fun_upd_def\<close>)
  moreover have "core_frame (set (v_conns V)) (hp s) h'"
    using b fresh by (intro core_frame_upd [OF live]) auto
  moreover have "keeps (hp s) h'"
    using live fresh by (auto simp: keeps_def)
  ultimately show ?case
    using b live by (auto simp: x cong: if_cong)
qed simp_all

text \<open>A connection between its allocation and its listing.\<close>

definition fresh_conn ::
  "(service \<Rightarrow> bool) \<Rightarrow> nat \<Rightarrow> view \<Rightarrow> 'w state \<Rightarrow> nat \<Rightarrow> connection \<Rightarrow> 'w state \<Rightarrow> bool" where
  "fresh_conn P d V s b c s' \<longleftrightarrow>
     b \<notin> set (v_conns V) \<union> v_limbo V \<and> live (hp s') b = Some (OConn c) \<and>
     dinv P d (V\<lparr>v_limbo := insert b (v_limbo V)\<rparr>) (hp s') (tm s') \<and>
     core_frame (set (v_conns V)) (hp s) (hp s') \<and> keeps (hp s) (hp s') \<and> same_rings (tm s) (tm s') \<and>
     world s' = world s \<and> trace s' = trace s"

lemma fresh_conn_store:
  assumes F: "fresh_conn P d V s b c s'"
  shows "fresh_conn P d V s b c' (store_obj (conn_ptr b) (OConn c') s')"
proof -
  have b: "b \<notin> set (v_conns V) \<union> v_limbo V" "live (hp s') b = Some (OConn c)"
    using F by (simp_all add: fresh_conn_def)
  have "core_frame (set (v_conns V)) (hp s') (hp (store_obj (conn_ptr b) (OConn c') s'))"
    by (rule core_frame_upd [where b = b]) (use b in auto)
  moreover have "keeps (hp s) (hp (store_obj (conn_ptr b) (OConn c') s'))"
    using F b by (auto simp: fresh_conn_def keeps_def)
  moreover have "dinv P d (V\<lparr>v_limbo := insert b (v_limbo V)\<rparr>) (hp (store_obj (conn_ptr b) (OConn c') s')) (tm s')"
    unfolding store_obj_simps
    using dinv_store_conn [of P d "V\<lparr>v_limbo := insert b (v_limbo V)\<rparr>" "hp s'" "tm s'" b c c'] F b
    by (simp add: fresh_conn_def)
  ultimately show ?thesis
    using F core_frame_trans by (auto simp: fresh_conn_def)
qed

lemma fresh_conn_string:
  assumes F: "fresh_conn P d V s b c s'" and a: "allocated (hp s') (OStr str) (Ptr b2 0) h'"
  shows "fresh_conn P d V s b c (s'\<lparr>hp := h'\<rparr>)"
    and "keeps (hp s') h'" and "str_ok h' (Ptr b2 0)"
proof -
  have I: "dinv P d (V\<lparr>v_limbo := insert b (v_limbo V)\<rparr>) (hp s') (tm s')" and b: "live (hp s') b = Some (OConn c)"
    using F by (simp_all add: fresh_conn_def)
  have live: "live h' = (live (hp s'))(b2 \<mapsto> OStr str)"
    using a by (auto simp: allocated_def)
  have fresh: "live (hp s') b2 = None"
    using allocated_fresh [OF a dinvD(1) [OF I]] .
  show keeps: "keeps (hp s') h'"
    using live fresh by (auto simp: keeps_def)
  show "str_ok h' (Ptr b2 0)"
    by (simp add: str_ok_def live)
  have "b2 \<notin> set (v_conns V)"
    using dinv_conn_iff [OF I, of b2] fresh by auto
  then have "core_frame (set (v_conns V)) (hp s') h'"
    using fresh by (intro core_frame_upd [OF live]) auto
  moreover have "keeps (hp s) h'"
    using F keeps by (auto simp: fresh_conn_def keeps_def)
  moreover have "dinv P d (V\<lparr>v_limbo := insert b (v_limbo V)\<rparr>) h' (tm s')"
    by (rule dinv_alloc_other [OF I a]) simp
  moreover have "live h' b = Some (OConn c)"
    using b live fresh by auto
  ultimately show "fresh_conn P d V s b c (s'\<lparr>hp := h'\<rparr>)"
    using F core_frame_trans by (auto simp: fresh_conn_def)
qed

lemma fresh_conn_upd [simp]:
  assumes "fresh_conn P d V s b c s'"
  shows "upd_conn (conn_ptr b) f s' = ok (store_obj (conn_ptr b) (OConn (f c)) s')"
  using assms by (simp add: fresh_conn_def)

lemma fresh_conn_keeps:
  assumes "fresh_conn P d V s b c s'"
  shows "keeps (hp s') (hp (store_obj (conn_ptr b) (OConn c') s'))"
  using assms by (auto simp: fresh_conn_def keeps_def)

lemma connection_new_spec:
  assumes I: "dinv P d V (hp s) (tm s)" and svc: "svc_ok P (hp s) svc"
  shows "safe (\<lambda>(p, s'). \<exists>b c. p = conn_ptr b \<and> fresh_conn P d V s b c s' \<and> conn_ok P (hp s') c \<and>
      c_svc c = svc \<and> c_fd c = fd2 \<and> c_userdata c = Null)
    (connection_new os svc fd2 peeraddr peerport s)"
  unfolding connection_new_def safe_obind
proof (rule safe_mono [OF alloc_conn_spec [OF I]], goal_cases)
  case (1 x)
  then obtain b s1 where x: "x = (conn_ptr b, s1)" and F1: "fresh_conn P d V s b zero_connection s1"
    by (auto simp: fresh_conn_def)
  let ?c1 = "zero_connection\<lparr>c_fd := fd2, c_svc := svc\<rparr>"
  let ?s2 = "store_obj (conn_ptr b) (OConn ?c1) s1"
  have F2: "fresh_conn P d V s b ?c1 ?s2"
    using fresh_conn_store [OF F1] .
  show ?case
    unfolding x case_prod_conv fresh_conn_upd [OF F1] safe_ok safe_obind
  proof (rule safe_strdup, goal_cases)
    case (1 b2 h2)
    let ?s3 = "?s2\<lparr>hp := h2\<rparr>" and ?c3 = "?c1\<lparr>c_peeraddr := Ptr b2 0\<rparr>"
    let ?s4 = "store_obj (conn_ptr b) (OConn ?c3) ?s3"
    note S3 = fresh_conn_string [OF F2 1(2)]
    have F4: "fresh_conn P d V s b ?c3 ?s4"
      using fresh_conn_store [OF S3(1)] .
    have pa: "str_ok (hp ?s4) (Ptr b2 0)"
      using S3(3) str_ok_mono fresh_conn_keeps [OF S3(1)] by fastforce
    show ?case
      unfolding case_prod_conv fresh_conn_upd [OF S3(1)] safe_ok safe_obind
    proof (rule safe_strdup, goal_cases)
      case (1 b3 h5)
      let ?s5 = "?s4\<lparr>hp := h5\<rparr>" and ?c6 = "?c3\<lparr>c_peerport := Ptr b3 0\<rparr>"
      let ?s6 = "store_obj (conn_ptr b) (OConn ?c6) ?s5"
      note S5 = fresh_conn_string [OF F4 1(2)]
      have F6: "fresh_conn P d V s b ?c6 ?s6"
        using fresh_conn_store [OF S5(1)] .
      have k: "keeps (hp ?s5) (hp ?s6)"
        using fresh_conn_keeps [OF S5(1)] .
      have "str_ok (hp ?s6) (Ptr b3 0)" "str_ok (hp ?s6) (Ptr b2 0)"
        using str_ok_mono [OF S5(3), of "hp ?s6"] str_ok_mono [OF str_ok_mono [OF pa S5(2)], of "hp ?s6"] k
        by simp_all
      moreover have "svc_ok P (hp ?s6) svc"
        using svc_ok_mono [OF svc] F6 by (simp add: fresh_conn_def)
      ultimately have "conn_ok P (hp ?s6) ?c6"
        by (simp add: conn_ok_def)
      with F6 show ?case
        unfolding case_prod_conv fresh_conn_upd [OF S5(1)] safe_ok safe_obind obind_ok
        by (intro exI [of _ b] exI [of _ ?c6]) (simp add: zero_connection_def)
    qed
  qed
qed

section \<open>Arming\<close>

lemma connection_arm_spec:
  assumes I: "dinv P d V (hp s) (tm s)" and b: "b \<in> set (v_conns V) \<union> v_limbo V" and svc: "svc_ok P (hp s) svc"
  shows "\<exists>s' r ts. connection_arm os (Ptr d 0) svc (conn_ptr b) s = ok s' \<and> hp s' = hp s \<and> trace s' = trace s \<and>
    same_rings (tm s) (tm s') \<and>
    d_inactivity (v_disp V) = Ptr r 0 \<and>
    dinv P d (V\<lparr>v_map := (v_map V)(inact b \<mapsto> (r, ts, OFF_INACTIVITY))\<rparr>) (hp s') (tm s')"
proof -
  obtain k v where v: "svc = Ptr k 0" "live (hp s) k = Some (OSvc v)"
    using svc by (auto simp: svc_ok_def)
  obtain now w where now: "os_time os (world s) = (now, w)" by fastforce
  let ?s = "s\<lparr>world := w\<rparr>" and ?ts = "timestamp_from_tv (now + ucast (s_cfg_timeout_inactivity v)) 0"
  have T: "timer_inv (v_disp V) (v_map V) (set (v_conns V) \<union> v_limbo V) (tm s)"
    using dinvD(5) [OF I] .
  then obtain r where r: "d_inactivity (v_disp V) = Ptr r 0"
    by (cases rule: timer_invE)
  obtain m where m: "timeouts_add (Ptr r 0) (inact b) OFF_INACTIVITY ?ts (tm s) = ok m"
      "timer_inv (v_disp V) ((v_map V)(inact b \<mapsto> (r, ?ts, OFF_INACTIVITY))) (set (v_conns V) \<union> v_limbo V) m"
      "same_rings (tm s) m"
    using timer_inv_arm [OF T b r] by blast
  have "connection_arm os (Ptr d 0) svc (conn_ptr b) s = ok (?s\<lparr>tm := m\<rparr>)"
    using v dinvD(2) [OF I] r m(1)
    by (simp add: connection_arm_def sys_def now with_tm_def flip: inact_def)
  with r m(3) dinv_timers [OF I m(2)] show ?thesis
    by (intro exI [of _ "?s\<lparr>tm := m\<rparr>"] exI [of _ r] exI [of _ ?ts]) simp
qed

section \<open>Moving connections into and out of the list\<close>

lemma dinv_relist:
  assumes I: "dinv P d V h m" and wf: "heap_wf h'" and k: "keeps h h'"
    and d: "live h' d = Some (ODisp (v_disp V\<lparr>d_connections := p, d_connection_count := length xs\<rparr>))"
    and arr: "arr_ok h' p (map conn_ptr xs)" "length xs < 2 ^ 61"
      "d_services (v_disp V) = Null \<or> d_services (v_disp V) \<noteq> p"
    and svcs: "\<And>b. d_services (v_disp V) = Ptr b 0 \<Longrightarrow> live h' b = live h b"
    and xs: "distinct xs" "set xs \<inter> lim = {}" "set xs \<union> lim = set (v_conns V) \<union> v_limbo V"
    and conns: "\<And>i. i < length xs \<Longrightarrow> \<exists>c. live h' (xs ! i) = Some (OConn c) \<and> c_index c = i \<and> conn_ok P h' c"
    and all: "\<And>b. (\<exists>c. live h' b = Some (OConn c)) \<longleftrightarrow> (\<exists>c. live h b = Some (OConn c))"
  shows "dinv P d (V\<lparr>v_disp := v_disp V\<lparr>d_connections := p, d_connection_count := length xs\<rparr>,
    v_conns := xs, v_limbo := lim\<rparr>) h' m"
proof -
  have "arr_ok h' (d_services (v_disp V)) (v_svcs V)"
    using dinvD(3) [OF I] arr_ok_cong [of "d_services (v_disp V)" h' h, OF svcs] by (simp add: arrays_ok_def)
  then have "arrays_ok P (V\<lparr>v_disp := v_disp V\<lparr>d_connections := p, d_connection_count := length xs\<rparr>,
      v_conns := xs, v_limbo := lim\<rparr>) h'"
    using dinvD(3) [OF I] arr svc_ok_mono [OF _ k] by (simp add: arrays_ok_def)
  moreover have "timer_inv (v_disp V\<lparr>d_connections := p, d_connection_count := length xs\<rparr>) (v_map V) (set xs \<union> lim) m"
    using dinvD(5) [OF I] by (simp add: timer_inv_def xs(3))
  moreover have "(\<exists>c. live h' b = Some (OConn c)) \<longleftrightarrow> b \<in> set xs \<union> lim" for b
    using dinv_conn_iff [OF I] all xs(3) by simp
  ultimately show ?thesis
    using wf d xs(1,2) conns by (simp add: dinv_def conns_ok_def)
qed

lemma arr_okE:
  assumes "arr_ok h p xs" "xs \<noteq> []"
  obtains a ys where "p = Ptr a 0" "live h a = Some (OArr ys)" "length xs \<le> length ys"
    "\<And>i. i < length xs \<Longrightarrow> ys ! i = xs ! i"
proof -
  obtain a ys where a: "p = Ptr a 0" "live h a = Some (OArr ys)" "length xs \<le> length ys"
      "take (length xs) ys = xs"
    using assms by (auto simp: arr_ok_def)
  from a(1-3) show thesis
  proof (rule that)
    show "ys ! i = xs ! i" if "i < length xs" for i
      using a(4) that by (metis nth_take)
  qed
qed

lemma arr_okI:
  assumes "live h a = Some (OArr ys)" "length xs \<le> length ys" "\<And>i. i < length xs \<Longrightarrow> ys ! i = xs ! i"
  shows "arr_ok h (Ptr a 0) xs"
proof -
  have "take (length xs) ys = xs"
    using assms(2,3) by (intro nth_equalityI) simp_all
  with assms(1,2) show ?thesis by (simp add: arr_ok_def)
qed

definition unlisted :: "nat \<Rightarrow> view \<Rightarrow> view" where
  "unlisted i V = V\<lparr>v_disp := v_disp V\<lparr>d_connections := d_connections (v_disp V),
       d_connection_count := length (swap_remove i (v_conns V))\<rparr>,
     v_conns := swap_remove i (v_conns V), v_limbo := insert (v_conns V ! i) (v_limbo V)\<rparr>"

definition unlist_heap :: "nat \<Rightarrow> view \<Rightarrow> nat \<Rightarrow> ptr list \<Rightarrow> nat \<Rightarrow> connection \<Rightarrow> obj heap \<Rightarrow> obj heap" where
  "unlist_heap i V a ys d c h = h\<lparr>live := (live h)(a \<mapsto> OArr (ys[i := conn_ptr (last (v_conns V))]),
     last (v_conns V) \<mapsto> OConn (c\<lparr>c_index := i\<rparr>),
     d \<mapsto> ODisp (v_disp V\<lparr>d_connection_count := length (v_conns V) - 1\<rparr>))\<rparr>"

lemma unlist_conn:
  assumes I: "dinv P d V h m" and i: "i < length (v_conns V)" and a: "live h a = Some (OArr ys)"
    and c: "live h (last (v_conns V)) = Some (OConn c)" and k: "keeps h (unlist_heap i V a ys d c h)"
    and j: "j < length (v_conns V) - 1"
  shows "\<exists>c'. live (unlist_heap i V a ys d c h) (swap_remove i (v_conns V) ! j) = Some (OConn c') \<and> c_index c' = j \<and>
    conn_ok P (unlist_heap i V a ys d c h) c'"
proof -
  let ?xs = "v_conns V" and ?h = "unlist_heap i V a ys d c h"
  let ?k = "if j = i then length ?xs - 1 else j"
  note live = unlist_heap_def
  have ne: "?xs \<noteq> []" using i by auto
  have dl: "live h d = Some (ODisp (v_disp V))" using dinvD(2) [OF I] .
  have k': "?k < length ?xs" "swap_remove i ?xs ! j = ?xs ! ?k"
    using i j ne by (auto simp: nth_swap_remove last_conv_nth)
  obtain cj where cj: "live h (?xs ! ?k) = Some (OConn cj)" "c_index cj = ?k" "conn_ok P h cj"
    using dinvD(4) [OF I] k'(1) by (auto simp only: conns_ok_def)
  have "live ?h (?xs ! ?k) = Some (OConn (if j = i then cj\<lparr>c_index := i\<rparr> else cj))"
  proof (cases "j = i")
    case True
    then show ?thesis using cj(1) c dl a by (auto simp: live last_conv_nth [OF ne])
  next
    case False
    have "distinct ?xs" "j \<noteq> length ?xs - 1" using dinvD(4) [OF I] j by (simp_all add: conns_ok_def)
    then have "?xs ! j \<noteq> last ?xs"
      using k'(1) False ne by (simp add: last_conv_nth nth_eq_iff_index_eq)
    with False cj(1) a dl show ?thesis by (auto simp: live)
  qed
  with conn_ok_mono [OF cj(3) k] cj(2) k'(2) show ?thesis
    by (auto split: if_splits)
qed

lemma dinv_unlist:
  assumes I: "dinv P d V h m" and i: "i < length (v_conns V)"
    and a: "d_connections (v_disp V) = Ptr a 0" "live h a = Some (OArr ys)" "length (v_conns V) \<le> length ys"
      "\<And>j. j < length (v_conns V) \<Longrightarrow> ys ! j = conn_ptr (v_conns V ! j)"
    and c: "live h (last (v_conns V)) = Some (OConn c)"
  shows "dinv P d (unlisted i V) (unlist_heap i V a ys d c h) m"
  unfolding unlisted_def
proof (rule dinv_relist [OF I])
  let ?xs = "v_conns V" and ?h = "unlist_heap i V a ys d c h"
  have ne: "?xs \<noteq> []" using i by auto
  have dl: "live h d = Some (ODisp (v_disp V))"
    using dinvD(2) [OF I] .
  have apart: "a \<noteq> d" "a \<noteq> last ?xs" "last ?xs \<noteq> d"
    using a(2) c dl by auto
  have dist: "distinct ?xs" "set ?xs \<inter> v_limbo V = {}"
    using dinvD(4) [OF I] by (simp_all add: conns_ok_def)
  note live = unlist_heap_def
  show k: "keeps h ?h"
    using a(2) c dl by (auto simp: keeps_def live)
  show "heap_wf ?h"
    using dinvD(1) [OF I] a(2) c dl by (auto simp: heap_wf_def live)
  show "live ?h d = Some (ODisp (v_disp V\<lparr>d_connections := d_connections (v_disp V),
      d_connection_count := length (swap_remove i ?xs)\<rparr>))"
    by (simp add: live)
  show "arr_ok ?h (d_connections (v_disp V)) (map conn_ptr (swap_remove i ?xs))"
    unfolding a(1)
  proof (rule arr_okI)
    show "live ?h a = Some (OArr (ys[i := conn_ptr (last ?xs)]))"
      using apart by (simp add: live)
    show "ys[i := conn_ptr (last ?xs)] ! j = map conn_ptr (swap_remove i ?xs) ! j"
      if "j < length (map conn_ptr (swap_remove i ?xs))" for j
      using that i a(3,4) by (simp add: nth_swap_remove)
  qed (use a(3) in simp)
  show "length (swap_remove i ?xs) < 2 ^ 61"
    using dinvD(3) [OF I] unfolding arrays_ok_def length_swap_remove by linarith
  show "d_services (v_disp V) = Null \<or> d_services (v_disp V) \<noteq> d_connections (v_disp V)"
    using dinvD(3) [OF I] by (simp add: arrays_ok_def)
  show "live ?h b = live h b" if "d_services (v_disp V) = Ptr b 0" for b
  proof -
    have "b \<noteq> a"
      using dinvD(3) [OF I] that a(1) by (auto simp: arrays_ok_def)
    moreover have "\<exists>zs. live h b = Some (OArr zs)"
      using dinvD(3) [OF I] that by (auto simp: arrays_ok_def arr_ok_def)
    ultimately show ?thesis
      using c dl by (auto simp: live)
  qed
  show "distinct (swap_remove i ?xs)" "set (swap_remove i ?xs) \<inter> insert (?xs ! i) (v_limbo V) = {}"
    "set (swap_remove i ?xs) \<union> insert (?xs ! i) (v_limbo V) = set ?xs \<union> v_limbo V"
    using set_swap_remove [OF dist(1) i] dist(2) i by auto
  show "(\<exists>c. live ?h b = Some (OConn c)) \<longleftrightarrow> (\<exists>c. live h b = Some (OConn c))" for b
    using a(2) c dl by (auto simp: live)
  show "\<exists>c'. live ?h (swap_remove i ?xs ! j) = Some (OConn c') \<and> c_index c' = j \<and> conn_ok P ?h c'"
    if "j < length (swap_remove i ?xs)" for j
    using unlist_conn [OF I i a(2) c k] that by simp
qed

lemma connection_unlist_spec:
  assumes I: "dinv P d V (hp s) (tm s)" and i: "i < length (v_conns V)"
  shows "\<exists>s'. connection_unlist (Ptr d 0) i s = ok s' \<and> dinv P d (unlisted i V) (hp s') (tm s') \<and>
    core_frame (set (v_conns V)) (hp s) (hp s') \<and> keeps (hp s) (hp s') \<and> tm s' = tm s \<and>
    world s' = world s \<and> trace s' = trace s @ [count_line ''--'' (length (v_conns V) - 1)]"
proof -
  let ?xs = "v_conns V" and ?D = "v_disp V"
  have ne: "?xs \<noteq> []" using i by auto
  have D: "live (hp s) d = Some (ODisp ?D)"
    using dinvD(2) [OF I] .
  have n: "d_connection_count ?D = length ?xs" and arr: "arr_ok (hp s) (d_connections ?D) (map conn_ptr ?xs)"
    using dinvD(3) [OF I] by (simp_all add: arrays_ok_def)
  obtain a ys where a: "d_connections ?D = Ptr a 0" "live (hp s) a = Some (OArr ys)"
      "length ?xs \<le> length ys" "\<And>j. j < length ?xs \<Longrightarrow> ys ! j = conn_ptr (?xs ! j)"
    using arr_okE [OF arr] ne by auto
  obtain c where c: "live (hp s) (last ?xs) = Some (OConn c)"
    using dinv_conn_iff [OF I, of "last ?xs"] ne by auto
  have apart: "a \<noteq> d" "a \<noteq> last ?xs" "last ?xs \<noteq> d"
    using a(2) c D by auto
  have last: "ys ! (length ?xs - 1) = conn_ptr (last ?xs)"
    using a(4) ne by (simp add: last_conv_nth)
  let ?h = "unlist_heap i V a ys d c (hp s)"
  let ?s = "emit (count_line ''--'' (length ?xs - 1)) (s\<lparr>hp := ?h\<rparr>)"
  let ?n = "length ?xs - 1" and ?l = "conn_ptr (last ?xs)"
  let ?s1 = "store_obj (Ptr a 0) (OArr (ys[i := ?l])) s"
  let ?s2 = "store_obj ?l (OConn (c\<lparr>c_index := i\<rparr>)) ?s1"
  let ?s3 = "store_obj (Ptr d 0) (ODisp (?D\<lparr>d_connection_count := ?n\<rparr>)) ?s2"
  have steps: "load_disp (Ptr d 0) s = ok ?D" "load_arr (Ptr a 0) ?n s = ok ?l"
    "store_arr (Ptr a 0) i ?l s = ok ?s1" "load_arr (Ptr a 0) i ?s1 = ok ?l"
    using D a(2,3) last i by (simp_all add: load_arr_ok)
  moreover have "upd_conn ?l (\<lambda>c. c\<lparr>c_index := i\<rparr>) ?s1 = ok ?s2"
    using c apart by simp
  moreover have "upd_disp (Ptr d 0) (\<lambda>D. D\<lparr>d_connection_count := d_connection_count D - 1\<rparr>) ?s2 = ok ?s3"
    using D apart n by simp
  ultimately have "connection_unlist (Ptr d 0) i s = ok (emit (count_line ''--'' ?n) ?s3)"
    using n ne a(1) by (simp add: connection_unlist_def)
  moreover have "?s3 = s\<lparr>hp := ?h\<rparr>"
    by (simp add: store_obj_def unlist_heap_def)
  ultimately have "connection_unlist (Ptr d 0) i s = ok ?s"
    by simp
  moreover have "dinv P d (unlisted i V) (hp ?s) (tm ?s)"
    using dinv_unlist [OF I i a c] by simp
  moreover have "core_frame (set ?xs) (hp s) (hp ?s)"
    using a(2) c D by (auto simp: core_frame_def app_def conn_core_def unlist_heap_def fun_eq_iff)
  moreover have "keeps (hp s) (hp ?s)"
    using a(2) c D by (auto simp: keeps_def unlist_heap_def)
  ultimately show ?thesis by (intro exI [of _ ?s]) simp
qed

text \<open>Listing: the new array is a new block with the old pointers and the new one.\<close>

definition listed :: "nat \<Rightarrow> ptr \<Rightarrow> view \<Rightarrow> view" where
  "listed b p V = V\<lparr>v_disp := v_disp V\<lparr>d_connections := p, d_connection_count := length (v_conns V @ [b])\<rparr>,
     v_conns := v_conns V @ [b], v_limbo := v_limbo V - {b}\<rparr>"

text \<open>What looks the same in a missing block and in an array is not affected when an array moves.\<close>

lemma moved_array:
  assumes "arr_ok h p xs" "live h a = None" "live h' a = Some (OArr zs)" "\<And>x. p = Ptr x 0 \<Longrightarrow> live h' x = None"
    and "\<And>x. x \<noteq> a \<Longrightarrow> p \<noteq> Ptr x 0 \<Longrightarrow> g (live h' x) = g (live h x)" "\<And>ys. g (Some (OArr ys)) = g None"
  shows "g (live h' x) = g (live h x)"
proof -
  consider "x = a" | "p = Ptr x 0" | "x \<noteq> a" "p \<noteq> Ptr x 0" by blast
  then show ?thesis
  proof cases
    case 2
    then obtain ys where "live h x = Some (OArr ys)" using assms(1) by (auto simp: arr_ok_def)
    with assms(4) [OF 2] assms(6) show ?thesis by simp
  qed (use assms in simp_all)
qed

text \<open>The heap before and after a connection is listed.\<close>

definition listing :: "view \<Rightarrow> nat \<Rightarrow> nat \<Rightarrow> connection \<Rightarrow> nat \<Rightarrow> obj heap \<Rightarrow> obj heap \<Rightarrow> bool" where
  "listing V d b c a h h' \<longleftrightarrow>
     live h a = None \<and> live h' a = Some (OArr (map conn_ptr (v_conns V @ [b]))) \<and>
     live h b = Some (OConn c) \<and> live h' b = Some (OConn (c\<lparr>c_index := length (v_conns V)\<rparr>)) \<and>
     live h' d = Some (ODisp (v_disp V\<lparr>d_connections := Ptr a 0, d_connection_count := length (v_conns V @ [b])\<rparr>)) \<and>
     (\<forall>x. d_connections (v_disp V) = Ptr x 0 \<longrightarrow> live h' x = None) \<and>
     (\<forall>x. x \<noteq> a \<longrightarrow> x \<noteq> b \<longrightarrow> x \<noteq> d \<longrightarrow> d_connections (v_disp V) \<noteq> Ptr x 0 \<longrightarrow> live h' x = live h x)"

lemma listingD:
  assumes "listing V d b c a h h'"
  shows "live h a = None" "live h' a = Some (OArr (map conn_ptr (v_conns V @ [b])))"
    "live h b = Some (OConn c)" "live h' b = Some (OConn (c\<lparr>c_index := length (v_conns V)\<rparr>))"
    "live h' d = Some (ODisp (v_disp V\<lparr>d_connections := Ptr a 0, d_connection_count := length (v_conns V @ [b])\<rparr>))"
    "d_connections (v_disp V) = Ptr x 0 \<Longrightarrow> live h' x = None"
    "x \<noteq> a \<Longrightarrow> x \<noteq> b \<Longrightarrow> x \<noteq> d \<Longrightarrow> d_connections (v_disp V) \<noteq> Ptr x 0 \<Longrightarrow> live h' x = live h x"
  using assms unfolding listing_def by blast+

lemma listing_arrays:
  assumes "dinv P d V h m"
  shows "arr_ok h (d_connections (v_disp V)) (map conn_ptr (v_conns V))" "arr_ok h (d_services (v_disp V)) (v_svcs V)"
    "d_services (v_disp V) = Null \<or> d_services (v_disp V) \<noteq> d_connections (v_disp V)"
  using dinvD(3) [OF assms] by (simp_all add: arrays_ok_def)

lemma listing_proj:
  assumes "dinv P d V h m" "listing V d b c a h h'"
    and "\<And>ys. g (Some (OArr ys)) = g None" "g (live h' b) = g (live h b)" "g (live h' d) = g (live h d)"
  shows "g (live h' x) = g (live h x)"
proof (rule moved_array [OF listing_arrays(1) [OF assms(1)] listingD(1,2,6) [OF assms(2)], where g = g])
  show "g (live h' x) = g (live h x)" if "x \<noteq> a" "d_connections (v_disp V) \<noteq> Ptr x 0" for x
    using listingD(7) [OF assms(2), of x] that assms(4,5) by (cases "x = b \<or> x = d") auto
qed (assumption | rule assms(3))+

lemma listing_other:
  assumes "dinv P d V h m" "listing V d b c a h h'" "live h x = Some ob" "\<And>ys. ob \<noteq> OArr ys" "x \<noteq> b" "x \<noteq> d"
  shows "live h' x = Some ob"
proof -
  have "x \<noteq> a" "d_connections (v_disp V) \<noteq> Ptr x 0"
    using assms(3,4) listingD(1) [OF assms(2)] listing_arrays(1) [OF assms(1)] by (auto simp: arr_ok_def)
  with listingD(7) [OF assms(2), of x] assms(3,5,6) show ?thesis by simp
qed

lemma listing_keeps:
  assumes "dinv P d V h m" "listing V d b c a h h'"
  shows "keeps h h'"
proof -
  have "x \<noteq> b" "x \<noteq> d" if "live h x = Some ob" "\<And>c. ob \<noteq> OConn c" "\<And>D. ob \<noteq> ODisp D" for x ob
    using that listingD(3) [OF assms(2)] dinvD(2) [OF assms(1)] by fastforce+
  then show ?thesis unfolding keeps_def using listing_other [OF assms] by blast
qed

lemma listing_conn:
  assumes "dinv P d V h m" "listing V d b c a h h'" "b \<in> v_limbo V" "x \<in> set (v_conns V)"
  shows "live h' x = live h x"
proof -
  obtain cx where cx: "live h x = Some (OConn cx)"
    using dinv_conn_iff [OF assms(1), of x] assms(4) by auto
  moreover have "x \<noteq> b" "x \<noteq> d"
    using dinvD(2,4) [OF assms(1)] assms(3,4) cx by (auto simp: conns_ok_def)
  ultimately show ?thesis using listing_other [OF assms(1,2) cx] by simp
qed

lemma listing_frame:
  assumes "dinv P d V h m" "listing V d b c a h h'" "b \<in> v_limbo V"
  shows "core_frame (set (v_conns V)) h h'"
proof -
  have "app h' = app h"
    unfolding app_def fun_eq_iff
    by (rule allI, rule listing_proj [OF assms(1,2)]) (simp_all add: listingD(3-5) [OF assms(2)] dinvD(2) [OF assms(1)])
  then show ?thesis
    using listing_conn [OF assms] by (simp add: core_frame_def conn_core_def)
qed

lemma dinv_list:
  assumes I: "dinv P d V h m" and b: "b \<in> v_limbo V" "conn_ok P h c"
    and n: "length (v_conns V) + 1 < 2 ^ 61" and wf: "heap_wf h'" and L: "listing V d b c a h h'"
  shows "dinv P d (listed b (Ptr a 0) V) h' m"
  unfolding listed_def
proof (rule dinv_relist [OF I wf])
  note at = listingD(1-4) [OF L] and d = listingD(5) [OF L] and dl = dinvD(2) [OF I] and arr = listing_arrays [OF I]
  show k: "keeps h h'" by (rule listing_keeps [OF I L])
  show "live h' d = Some (ODisp (v_disp V\<lparr>d_connections := Ptr a 0, d_connection_count := length (v_conns V @ [b])\<rparr>))"
    by (rule d)
  show "arr_ok h' (Ptr a 0) (map conn_ptr (v_conns V @ [b]))"
    by (rule arr_okI [OF at(2)]) simp_all
  show "length (v_conns V @ [b]) < 2 ^ 61" using n by simp
  show "d_services (v_disp V) = Null \<or> d_services (v_disp V) \<noteq> Ptr a 0"
    using arr(2) at(1) by (auto simp: arr_ok_def)
  show "live h' x = live h x" if "d_services (v_disp V) = Ptr x 0" for x
    using arr(2,3) that at(1,3) dl by (intro listingD(7) [OF L]) (auto simp: arr_ok_def)
  show "\<exists>c'. live h' ((v_conns V @ [b]) ! i) = Some (OConn c') \<and> c_index c' = i \<and> conn_ok P h' c'"
    if i: "i < length (v_conns V @ [b])" for i
  proof (cases "i = length (v_conns V)")
    case True
    with at(4) conn_ok_mono [OF b(2) k] show ?thesis by simp
  next
    case False
    then have i': "i < length (v_conns V)" using i by simp
    then obtain ci where ci: "live h (v_conns V ! i) = Some (OConn ci)" "c_index ci = i" "conn_ok P h ci"
      using dinvD(4) [OF I] by (auto simp: conns_ok_def)
    with listing_conn [OF I L b(1) nth_mem [OF i']] conn_ok_mono [OF ci(3) k] i' show ?thesis
      by (simp add: nth_append)
  qed
  show "(\<exists>c. live h' x = Some (OConn c)) \<longleftrightarrow> (\<exists>c. live h x = Some (OConn c))" for x
    by (rule listing_proj [OF I L, where g = "\<lambda>z. \<exists>c. z = Some (OConn c)"]) (use at d dl in simp_all)
qed (use dinvD(4) [OF I] b(1) in \<open>auto simp: conns_ok_def\<close>)

lemma resize_arr:
  assumes "length xs \<le> length ys" "take (length xs) ys = xs"
  shows "\<exists>x. resize (length xs + 1) (OArr ys) = OArr (xs @ [x])"
proof (cases "length xs = length ys")
  case True
  with assms(2) show ?thesis by (simp add: resize_def)
next
  case False
  with assms show ?thesis by (simp add: resize_def take_Suc_conv_app_nth)
qed

text \<open>The reallocation: a new block in place of the old one, with one more element.\<close>

lemma realloc_count:
  assumes "n < 2 ^ 61"
  shows "(of_nat (n + 1) :: u64) \<noteq> 0"
    and "unat ((of_nat (n + 1) :: u64) * 8) = unat (of_nat (n + 1) :: u64) * unat (8 :: u64) \<Longrightarrow> n + 1 < 2 ^ 61"
proof -
  have "unat (of_nat k :: u64) = k" if "k < 2 ^ 64" for k
    using that by (simp add: unsigned_of_nat take_bit_nat_eq_self)
  moreover have "n + 1 < 2 ^ 64"
    using assms by simp
  ultimately have u: "unat (of_nat (n + 1) :: u64) = n + 1"
    by blast
  then show "(of_nat (n + 1) :: u64) \<noteq> 0"
    by (metis add_eq_0_iff_both_eq_0 unat_0 zero_neq_one)
  assume "unat ((of_nat (n + 1) :: u64) * 8) = unat (of_nat (n + 1) :: u64) * unat (8 :: u64)"
  moreover have "unat ((of_nat (n + 1) :: u64) * 8) < 2 ^ 64"
    by (rule order_less_le_trans [OF unsigned_less]) simp
  ultimately show "n + 1 < 2 ^ 61"
    unfolding u by simp
qed

lemma realloc_arr_spec:
  assumes wf: "heap_wf (hp s)" and arr: "arr_ok (hp s) p xs" and n: "length xs < 2 ^ 61"
  shows "safe (\<lambda>(q, s'). \<exists>a x h'. q = Ptr a 0 \<and> s' = s\<lparr>hp := h'\<rparr> \<and> live (hp s) a = None \<and> heap_wf h' \<and>
      live h' a = Some (OArr (xs @ [x])) \<and> length xs + 1 < 2 ^ 61 \<and>
      (\<forall>b. p = Ptr b 0 \<longrightarrow> live h' b = None) \<and>
      (\<forall>b. b \<noteq> a \<longrightarrow> p \<noteq> Ptr b 0 \<longrightarrow> live h' b = live (hp s) b))
    (realloc_arr os p (length xs + 1) s)"
proof -
  have fresh: "live (hp s) a = None" if "next_block (hp s) \<le> a" for a
    using wf that by (auto simp: heap_wf_def)
  have eight: "(8 :: u64) \<noteq> 0" by simp
  note c = realloc_count [OF n]
  show ?thesis
  proof (cases p)
    case Null
    then have xs: "xs = []" using arr by (simp add: arr_ok_def)
    show ?thesis
      unfolding realloc_arr_def Null safe_with_heap
    proof (rule safe_mono [OF um.reallocarray_null [OF c(1) eight]], goal_cases)
      case (1 y)
      then obtain a h' where y: "y = (Ptr a 0, h')" and a: "next_block (hp s) \<le> a" "a < next_block h'"
        and live: "live h' = (live (hp s))(a \<mapsto> OArr [Null])"
        by (auto simp: allocated_def xs)
      moreover have "heap_wf h'"
        using wf a by (auto simp: heap_wf_def live split: if_splits)
      ultimately show ?case
        using fresh [OF a(1)] unfolding y case_prod_conv
        by (intro exI [of _ a] exI [of _ Null] exI [of _ h']) (simp add: live xs)
    qed
  next
    case (Ptr b o')
    then obtain ys where b: "p = Ptr b 0" "live (hp s) b = Some (OArr ys)" "length xs \<le> length ys"
        "take (length xs) ys = xs"
      using arr by (auto simp: arr_ok_def)
    obtain x where x: "resize (length xs + 1) (OArr ys) = OArr (xs @ [x])"
      using resize_arr [OF b(3,4)] ..
    show ?thesis
      unfolding realloc_arr_def b(1) safe_with_heap
    proof (rule safe_mono [OF um.reallocarray_move [OF c(1) eight b(2)]], goal_cases)
      case (1 y)
      then obtain a h' where y: "y = (Ptr a 0, h')" and a: "next_block (hp s) \<le> a" "a < next_block h'"
        and live: "live h' = (live (hp s))(a \<mapsto> OArr (xs @ [x]), b := None)" and "length xs + 1 < 2 ^ 61"
        using c(2) x by auto
      moreover have "heap_wf h'"
        using wf a by (auto simp: heap_wf_def live split: if_splits)
      moreover have "a \<noteq> b"
        using fresh [OF a(1)] b(2) by auto
      ultimately show ?case
        using fresh [OF a(1)] unfolding y case_prod_conv
        by (intro exI [of _ a] exI [of _ x] exI [of _ h']) (simp add: live)
    qed
  qed
qed

text \<open>The stores that follow once the array has grown.\<close>

lemma listing_stores:
  assumes D: "live (hp s) d = Some (ODisp (v_disp V))" "d_connection_count (v_disp V) = length (v_conns V)"
    and arr: "arr_ok (hp s) (d_connections (v_disp V)) (map conn_ptr (v_conns V))"
    and b: "live (hp s) b = Some (OConn c)"
    and a: "live (hp s) a = None" "heap_wf h'" "live h' a = Some (OArr (map conn_ptr (v_conns V) @ [x]))"
    and old: "\<forall>b. d_connections (v_disp V) = Ptr b 0 \<longrightarrow> live h' b = None"
    and same: "\<forall>b. b \<noteq> a \<longrightarrow> d_connections (v_disp V) \<noteq> Ptr b 0 \<longrightarrow> live h' b = live (hp s) b"
  obtains s1 s2 s3 s4 where "upd_disp (Ptr d 0) (\<lambda>D. D\<lparr>d_connections := Ptr a 0\<rparr>) (s\<lparr>hp := h'\<rparr>) = ok s1"
    "store_arr (Ptr a 0) (length (v_conns V)) (conn_ptr b) s1 = ok s2"
    "upd_conn (conn_ptr b) (\<lambda>c. c\<lparr>c_index := length (v_conns V)\<rparr>) s2 = ok s3"
    "upd_disp (Ptr d 0) (\<lambda>D. D\<lparr>d_connection_count := d_connection_count D + 1\<rparr>) s3 = ok s4"
    "listing V d b c a (hp s) (hp s4)" "heap_wf (hp s4)" "tm s4 = tm s" "world s4 = world s" "trace s4 = trace s"
proof -
  let ?D = "v_disp V" and ?n = "length (v_conns V)"
  have apart: "d_connections ?D \<noteq> Ptr d 0" "d_connections ?D \<noteq> Ptr b 0" "d_connections ?D \<noteq> Ptr a 0"
    "a \<noteq> d" "a \<noteq> b" "b \<noteq> d"
    using arr D(1) b a(1) by (auto simp: arr_ok_def)
  have live: "live h' d = Some (ODisp ?D)" "live h' b = Some (OConn c)"
    using same apart D(1) b by simp_all
  let ?D1 = "?D\<lparr>d_connections := Ptr a 0\<rparr>" and ?c = "c\<lparr>c_index := ?n\<rparr>"
  let ?s1 = "store_obj (Ptr d 0) (ODisp ?D1) (s\<lparr>hp := h'\<rparr>)"
  let ?s2 = "store_obj (Ptr a 0) (OArr (map conn_ptr (v_conns V @ [b]))) ?s1"
  let ?s3 = "store_obj (conn_ptr b) (OConn ?c) ?s2"
  let ?s4 = "store_obj (Ptr d 0) (ODisp (?D1\<lparr>d_connection_count := ?n + 1\<rparr>)) ?s3"
  have steps: "upd_disp (Ptr d 0) (\<lambda>D. D\<lparr>d_connections := Ptr a 0\<rparr>) (s\<lparr>hp := h'\<rparr>) = ok ?s1"
    "store_arr (Ptr a 0) ?n (conn_ptr b) ?s1 = ok ?s2" "upd_conn (conn_ptr b) (\<lambda>c. c\<lparr>c_index := ?n\<rparr>) ?s2 = ok ?s3"
    "upd_disp (Ptr d 0) (\<lambda>D. D\<lparr>d_connection_count := d_connection_count D + 1\<rparr>) ?s3 = ok ?s4"
    using live a(3) apart D(2) by (simp_all add: list_update_append)
  have L: "listing V d b c a (hp s) (hp ?s4)"
    unfolding listing_def
  proof (intro conjI allI impI)
    show "live (hp ?s4) x = None" if "d_connections ?D = Ptr x 0" for x
      using old that apart by auto
  qed (use apart a(1) b same in simp_all)
  have wf: "heap_wf (hp ?s4)"
    using a(2,3) live by (auto simp: heap_wf_def)
  show thesis
    by (rule that [OF steps L wf]) simp_all
qed

lemma connection_list_spec:
  assumes I: "dinv P d V (hp s) (tm s)" and b: "b \<in> v_limbo V" "live (hp s) b = Some (OConn c)" "conn_ok P (hp s) c"
  shows "safe (\<lambda>s'. \<exists>p. dinv P d (listed b p V) (hp s') (tm s') \<and> keeps (hp s) (hp s') \<and>
      live (hp s') b = Some (OConn (c\<lparr>c_index := length (v_conns V)\<rparr>)) \<and>
      core_frame (set (v_conns V)) (hp s) (hp s') \<and> tm s' = tm s \<and> world s' = world s \<and>
      trace s' = trace s @ [count_line ''++'' (length (v_conns V) + 1)])
    (connection_list os (Ptr d 0) (conn_ptr b) s)"
proof -
  let ?D = "v_disp V" and ?n = "length (v_conns V)"
  have D: "live (hp s) d = Some (ODisp ?D)" "load_disp (Ptr d 0) s = ok ?D"
    using dinvD(2) [OF I] by simp_all
  have arr: "d_connection_count ?D = ?n" "arr_ok (hp s) (d_connections ?D) (map conn_ptr (v_conns V))" "?n < 2 ^ 61"
    using dinvD(3) [OF I] by (simp_all add: arrays_ok_def)
  have grow: "safe (\<lambda>(q, s'). \<exists>a x h'. q = Ptr a 0 \<and> s' = s\<lparr>hp := h'\<rparr> \<and> live (hp s) a = None \<and> heap_wf h' \<and>
      live h' a = Some (OArr (map conn_ptr (v_conns V) @ [x])) \<and> ?n + 1 < 2 ^ 61 \<and>
      (\<forall>b. d_connections ?D = Ptr b 0 \<longrightarrow> live h' b = None) \<and>
      (\<forall>b. b \<noteq> a \<longrightarrow> d_connections ?D \<noteq> Ptr b 0 \<longrightarrow> live h' b = live (hp s) b))
    (realloc_arr os (d_connections ?D) (?n + 1) s)"
    using realloc_arr_spec [OF dinvD(1) [OF I] arr(2)] arr(3) by simp
  show ?thesis
    unfolding connection_list_def D(2) obind_ok arr(1) safe_obind
  proof (rule safe_mono [OF grow], clarify, goal_cases)
    case (1 q s' a x h')
    obtain s1 s2 s3 s4 where steps: "upd_disp (Ptr d 0) (\<lambda>D. D\<lparr>d_connections := Ptr a 0\<rparr>) (s\<lparr>hp := h'\<rparr>) = ok s1"
        "store_arr (Ptr a 0) ?n (conn_ptr b) s1 = ok s2" "upd_conn (conn_ptr b) (\<lambda>c. c\<lparr>c_index := ?n\<rparr>) s2 = ok s3"
        "upd_disp (Ptr d 0) (\<lambda>D. D\<lparr>d_connection_count := d_connection_count D + 1\<rparr>) s3 = ok s4"
      and L: "listing V d b c a (hp s) (hp s4)" "heap_wf (hp s4)" and quiet: "tm s4 = tm s" "world s4 = world s" "trace s4 = trace s"
      by (rule listing_stores [OF D(1) arr(1,2) b(2) 1(1-3,5,6)])
    note S = dinv_list [OF I b(1,3) 1(4) L(2,1)] listing_keeps [OF I L(1)] listing_frame [OF I L(1) b(1)] listingD(4) [OF L(1)]
    show ?case
      unfolding case_prod_conv steps obind_ok safe_ok emit_simps quiet
      using S by (intro exI [of _ "Ptr a 0"]) simp
  qed
qed

section \<open>Releasing a connection\<close>

lemma timer_inv_other_None:
  assumes "timer_inv D A all m" "off \<noteq> OFF_INACTIVITY"
  shows "A (Ptr b off) = None"
  using assms(1)
proof (cases rule: timer_invE)
  case (1 r)
  show ?thesis
  proof (cases "A (Ptr b off)")
    case (Some x)
    with 1(4) [OF Some] assms(2) show ?thesis by (auto simp: inact_def)
  qed
qed

definition closed :: "nat \<Rightarrow> view \<Rightarrow> view" where
  "closed b V = V\<lparr>v_limbo := v_limbo V - {b}, v_map := (v_map V)(inact b := None)\<rparr>"

lemma dinv_free:
  assumes I: "dinv P d V h m" and b: "b \<in> v_limbo V" "live h b = Some (OConn c)"
    and live: "live h' = (live h)(b := None)" and nb: "next_block h' = next_block h"
    and T: "timer_inv (v_disp V) A (set (v_conns V) \<union> v_limbo V) m'" "A (inact b) = None"
  shows "dinv P d (V\<lparr>v_limbo := v_limbo V - {b}, v_map := A\<rparr>) h'
    (m'\<lparr>ents := (\<lambda>e. if e \<in> set (entry_ptrs (conn_ptr b)) then None else ents m' e)\<rparr>)"
proof (rule dinv_change [OF I])
  have notb: "b \<notin> set (v_conns V)"
    using dinvD(4) [OF I] b(1) by (auto simp: conns_ok_def)
  show "heap_wf h'"
    using dinvD(1) [OF I] by (simp add: heap_wf_def live nb)
  show "keeps h h'"
    using b(2) by (auto simp: keeps_def live)
  show "live h' d = live h d"
    using dinvD(2) [OF I] b(2) by (auto simp: live)
  show "live h' x = live h x" if "live h x = Some (OArr xs)" for x xs
    using that b(2) by (auto simp: live)
  show "\<exists>c'. live h' x = Some (OConn c') \<and> conn_same c0 c'"
    if "x \<in> set (v_conns V)" "live h x = Some (OConn c0)" for x c0
    using that notb by (auto simp: live)
  show "(\<exists>c. live h' x = Some (OConn c)) \<longleftrightarrow> x \<in> set (v_conns V) \<union> (v_limbo V - {b})" for x
    using dinv_conn_iff [OF I, of x] notb by (cases "x = b") (simp_all add: live)
  show "set (v_conns V) \<inter> (v_limbo V - {b}) = {}"
    using dinvD(4) [OF I] by (auto simp: conns_ok_def)
  have "set (v_conns V) \<union> v_limbo V - {b} = set (v_conns V) \<union> (v_limbo V - {b})"
    using notb by auto
  then show "timer_inv (v_disp V) A (set (v_conns V) \<union> (v_limbo V - {b}))
      (m'\<lparr>ents := (\<lambda>e. if e \<in> set (entry_ptrs (conn_ptr b)) then None else ents m' e)\<rparr>)"
    using timer_inv_drop_conn [OF T] by simp
qed

lemma free_conn_ok:
  assumes "live (hp s) b = Some x"
  shows "free_conn (conn_ptr b) s = ok (s\<lparr>hp := (hp s)\<lparr>live := (live (hp s))(b := None)\<rparr>,
    tm := (tm s)\<lparr>ents := (\<lambda>e. if e \<in> set (entry_ptrs (conn_ptr b)) then None else ents (tm s) e)\<rparr>\<rparr>)"
  using assms by (simp add: free_conn_def FREE_def c_free_def cong: if_cong)

lemma connection_close_spec:
  assumes I: "dinv P d V (hp s) (tm s)" and b: "b \<in> v_limbo V" "live (hp s) b = Some (OConn c)"
  shows "\<exists>s'. connection_close os (conn_ptr b) s = ok s' \<and> dinv P d (closed b V) (hp s') (tm s') \<and>
    live (hp s') = (live (hp s))(b := None) \<and> same_rings (tm s) (tm s') \<and>
    trace s' = trace s @ (if 0 < c_fd c then [Close (c_fd c)] else [])"
proof -
  let ?all = "set (v_conns V) \<union> v_limbo V"
  define s0 where "s0 = (if c_fd c > 0 then c_close os (c_fd c) s else s)"
  let ?s1 = "store_obj (conn_ptr b) (OConn (c\<lparr>c_fd := -1\<rparr>)) s0"
  have s0: "hp s0 = hp s" "tm s0 = tm s" "trace s0 = trace s @ (if 0 < c_fd c then [Close (c_fd c)] else [])"
    by (simp_all add: s0_def)
  have T: "timer_inv (v_disp V) (v_map V) ?all (tm s)"
    using dinvD(5) [OF I] .
  have all: "b \<in> ?all" using b(1) by simp
  obtain m1 where m1: "timeout_unlink (inact b) (tm s) = ok m1"
      "timer_inv (v_disp V) ((v_map V)(inact b := None)) ?all m1" "same_rings (tm s) m1"
    using timer_inv_unlink [OF T all, of "inact b"] by (auto simp: inact_def)
  have same: "((v_map V)(inact b := None))(Ptr b off := None) = (v_map V)(inact b := None)"
    if "off \<noteq> OFF_INACTIVITY" for off
    using timer_inv_other_None [OF m1(2) that, of b] by (simp add: fun_upd_idem_iff)
  obtain m2 where m2: "timeout_unlink (Ptr b OFF_SLEEP) m1 = ok m2"
      "timer_inv (v_disp V) ((v_map V)(inact b := None)) ?all m2" "same_rings m1 m2"
    using timer_inv_unlink [OF m1(2) all, of "Ptr b OFF_SLEEP"] same [of OFF_SLEEP] by auto
  obtain m3 where m3: "timeout_unlink (Ptr b OFF_RECEIVE) m2 = ok m3"
      "timer_inv (v_disp V) ((v_map V)(inact b := None)) ?all m3" "same_rings m2 m3"
    using timer_inv_unlink [OF m2(2) all, of "Ptr b OFF_RECEIVE"] same [of OFF_RECEIVE] by auto
  let ?s4 = "?s1\<lparr>tm := m3\<rparr>"
  let ?h = "(hp ?s4)\<lparr>live := (live (hp ?s4))(b := None)\<rparr>"
  let ?m = "m3\<lparr>ents := (\<lambda>e. if e \<in> set (entry_ptrs (conn_ptr b)) then None else ents m3 e)\<rparr>"
  let ?s5 = "?s4\<lparr>hp := ?h, tm := ?m\<rparr>"
  have "upd_conn (conn_ptr b) (\<lambda>c. c\<lparr>c_fd := -1\<rparr>) s0 = ok ?s1"
    using b(2) s0 by simp
  moreover have "free_conn (conn_ptr b) ?s4 = ok ?s5"
  proof -
    have "live (hp ?s4) b = Some (OConn (c\<lparr>c_fd := -1\<rparr>))" and "tm ?s4 = m3" by simp_all
    from free_conn_ok [OF this(1), unfolded this(2)] show ?thesis .
  qed
  ultimately have "connection_close os (conn_ptr b) s = ok ?s5"
    unfolding connection_close_def using b(2) m1(1) m2(1) m3(1)
    by (simp add: with_tm_def s0 flip: inact_def s0_def del: set_entry_ptrs)
  moreover have "dinv P d (closed b V) ?h ?m"
    unfolding closed_def
    by (rule dinv_free [OF I b _ _ m3(2)]) (simp_all add: s0)
  moreover have "same_rings (tm s) ?m"
    using m1(3) m2(3) m3(3) by (simp add: same_rings_def)
  ultimately show ?thesis by (intro exI [of _ ?s5]) (simp add: s0)
qed

end
