(* ===== verification/Dispatch_Handler.thy ===== *)
theory Dispatch_Handler
  imports Dispatch_Lists
begin

text \<open>
  The contract between the dispatcher and the application. The locale \<open>handler\<close> states what the
  dispatcher needs of the callbacks behind the function pointers of a service: every service that
  satisfies \<open>Q\<close> has an event handler, and a callback returns (or aborts), keeps every object of the
  dispatcher but the user data of its own connection, leaves the timers alone, hands no data over itself, and maintains the
  application's invariant \<open>uinv\<close>. That invariant speaks about the user data of the open connections
  (between their \<open>NEW\<close> and \<open>END\<close> notification) and about the application's own blocks.
  Under this contract adding and removing a connection keep the invariant of the dispatcher and of
  the application.
\<close>

definition users :: "view \<Rightarrow> obj heap \<Rightarrow> nat \<Rightarrow> ptr option" where
  "users V h = (\<lambda>b. if b \<in> set (v_conns V) then udata h b else None)"

type_synonym user_inv = "(nat \<Rightarrow> ptr option) \<Rightarrow> (nat \<Rightarrow> telnet_service option) \<Rightarrow> bool"

text \<open>The data that a trace hands to the application.\<close>

fun deliveries :: "obs list \<Rightarrow> (ptr \<times> u8 list) list" where
  "deliveries [] = []"
| "deliveries (Deliver p buf # tr) = (p, buf) # deliveries tr"
| "deliveries (_ # tr) = deliveries tr"

definition delivers :: "(ptr \<times> u8 list) list \<Rightarrow> 'w state \<Rightarrow> 'w state \<Rightarrow> bool" where
  "delivers ds s s' \<longleftrightarrow> (\<exists>tr. trace s' = trace s @ tr \<and> deliveries tr = ds)"

lemma deliveries_append [simp]: "deliveries (xs @ ys) = deliveries xs @ deliveries ys"
  by (induction xs rule: deliveries.induct) simp_all

lemma delivers_same: "trace s' = trace s \<Longrightarrow> delivers [] s s'"
  by (simp add: delivers_def)

lemma delivers_emit: "trace s' = trace s @ [a] \<Longrightarrow> delivers (deliveries [a]) s s'"
  by (simp add: delivers_def)

lemma delivers_trans: "delivers xs s s1 \<Longrightarrow> delivers ys s1 s2 \<Longrightarrow> delivers (xs @ ys) s s2"
  by (auto simp: delivers_def)

text \<open>What a callback for connection \<open>b\<close> may do.\<close>

definition callback_ok :: "nat \<Rightarrow> 'w state \<Rightarrow> 'w state \<Rightarrow> bool" where
  "callback_ok b s s' \<longleftrightarrow> app_frame (hp s) (hp s') \<and> tm s' = tm s \<and>
     (\<forall>b'. b' \<noteq> b \<longrightarrow> udata (hp s') b' = udata (hp s) b') \<and> delivers [] s s'"

text \<open>The connection in block \<open>b\<close> and its service, as a callback finds them.\<close>

definition conn_svc :: "(service \<Rightarrow> bool) \<Rightarrow> obj heap \<Rightarrow> nat \<Rightarrow> connection \<Rightarrow> service \<Rightarrow> bool" where
  "conn_svc Q h b c v \<longleftrightarrow> live h b = Some (OConn c) \<and> conn_ok Q h c \<and> Q v \<and>
     (\<exists>k. c_svc c = Ptr k 0 \<and> live h k = Some (OSvc v))"

definition dispatcher_ok :: "user_inv \<Rightarrow> (service \<Rightarrow> bool) \<Rightarrow> nat \<Rightarrow> view \<Rightarrow> 'w state \<Rightarrow> bool" where
  "dispatcher_ok uinv P d V s \<longleftrightarrow> dinv P d V (hp s) (tm s) \<and> uinv (users V (hp s)) (app (hp s))"

locale handler =
  fixes cbs :: "'w callbacks" and Q :: "service \<Rightarrow> bool" and uinv :: user_inv
  assumes has_event: "Q v \<Longrightarrow> s_event v \<noteq> 0"
    and on_new: "heap_wf (hp s) \<Longrightarrow> conn_svc Q (hp s) b c v \<Longrightarrow> uinv U (app (hp s)) \<Longrightarrow> U b = None \<Longrightarrow>
      safe (\<lambda>s'. callback_ok b s s' \<and> uinv (U(b := udata (hp s') b)) (app (hp s')))
        (cb_event cbs (s_event v) (conn_ptr b) DISPATCH_NEW_CONNECTION (Some (connection_info c v)) s)"
    and on_end: "heap_wf (hp s) \<Longrightarrow> conn_svc Q (hp s) b c v \<Longrightarrow> uinv U (app (hp s)) \<Longrightarrow> U b = udata (hp s) b \<Longrightarrow>
      safe (\<lambda>s'. callback_ok b s s' \<and> uinv (U(b := None)) (app (hp s')))
        (cb_event cbs (s_event v) (conn_ptr b) DISPATCH_END_CONNECTION (Some (connection_info c v)) s)"
    and on_timeout: "heap_wf (hp s) \<Longrightarrow> conn_svc Q (hp s) b c v \<Longrightarrow> uinv U (app (hp s)) \<Longrightarrow> U b = udata (hp s) b \<Longrightarrow>
      ev \<in> {DISPATCH_TIMEOUT_INACTIVITY, DISPATCH_TIMEOUT_SLEEP, DISPATCH_TIMEOUT_RECEIVE} \<Longrightarrow>
      safe (\<lambda>s'. callback_ok b s s' \<and> uinv (U(b := udata (hp s') b)) (app (hp s')))
        (cb_event cbs (s_event v) (conn_ptr b) ev None s)"
    and on_recv: "heap_wf (hp s) \<Longrightarrow> conn_svc Q (hp s) b c v \<Longrightarrow> uinv U (app (hp s)) \<Longrightarrow> U b = udata (hp s) b \<Longrightarrow>
      s_recv v \<noteq> 0 \<Longrightarrow> buf \<noteq> [] \<Longrightarrow>
      safe (\<lambda>s'. callback_ok b s s' \<and> uinv (U(b := udata (hp s') b)) (app (hp s')))
        (cb_recv cbs (s_recv v) (conn_ptr b) (c_userdata c) buf s)"

section \<open>Lemmas on the contract\<close>

lemma conn_ok_weaken: "conn_ok P h c \<Longrightarrow> P \<le> Q \<Longrightarrow> conn_ok Q h c"
  by (auto simp: conn_ok_def svc_ok_def le_fun_def)

lemma dinv_weaken:
  assumes "dinv P d V h m" "P \<le> Q"
  shows "dinv Q d V h m"
proof -
  have "svc_ok Q h p" if "svc_ok P h p" for p
    using that assms(2) by (auto simp: svc_ok_def le_fun_def)
  with assms conn_ok_weaken [OF _ assms(2)] show ?thesis
    unfolding dinv_def arrays_ok_def conns_ok_def by blast
qed

lemma conn_ok_svc:
  assumes "conn_ok P h c" "live h b = Some (OConn c)" "P \<le> Q"
  obtains k v where "c_svc c = Ptr k 0" "live h k = Some (OSvc v)" "P v" "conn_svc Q h b c v"
proof -
  obtain k v where "c_svc c = Ptr k 0" "live h k = Some (OSvc v)" "P v"
    using assms(1) by (auto simp: conn_ok_def svc_ok_def)
  moreover from this have "conn_svc Q h b c v"
    using conn_ok_weaken [OF assms(1,3)] assms(2,3) by (auto simp: conn_svc_def le_fun_def)
  ultimately show thesis by (rule that)
qed

lemma dinv_conn:
  assumes "dinv P d V h m" "i < length (v_conns V)"
  obtains c where "live h (v_conns V ! i) = Some (OConn c)" "c_index c = i" "conn_ok P h c"
  using assms unfolding dinv_def conns_ok_def by blast

lemma dinv_conns_nth:
  assumes "dinv P d V (hp s) (tm s)" "i < length (v_conns V)"
  shows "load_arr (d_connections (v_disp V)) i s = ok (conn_ptr (v_conns V ! i))"
  using dinvD(3) [OF assms(1)] assms(2) arr_ok_nth [of s "d_connections (v_disp V)" "map conn_ptr (v_conns V)" i]
  by (simp add: arrays_ok_def)

lemma callback_users:
  assumes "callback_ok b s s'"
  shows "users V (hp s') = (users V (hp s))(b := (if b \<in> set (v_conns V) then udata (hp s') b else None))"
  using assms by (auto simp: callback_ok_def users_def fun_eq_iff)

lemma callback_dinv:
  "dinv P d V (hp s) (tm s) \<Longrightarrow> callback_ok b s s' \<Longrightarrow> dinv P d V (hp s') (tm s')"
  by (auto simp: callback_ok_def intro: dinv_app_frame)

lemma callback_conn:
  "callback_ok b s s' \<Longrightarrow> live (hp s) b' = Some (OConn c) \<Longrightarrow> \<exists>u. live (hp s') b' = Some (OConn (c\<lparr>c_userdata := u\<rparr>))"
  by (auto simp: callback_ok_def intro: app_frame_conn)

lemma callback_cfd:
  assumes "callback_ok b s s'"
  shows "cfd (hp s') x = cfd (hp s) x"
proof -
  have same: "obj_core (live (hp s') x) = obj_core (live (hp s) x)"
    using assms by (simp add: callback_ok_def app_frame_def)
  have "cfd h x = (case obj_core (live h x) of Some (OConn c) \<Rightarrow> Some (c_fd c) | _ \<Rightarrow> None)" for h
    by (simp add: cfd_def obj_core_def split: option.split obj.split)
  with same show ?thesis by simp
qed

lemma callback_keeps: "callback_ok b s s' \<Longrightarrow> keeps (hp s) (hp s')"
  by (auto simp: callback_ok_def intro: app_frame_keeps)

lemma core_frame_users: "core_frame B h h' \<Longrightarrow> set (v_conns V) \<subseteq> B \<Longrightarrow> users V h' = users V h \<and> app h' = app h"
  by (auto simp: core_frame_def users_def udata_core fun_eq_iff)

text \<open>The view after a removal.\<close>

definition removed :: "nat \<Rightarrow> view \<Rightarrow> view" where
  "removed i V = closed (v_conns V ! i) (unlisted i V)"

lemma removed_simps [simp]:
  "v_conns (removed i V) = swap_remove i (v_conns V)"
  "v_map (removed i V) = (v_map V)(inact (v_conns V ! i) := None)"
  "v_svcs (removed i V) = v_svcs V"
  "d_inactivity (v_disp (removed i V)) = d_inactivity (v_disp V)"
  "d_sleep (v_disp (removed i V)) = d_sleep (v_disp V)"
  "v_limbo (removed i V) = v_limbo V - {v_conns V ! i}"
  by (auto simp: removed_def closed_def unlisted_def)

text \<open>The view after an addition.\<close>

definition added :: "nat \<Rightarrow> ptr \<Rightarrow> nat \<Rightarrow> u64 \<Rightarrow> view \<Rightarrow> view" where
  "added b p r ts V = listed b p (V\<lparr>v_limbo := insert b (v_limbo V),
     v_map := (v_map V)(inact b \<mapsto> (r, ts, OFF_INACTIVITY))\<rparr>)"

lemma added_simps [simp]:
  "v_conns (added b p r ts V) = v_conns V @ [b]"
  "v_map (added b p r ts V) = (v_map V)(inact b \<mapsto> (r, ts, OFF_INACTIVITY))"
  "v_svcs (added b p r ts V) = v_svcs V"
  "d_inactivity (v_disp (added b p r ts V)) = d_inactivity (v_disp V)"
  "d_sleep (v_disp (added b p r ts V)) = d_sleep (v_disp V)"
  "v_limbo (added b p r ts V) = v_limbo V - {b}"
  by (auto simp: added_def listed_def)

context handler
begin

lemma call_event_eq:
  "conn_svc Q h b c v \<Longrightarrow> call_event cbs (s_event v) p ev n s = cb_event cbs (s_event v) p ev n (emit (Notify p ev) s)"
  by (simp add: call_event_def conn_svc_def has_event)

text \<open>The application is told that a connection ends.\<close>

lemma end_event:
  assumes U: "uinv (users V (hp s)) (app (hp s))" and mem: "b \<in> set (v_conns V)"
    and I1: "dinv P d V1 (hp s1) (tm s1)" and frame: "core_frame (set (v_conns V)) (hp s) (hp s1)"
    and v: "conn_svc Q (hp s1) b c v"
  shows "safe (\<lambda>s3. callback_ok b (emit (Notify (conn_ptr b) DISPATCH_END_CONNECTION) s1) s3 \<and>
      uinv ((users V (hp s))(b := None)) (app (hp s3)))
    (call_event cbs (s_event v) (conn_ptr b) DISPATCH_END_CONNECTION (Some (connection_info c v)) s1)"
  unfolding call_event_eq [OF v]
proof (rule on_end)
  let ?s = "emit (Notify (conn_ptr b) DISPATCH_END_CONNECTION) s1"
  show "heap_wf (hp ?s)" "conn_svc Q (hp ?s) b c v"
    using dinvD(1) [OF I1] v by simp_all
  show "uinv (users V (hp s)) (app (hp ?s))"
    using U frame by (simp add: core_frame_def)
  show "users V (hp s) b = udata (hp ?s) b"
    using core_frame_same(1) [OF frame mem] mem by (simp add: users_def)
qed

text \<open>After that it is closed; \<open>s\<close> is the state before the removal, \<open>s1\<close> the one in which the connection has
  left the list, \<open>s3\<close> that after the callback.\<close>

lemma close_step:
  assumes I: "dinv P d V (hp s) (tm s)" and i: "i < length (v_conns V)" and c: "live (hp s) (v_conns V ! i) = Some (OConn c)"
    and s1: "dinv P d (unlisted i V) (hp s1) (tm s1)" "core_frame (set (v_conns V)) (hp s) (hp s1)" "keeps (hp s) (hp s1)"
      "tm s1 = tm s" "live (hp s1) (v_conns V ! i) = Some (OConn (c\<lparr>c_index := j\<rparr>))"
    and quiet: "delivers [] s s1" "deliveries [a] = []"
    and s3: "callback_ok (v_conns V ! i) (emit a s1) s3" "uinv ((users V (hp s))(v_conns V ! i := None)) (app (hp s3))"
  shows "safe (\<lambda>s'. dispatcher_ok uinv P d (removed i V) s' \<and> keeps (hp s) (hp s') \<and> same_rings (tm s) (tm s') \<and>
      (\<forall>x. x \<noteq> v_conns V ! i \<longrightarrow> x \<in> set (v_conns V) \<longrightarrow> cfd (hp s') x = cfd (hp s) x) \<and>
      (\<forall>fd. cfd (hp s) (v_conns V ! i) = Some fd \<longrightarrow> 0 < fd \<longrightarrow> last (trace s') = Close fd) \<and> delivers [] s s')
    (connection_close os (conn_ptr (v_conns V ! i)) s3)"
proof -
  let ?b = "v_conns V ! i" and ?c1 = "c\<lparr>c_index := j\<rparr>"
  have lim: "?b \<in> v_limbo (unlisted i V)" by (simp add: unlisted_def)
  have I3: "dinv P d (unlisted i V) (hp s3) (tm s3)"
    using callback_dinv [OF _ s3(1)] s1(1) by simp
  obtain u where c3: "live (hp s3) ?b = Some (OConn (?c1\<lparr>c_userdata := u\<rparr>))"
    using callback_conn [OF s3(1), of ?b ?c1] s1(5) by auto
  obtain s4 where s4: "connection_close os (conn_ptr ?b) s3 = ok s4" "dinv P d (removed i V) (hp s4) (tm s4)"
      "live (hp s4) = (live (hp s3))(?b := None)" "trace s4 = trace s3 @ (if 0 < c_fd c then [Close (c_fd c)] else [])"
      "same_rings (tm s3) (tm s4)"
    using connection_close_spec [OF I3 lim c3, of os] by (auto simp: removed_def cong: if_cong)
  have frame: "core_frame (set (v_conns V) - {?b}) (hp s3) (hp s4)"
    by (rule core_frame_upd [OF s4(3)]) (use c3 in auto)
  have same: "udata (hp s4) x = udata (hp s) x \<and> cfd (hp s4) x = cfd (hp s) x" if "x \<in> set (v_conns V)" "x \<noteq> ?b" for x
    using that core_frame_same [OF frame, of x] core_frame_same [OF s1(2), of x] callback_cfd [OF s3(1), of x] s3(1)
    by (simp add: callback_ok_def)
  have "users (removed i V) (hp s4) = (users V (hp s))(?b := None)"
    using same set_swap_remove [OF _ i] dinvD(4) [OF I] by (auto simp: users_def fun_eq_iff conns_ok_def)
  moreover have "app (hp s4) = app (hp s3)"
    using frame by (simp add: core_frame_def)
  ultimately have "dispatcher_ok uinv P d (removed i V) s4"
    using s3(2) s4(2) by (simp add: dispatcher_ok_def)
  moreover have "keeps (hp s) (hp s4)"
    using s1(3) callback_keeps [OF s3(1)] c3 by (auto simp: keeps_def s4(3))
  moreover have "\<forall>fd. cfd (hp s) ?b = Some fd \<longrightarrow> 0 < fd \<longrightarrow> last (trace s4) = Close fd"
    using c by (simp add: cfd_def s4(4))
  moreover have "same_rings (tm s) (tm s4)"
    using s4(5) s3(1) s1(4) by (simp add: callback_ok_def)
  moreover have "delivers [] (emit a s1) s4"
    using s3(1) s4(4) by (auto simp: callback_ok_def delivers_def)
  then have "delivers [] s s4"
    using delivers_trans [OF quiet(1) delivers_trans [OF delivers_emit [of "emit a s1" s1 a]]] quiet(2) by simp
  ultimately show ?thesis
    using same by (simp add: s4(1))
qed

lemma remove_ok:
  assumes D: "dispatcher_ok uinv P d V s" and i: "i < length (v_conns V)" and PQ: "P \<le> Q"
  shows "safe (\<lambda>s'. dispatcher_ok uinv P d (removed i V) s' \<and> keeps (hp s) (hp s') \<and>
      same_rings (tm s) (tm s') \<and>
      (\<forall>x. x \<noteq> v_conns V ! i \<longrightarrow> x \<in> set (v_conns V) \<longrightarrow> cfd (hp s') x = cfd (hp s) x) \<and>
      (\<forall>fd. cfd (hp s) (v_conns V ! i) = Some fd \<longrightarrow> 0 < fd \<longrightarrow> last (trace s') = Close fd) \<and> delivers [] s s')
    (connection_remove os cbs (Ptr d 0) i s)"
proof -
  have I: "dinv P d V (hp s) (tm s)" and U: "uinv (users V (hp s)) (app (hp s))"
    using D by (simp_all add: dispatcher_ok_def)
  let ?b = "v_conns V ! i"
  have mem: "?b \<in> set (v_conns V)" using i by simp
  obtain c where c: "live (hp s) ?b = Some (OConn c)" "conn_ok P (hp s) c"
    using dinv_conn [OF I i] .
  obtain s1 where s1: "connection_unlist (Ptr d 0) i s = ok s1" "dinv P d (unlisted i V) (hp s1) (tm s1)"
      "core_frame (set (v_conns V)) (hp s) (hp s1)" "keeps (hp s) (hp s1)" "tm s1 = tm s"
      "trace s1 = trace s @ [count_line ''--'' (length (v_conns V) - 1)]"
    using connection_unlist_spec [OF I i] by blast
  have quiet: "delivers [] s s1"
    using delivers_emit [OF s1(6)] by (simp add: count_line_def)
  obtain j where c1: "live (hp s1) ?b = Some (OConn (c\<lparr>c_index := j\<rparr>))"
    using conn_core_eq [OF _ c(1), of "hp s1"] s1(3) mem by (auto simp: core_frame_def)
  let ?c1 = "c\<lparr>c_index := j\<rparr>"
  have ok1: "conn_ok P (hp s1) ?c1"
    using conn_ok_mono [OF c(2) s1(4)] by simp
  obtain k v where v0: "c_svc ?c1 = Ptr k 0" and v: "live (hp s1) k = Some (OSvc v)" "P v" "conn_svc Q (hp s1) ?b ?c1 v"
    using conn_ok_svc [OF ok1 c1 PQ] .
  have steps: "load_disp (Ptr d 0) s = ok (v_disp V)" "load_arr (d_connections (v_disp V)) i s = ok (conn_ptr ?b)"
    "load_conn (conn_ptr ?b) s = ok c" "load_svc (Ptr k 0) s1 = ok v" "load_conn (conn_ptr ?b) s1 = ok ?c1"
    using dinvD(2) [OF I] dinv_conns_nth [OF I i] c(1) v(1) c1 by simp_all
  show ?thesis
    unfolding connection_remove_def steps(1-3) obind_ok Let_def s1(1) v0 [simplified] steps(4,5) safe_obind
    by (rule safe_mono [OF end_event [OF U mem s1(2,3) v(3)]], elim conjE)
      (rule close_step [OF I i c(1) s1(2-5) c1 quiet], simp_all)
qed

text \<open>A new connection is announced; \<open>s\<close> is the state before it was made, \<open>s3\<close> the one in which it is listed.\<close>

lemma new_event:
  assumes U: "uinv (users V (hp s)) (app (hp s))" and b: "b \<notin> set (v_conns V) \<union> v_limbo V"
    and I3: "dinv P d (added b q r ts V) (hp s3) (tm s3)" and f3: "core_frame (set (v_conns V)) (hp s) (hp s3)"
    and k3: "keeps (hp s) (hp s3)" and c: "live (hp s3) b = Some (OConn c)" and v: "conn_svc Q (hp s3) b c v"
    and r3: "same_rings (tm s) (tm s3)"
  shows "safe (\<lambda>s4. dispatcher_ok uinv P d (added b q r ts V) s4 \<and> keeps (hp s) (hp s4) \<and> same_rings (tm s) (tm s4) \<and>
      cfd (hp s4) b = Some (c_fd c) \<and> (\<forall>x \<in> set (v_conns V). cfd (hp s4) x = cfd (hp s) x))
    (call_event cbs (s_event v) (conn_ptr b) DISPATCH_NEW_CONNECTION (Some (connection_info c v)) s3)"
proof -
  let ?s = "emit (Notify (conn_ptr b) DISPATCH_NEW_CONNECTION) s3" and ?V = "added b q r ts V"
  have event: "safe (\<lambda>s4. callback_ok b ?s s4 \<and> uinv ((users V (hp s))(b := udata (hp s4) b)) (app (hp s4)))
      (call_event cbs (s_event v) (conn_ptr b) DISPATCH_NEW_CONNECTION (Some (connection_info c v)) s3)"
    unfolding call_event_eq [OF v]
  proof (rule on_new)
    show "heap_wf (hp ?s)" "conn_svc Q (hp ?s) b c v"
      using dinvD(1) [OF I3] v by simp_all
    show "uinv (users V (hp s)) (app (hp ?s))" "users V (hp s) b = None"
      using U f3 b by (simp_all add: core_frame_def users_def)
  qed
  show ?thesis
  proof (rule safe_mono [OF event], elim conjE, goal_cases)
    case (1 s4)
    have "dinv P d ?V (hp s4) (tm s4)"
      using callback_dinv [OF _ 1(1)] I3 by simp
    moreover have same: "udata (hp s4) x = udata (hp s) x \<and> cfd (hp s4) x = cfd (hp s) x" if "x \<in> set (v_conns V)" for x
      using that core_frame_same [OF f3, of x] callback_cfd [OF 1(1), of x] 1(1) b
      by (auto simp: callback_ok_def)
    moreover have "users ?V (hp s4) = (users V (hp s))(b := udata (hp s4) b)"
      using same b by (auto simp: users_def fun_eq_iff)
    moreover have "keeps (hp s) (hp s4)"
      using k3 callback_keeps [OF 1(1)] by (auto simp: keeps_def)
    moreover have "cfd (hp s4) b = Some (c_fd c)"
      using callback_cfd [OF 1(1), of b] c by (simp add: cfd_def)
    moreover have "same_rings (tm s) (tm s4)"
      using r3 1(1) by (simp add: callback_ok_def)
    ultimately show ?case
      using 1(2) by (simp add: dispatcher_ok_def)
  qed
qed

lemma add_ok:
  assumes D: "dispatcher_ok uinv P d V s" and svc: "svc_ok P (hp s) svc" and PQ: "P \<le> Q"
  shows "safe (\<lambda>(p, s'). \<exists>b q r ts. p = conn_ptr b \<and> b \<notin> set (v_conns V) \<union> v_limbo V \<and>
      d_inactivity (v_disp V) = Ptr r 0 \<and> dispatcher_ok uinv P d (added b q r ts V) s' \<and>
      keeps (hp s) (hp s') \<and> same_rings (tm s) (tm s') \<and> cfd (hp s') b = Some fd2 \<and>
      (\<forall>x \<in> set (v_conns V). cfd (hp s') x = cfd (hp s) x))
    (connection_add os cbs (Ptr d 0) svc fd2 peeraddr peerport s)"
proof -
  have I: "dinv P d V (hp s) (tm s)" and U: "uinv (users V (hp s)) (app (hp s))"
    using D by (simp_all add: dispatcher_ok_def)
  show ?thesis
    unfolding connection_add_def safe_obind
  proof (rule safe_mono [OF connection_new_spec [OF I svc]], goal_cases)
    case (1 x)
    then obtain b c s1 where x: "x = (conn_ptr b, s1)" and F: "fresh_conn P d V s b c s1"
        and c: "conn_ok P (hp s1) c" "c_svc c = svc" "c_fd c = fd2"
      by auto
    let ?V1 = "V\<lparr>v_limbo := insert b (v_limbo V)\<rparr>"
    have b: "b \<notin> set (v_conns V) \<union> v_limbo V" "live (hp s1) b = Some (OConn c)"
      and I1: "dinv P d ?V1 (hp s1) (tm s1)" and k1: "keeps (hp s) (hp s1)"
      and f1: "core_frame (set (v_conns V)) (hp s) (hp s1)" and r1: "same_rings (tm s) (tm s1)"
      using F by (simp_all add: fresh_conn_def)
    obtain s2 r ts where s2: "connection_arm os (Ptr d 0) svc (conn_ptr b) s1 = ok s2" "hp s2 = hp s1"
        "d_inactivity (v_disp V) = Ptr r 0" "same_rings (tm s1) (tm s2)"
        "dinv P d (?V1\<lparr>v_map := (v_map V)(inact b \<mapsto> (r, ts, OFF_INACTIVITY))\<rparr>) (hp s2) (tm s2)"
      using connection_arm_spec [OF I1 _ svc_ok_mono [OF svc k1], of b os] by auto
    let ?V2 = "?V1\<lparr>v_map := (v_map V)(inact b \<mapsto> (r, ts, OFF_INACTIVITY))\<rparr>"
    have lim: "b \<in> v_limbo ?V2" "live (hp s2) b = Some (OConn c)" "conn_ok P (hp s2) c"
      using b(2) c(1) s2(2) by simp_all
    show ?case
      unfolding x case_prod_conv s2(1) obind_ok safe_obind
    proof (rule safe_mono [OF connection_list_spec [OF s2(5) lim]], elim exE conjE, goal_cases)
      case (1 s3 q)
      let ?c = "c\<lparr>c_index := length (v_conns V)\<rparr>"
      have I3: "dinv P d (added b q r ts V) (hp s3) (tm s3)"
        using 1(1) by (simp add: added_def)
      have f3: "core_frame (set (v_conns V)) (hp s) (hp s3)"
        using core_frame_trans [OF f1] 1(4) s2(2) by simp
      have k3: "keeps (hp s) (hp s3)"
        using k1 1(2) s2(2) by (auto simp: keeps_def)
      have r3: "same_rings (tm s) (tm s3)"
        using same_rings_trans [OF r1 s2(4)] 1(5) by simp
      have c3: "live (hp s3) b = Some (OConn ?c)" "conn_ok P (hp s3) ?c"
        using 1(3) conn_ok_mono [OF lim(3) 1(2)] by simp_all
      obtain k v where v0: "c_svc ?c = Ptr k 0" and v: "live (hp s3) k = Some (OSvc v)" "P v" "conn_svc Q (hp s3) b ?c v"
        using conn_ok_svc [OF c3(2,1) PQ] .
      have steps: "load_svc svc s3 = ok v" "load_conn (conn_ptr b) s3 = ok ?c"
        using v0 v(1) c(2) c3(1) by simp_all
      show ?case
        unfolding steps obind_ok safe_obind safe_ok case_prod_conv
        by (rule safe_mono [OF new_event [OF U b(1) I3 f3 k3 c3(1) v(3) r3]])
          (use b(1) s2(3) c(3) in \<open>auto intro!: exI [of _ b] exI [of _ q] exI [of _ r] exI [of _ ts]\<close>)
    qed
  qed
qed

end

end
