(* ===== verification/Dispatch_Loops.thy ===== *)
theory Dispatch_Loops
  imports Dispatch_Handler
begin

text \<open>
  The loops of the dispatcher under the contract of \<^theory_text>\<open>Dispatch_Handler\<close>: the inactivity loop, which
  ends because every round disarms an entry, and the four loops over the lists after \<open>select\<close>, which
  end because every round either advances the index or shortens the list. Each keeps the invariant.
\<close>

section \<open>A rule for loops\<close>

lemma for_loop_safe:
  assumes "Inv i s"
    and step: "\<And>i s. Inv i s \<Longrightarrow> safe (\<lambda>n. if i < n
        then safe (\<lambda>(j, s'). Inv j s' \<and> (rank j s' :: nat) < rank i s) (body i s) else Post s) (bound s)"
  shows "safe Post (for_loop bound body i s)"
  using assms(1)
proof (induction "rank i s" arbitrary: i s rule: less_induct)
  case less
  show ?case
    unfolding for_loop.simps [of bound body i s] safe_obind
  proof (rule safe_mono [OF step [OF less.prems]], goal_cases)
    case (1 n)
    show ?case
    proof (cases "i < n")
      case True
      with 1 have "safe (\<lambda>(j, s'). Inv j s' \<and> rank j s' < rank i s) (body i s)"
        by simp
      then show ?thesis
        using True less.hyps by (auto intro: safe_mono)
    qed (use 1 in simp)
  qed
qed

section \<open>Runs that only remove connections\<close>

definition shrinks :: "view \<Rightarrow> 'w state \<Rightarrow> view \<Rightarrow> 'w state \<Rightarrow> bool" where
  "shrinks V s V' s' \<longleftrightarrow>
     v_svcs V' = v_svcs V \<and> v_limbo V' = {} \<and> set (v_conns V') \<subseteq> set (v_conns V) \<and>
     d_inactivity (v_disp V') = d_inactivity (v_disp V) \<and> d_sleep (v_disp V') = d_sleep (v_disp V) \<and>
     keeps (hp s) (hp s') \<and>
     (\<forall>b \<in> set (v_conns V'). v_map V' (inact b) = v_map V (inact b) \<and> cfd (hp s') b = cfd (hp s) b)"

lemma keeps_refl [simp]: "keeps h h"
  by (simp add: keeps_def)

lemma keeps_trans: "keeps h h1 \<Longrightarrow> keeps h1 h2 \<Longrightarrow> keeps h h2"
  by (simp add: keeps_def)

lemma shrinks_refl: "v_limbo V = {} \<Longrightarrow> shrinks V s V s"
  by (simp add: shrinks_def)

lemma shrinks_trans: "shrinks V s V1 s1 \<Longrightarrow> shrinks V1 s1 V2 s2 \<Longrightarrow> shrinks V s V2 s2"
  unfolding shrinks_def by (auto intro: keeps_trans)

lemma shrinks_removed:
  assumes "dinv P d V (hp s) (tm s)" "v_limbo V = {}" "i < length (v_conns V)" "keeps (hp s) (hp s')"
    and "\<forall>x. x \<noteq> v_conns V ! i \<longrightarrow> x \<in> set (v_conns V) \<longrightarrow> cfd (hp s') x = cfd (hp s) x"
  shows "shrinks V s (removed i V) s'"
proof -
  have "set (v_conns (removed i V)) = set (v_conns V) - {v_conns V ! i}"
    using dinvD(4) [OF assms(1)] assms(3) by (simp add: set_swap_remove conns_ok_def)
  with assms(2,4,5) show ?thesis by (auto simp: shrinks_def)
qed

lemma callback_shrinks:
  assumes "callback_ok b s s'" "v_limbo V = {}"
  shows "shrinks V s V s'"
  using assms callback_keeps [OF assms(1)] callback_cfd [OF assms(1)] by (simp add: shrinks_def)

text \<open>The tick at which a listed connection is closed for inactivity.\<close>

definition deadline :: "view \<Rightarrow> nat \<Rightarrow> u64 option" where
  "deadline V b = map_option (fst \<circ> snd) (v_map V (inact b))"

lemma dinv_take:
  assumes I: "dinv P d V (hp s) (tm s)" and lim: "v_limbo V = {}" and now: "now \<noteq> - 1"
  obtains (none) m' where "take_timeout (d_inactivity (v_disp V)) now s = ok (Null, s\<lparr>tm := m'\<rparr>)"
      and "dinv P d V (hp s) m'"
      and "timely (tm s) (v_map V) \<Longrightarrow> timely m' (v_map V) \<and> (\<forall>b ts. deadline V b = Some ts \<longrightarrow> now < ts)"
  | (some) b ts m' where "take_timeout (d_inactivity (v_disp V)) now s = ok (conn_ptr b, s\<lparr>tm := m'\<rparr>)"
      and "b \<in> set (v_conns V)" "deadline V b = Some ts" "ts \<le> now"
      and "dinv P d (V\<lparr>v_map := (v_map V)(inact b := None)\<rparr>) (hp s) m'"
      and "timely (tm s) (v_map V) \<Longrightarrow> timely m' ((v_map V)(inact b := None))"
proof -
  have T: "timer_inv (v_disp V) (v_map V) (set (v_conns V) \<union> v_limbo V) (tm s)"
    using dinvD(5) [OF I] .
  obtain r where r: "d_inactivity (v_disp V) = Ptr r 0"
      "\<And>e x. v_map V e = Some x \<Longrightarrow> \<exists>b ts. e = inact b \<and> b \<in> set (v_conns V) \<union> v_limbo V \<and> x = (r, ts, OFF_INACTIVITY)"
    using T by (cases rule: timer_invE) blast
  show thesis
  proof (cases rule: timer_inv_take [OF T r(1) now])
    case (1 m')
    have "now < ts" if dl: "deadline V b = Some ts" and t: "timely (tm s) (v_map V)" for b ts
    proof -
      obtain off where "v_map V (inact b) = Some (r, ts, off)"
        using dl r(2) by (fastforce simp: deadline_def)
      with 1(3) [OF t] show ?thesis by blast
    qed
    moreover have "dinv P d (V\<lparr>v_map := v_map V\<rparr>) (hp s) m'"
      using dinv_timers [OF I 1(2)] .
    ultimately show thesis
      using 1 by (intro none [of m']) (simp_all add: take_timeout_def r(1))
  next
    case (2 b ts m')
    then show thesis
      using dinv_timers [OF I 2(5)] lim
      by (intro some [of b m' ts]) (simp_all add: take_timeout_def r(1) deadline_def)
  qed
qed

lemma deadline_upd [simp]:
  "deadline (V\<lparr>v_map := (v_map V)(inact b := None)\<rparr>) x = (if x = b then None else deadline V x)"
  "deadline (removed i V) x = (if x = v_conns V ! i then None else deadline V x)"
  by (simp_all add: deadline_def)

text \<open>The inactivity loop closes only connections whose time has come, and, when no timer is behind
  the index of the ring, all of these.\<close>

definition closes_expired :: "u64 \<Rightarrow> view \<Rightarrow> 'w state \<Rightarrow> view \<Rightarrow> 'w state \<Rightarrow> bool" where
  "closes_expired now V s V' s' \<longleftrightarrow>
     (\<forall>b \<in> set (v_conns V) - set (v_conns V'). \<exists>ts. deadline V b = Some ts \<and> ts \<le> now) \<and>
     (timely (tm s) (v_map V) \<longrightarrow> timely (tm s') (v_map V') \<and>
        (\<forall>b \<in> set (v_conns V'). \<forall>ts. deadline V b = Some ts \<longrightarrow> now < ts))"

lemma inactivity_round:
  fixes V :: view and b i defines "V1 \<equiv> V\<lparr>v_map := (v_map V)(inact b := None)\<rparr>"
  assumes I: "dinv P d V1 (hp s2) (tm s2)" and b: "b \<in> set (v_conns V)" "deadline V b = Some ts" "ts \<le> now"
    and t: "timely (tm s) (v_map V) \<Longrightarrow> timely (tm s2) (v_map V1)"
    and s2: "keeps (hp s) (hp s2)" "\<forall>x \<in> set (v_conns V). cfd (hp s2) x = cfd (hp s) x"
    and i: "i < length (v_conns V)" "v_conns V ! i = b" and lim: "v_limbo V = {}"
    and s3: "keeps (hp s2) (hp s3)" "same_rings (tm s2) (tm s3)"
      "\<forall>x. x \<noteq> v_conns V1 ! i \<longrightarrow> x \<in> set (v_conns V1) \<longrightarrow> cfd (hp s3) x = cfd (hp s2) x"
    and rest: "shrinks (removed i V1) s3 V' s'" "closes_expired now (removed i V1) s3 V' s'"
  shows "shrinks V s V' s' \<and> closes_expired now V s V' s'"
proof -
  let ?W = "removed i V1"
  have conns: "set (v_conns ?W) = set (v_conns V) - {b}"
    using dinvD(4) [OF I] i by (simp add: set_swap_remove conns_ok_def V1_def)
  have bW: "v_conns V1 ! i = b"
    by (simp add: V1_def i(2))
  have dl: "deadline ?W x = deadline V x" if "x \<noteq> b" for x
    using that unfolding deadline_upd bW by (simp add: V1_def)
  have "v_map ?W (inact x) = v_map V (inact x)" if "x \<noteq> b" for x
    using that by (simp add: bW) (simp add: V1_def)
  then have "shrinks V s ?W s3"
    using conns s2 s3(1,3) lim keeps_trans [OF s2(1) s3(1)] by (auto simp: shrinks_def V1_def i(2))
  then have "shrinks V s V' s'"
    using rest(1) by (rule shrinks_trans)
  moreover have "timely (tm s3) (v_map ?W)" if "timely (tm s) (v_map V)"
    using t [OF that] same_rings_timely [OF s3(2)] by (simp add: timely_remove)
  moreover have sub: "set (v_conns V') \<subseteq> set (v_conns V) - {b}"
    using rest(1) conns by (simp add: shrinks_def)
  moreover have "\<exists>ts. deadline V x = Some ts \<and> ts \<le> now" if "x \<in> set (v_conns V) - set (v_conns V')" for x
    using rest(2) that b(2,3) conns dl by (cases "x = b") (auto simp: closes_expired_def)
  moreover have "now < ts'" if "timely (tm s3) (v_map ?W)" "x \<in> set (v_conns V')" "deadline V x = Some ts'" for x ts'
    using rest(2) that dl [of x] sub by (auto simp: closes_expired_def)
  moreover have "timely (tm s') (v_map V')" if "timely (tm s3) (v_map ?W)"
    using rest(2) that by (simp add: closes_expired_def)
  ultimately show ?thesis
    unfolding closes_expired_def by blast
qed

context handler
begin

lemma dispatcher_ok_callback:
  assumes "dispatcher_ok uinv P d V s" "callback_ok b s s'" "b \<in> set (v_conns V)"
    and "uinv ((users V (hp s))(b := udata (hp s') b)) (app (hp s'))"
  shows "dispatcher_ok uinv P d V s'"
  using assms callback_dinv [OF _ assms(2)] callback_users [OF assms(2), of V] by (simp add: dispatcher_ok_def)

lemma listed_conn:
  assumes D: "dispatcher_ok uinv P d V s" and b: "b \<in> set (v_conns V)" and PQ: "P \<le> Q"
  obtains c k v where "live (hp s) b = Some (OConn c)" "conn_ok P (hp s) c" "c_svc c = Ptr k 0"
    "live (hp s) k = Some (OSvc v)" "P v" "conn_svc Q (hp s) b c v"
    "\<exists>i < length (v_conns V). v_conns V ! i = b \<and> c_index c = i"
proof -
  have I: "dinv P d V (hp s) (tm s)"
    using D by (simp add: dispatcher_ok_def)
  obtain i where i: "i < length (v_conns V)" "v_conns V ! i = b"
    using b by (auto simp: in_set_conv_nth)
  obtain c where c: "live (hp s) b = Some (OConn c)" "c_index c = i" "conn_ok P (hp s) c"
    using dinv_conn [OF I i(1)] i(2) by auto
  obtain k v where "c_svc c = Ptr k 0" "live (hp s) k = Some (OSvc v)" "P v" "conn_svc Q (hp s) b c v"
    using conn_ok_svc [OF c(3,1) PQ] .
  with c i show thesis by (intro that) auto
qed

lemma notify_ok:
  assumes D: "dispatcher_ok uinv P d V s" and b: "b \<in> set (v_conns V)" and PQ: "P \<le> Q"
    and ev: "ev \<in> {DISPATCH_TIMEOUT_INACTIVITY, DISPATCH_TIMEOUT_SLEEP, DISPATCH_TIMEOUT_RECEIVE}"
    and lim: "v_limbo V = {}"
  shows "safe (\<lambda>s'. dispatcher_ok uinv P d V s' \<and> shrinks V s V s' \<and> tm s' = tm s)
    (notify_timeout cbs ev (conn_ptr b) s)"
proof -
  obtain c k v where c: "live (hp s) b = Some (OConn c)" "conn_ok P (hp s) c" "c_svc c = Ptr k 0"
    "live (hp s) k = Some (OSvc v)" "P v" "conn_svc Q (hp s) b c v"
    using listed_conn [OF D b PQ] .
  let ?s = "emit (Notify (conn_ptr b) ev) s"
  have event: "safe (\<lambda>s'. callback_ok b ?s s' \<and> uinv ((users V (hp s))(b := udata (hp s') b)) (app (hp s')))
      (cb_event cbs (s_event v) (conn_ptr b) ev None ?s)"
    using D c(6) b ev
    by (intro on_timeout) (simp_all add: dispatcher_ok_def users_def dinv_def)
  have "safe (\<lambda>s'. dispatcher_ok uinv P d V s' \<and> shrinks V s V s' \<and> tm s' = tm s)
      (call_event cbs (s_event v) (conn_ptr b) ev None s)"
    unfolding call_event_eq [OF c(6)]
  proof (rule safe_mono [OF event], elim conjE, goal_cases)
    case (1 s')
    have "dispatcher_ok uinv P d V ?s"
      using D by (simp add: dispatcher_ok_def)
    moreover have "shrinks V s V s'"
      using callback_shrinks [OF 1(1) lim] by (simp add: shrinks_def)
    ultimately show ?case
      using dispatcher_ok_callback [OF _ 1(1) b] 1 by (simp add: callback_ok_def)
  qed
  then show ?thesis
    using c by (simp add: notify_timeout_def)
qed

text \<open>One round on an expired timer of the connection in block \<open>b\<close>: \<open>s2\<close> is the state in which the timer has
  been taken and the application told, and \<open>loop\<close> stands for the remaining rounds.\<close>

lemma inactivity_step:
  assumes s2: "dispatcher_ok uinv P d (V\<lparr>v_map := (v_map V)(inact b := None)\<rparr>) s2" and PQ: "P \<le> Q"
    and b: "b \<in> set (v_conns V)" and lim: "v_limbo V = {}"
    and loop: "\<And>i s3. i < length (v_conns V) \<Longrightarrow> v_conns V ! i = b \<Longrightarrow>
      dispatcher_ok uinv P d (removed i (V\<lparr>v_map := (v_map V)(inact b := None)\<rparr>)) s3 \<Longrightarrow>
      keeps (hp s2) (hp s3) \<Longrightarrow> same_rings (tm s2) (tm s3) \<Longrightarrow>
      (\<forall>x. x \<noteq> b \<longrightarrow> x \<in> set (v_conns V) \<longrightarrow> cfd (hp s3) x = cfd (hp s2) x) \<Longrightarrow> safe R (loop s3)"
  shows "safe R (obind (load_conn (conn_ptr b) s2) (\<lambda>c. obind (connection_remove os cbs (Ptr d 0) (c_index c) s2) loop))"
proof -
  let ?V = "V\<lparr>v_map := (v_map V)(inact b := None)\<rparr>"
  have b': "b \<in> set (v_conns ?V)" using b by simp
  obtain c k v where "live (hp s2) b = Some (OConn c)" "conn_ok P (hp s2) c" "c_svc c = Ptr k 0"
      "live (hp s2) k = Some (OSvc v)" "P v" "conn_svc Q (hp s2) b c v"
      "\<exists>i < length (v_conns ?V). v_conns ?V ! i = b \<and> c_index c = i"
    using listed_conn [OF s2 b' PQ] .
  then obtain i where c: "load_conn (conn_ptr b) s2 = ok c" "c_index c = i" "i < length (v_conns V)" "v_conns V ! i = b"
    by auto
  have i: "i < length (v_conns ?V)" using c(3) by simp
  show ?thesis
    unfolding c(1,2) obind_ok safe_obind
    by (rule safe_mono [OF remove_ok [OF s2 i PQ]]) (use loop [OF c(3,4)] c(4) in simp)
qed

text \<open>What the whole loop achieves.\<close>

definition drained :: "(service \<Rightarrow> bool) \<Rightarrow> nat \<Rightarrow> u64 \<Rightarrow> view \<Rightarrow> 'w state \<Rightarrow> 'w state \<Rightarrow> bool" where
  "drained P d now V s s' \<longleftrightarrow> (\<exists>V'. dispatcher_ok uinv P d V' s' \<and> shrinks V s V' s' \<and> closes_expired now V s V' s')"

lemma drained_mono:
  assumes "drained P d now W t s'"
    and "\<And>V'. shrinks W t V' s' \<Longrightarrow> closes_expired now W t V' s' \<Longrightarrow> shrinks V s V' s' \<and> closes_expired now V s V' s'"
  shows "drained P d now V s s'"
  using assms unfolding drained_def by blast

lemma drained_idle:
  assumes "dispatcher_ok uinv P d V s" "v_limbo V = {}" "dinv P d V (hp s) m'"
    and "timely (tm s) (v_map V) \<Longrightarrow> timely m' (v_map V) \<and> (\<forall>b ts. deadline V b = Some ts \<longrightarrow> now < ts)"
  shows "drained P d now V s (s\<lparr>tm := m'\<rparr>)"
proof -
  let ?s = "s\<lparr>tm := m'\<rparr>"
  have "dispatcher_ok uinv P d V ?s"
    using assms(1,3) by (simp add: dispatcher_ok_def)
  moreover have "shrinks V s V ?s" "closes_expired now V s V ?s"
    using assms(2,4) by (auto simp: shrinks_def closes_expired_def)
  ultimately show ?thesis unfolding drained_def by blast
qed

lemma inactivity_loop_drains:
  assumes "dispatcher_ok uinv P d V s" "P \<le> Q" "v_limbo V = {}" "now \<noteq> - 1"
  shows "safe (drained P d now V s) (inactivity_loop os cbs (Ptr d 0) now s)"
  using assms
proof (induction "length (v_conns V)" arbitrary: V s rule: less_induct)
  case less
  have I: "dinv P d V (hp s) (tm s)"
    using less.prems(1) by (simp add: dispatcher_ok_def)
  have D: "load_disp (Ptr d 0) s = ok (v_disp V)"
    using dinvD(2) [OF I] by simp
  note loop = inactivity_loop.simps [of os cbs "Ptr d 0" now s]
  show ?case
  proof (cases rule: dinv_take [OF I less.prems(3,4)])
    case (1 m')
    from drained_idle [OF less.prems(1,3) 1(2,3)] show ?thesis
      unfolding loop D obind_ok 1(1) by simp
  next
    case (2 b ts m')
    let ?s1 = "s\<lparr>tm := m'\<rparr>" and ?V1 = "V\<lparr>v_map := (v_map V)(inact b := None)\<rparr>"
    have D1: "dispatcher_ok uinv P d ?V1 ?s1"
      using less.prems(1) 2(5) by (simp add: dispatcher_ok_def users_def)
    have lim: "v_limbo ?V1 = {}" and b: "b \<in> set (v_conns ?V1)"
      using less.prems(3) 2(2) by simp_all
    have some: "(conn_ptr b = Null) = False" by simp
    have rest: "safe (drained P d now V s) (obind (load_conn (conn_ptr b) s2) (\<lambda>c.
        obind (connection_remove os cbs (Ptr d 0) (c_index c) s2) (inactivity_loop os cbs (Ptr d 0) now)))"
      if s2: "dispatcher_ok uinv P d ?V1 s2" "shrinks ?V1 ?s1 ?V1 s2" "tm s2 = m'" for s2
    proof (rule inactivity_step [OF s2(1) less.prems(2) 2(2) less.prems(3)])
      fix i and s3 :: "'w state"
      assume c: "i < length (v_conns V)" "v_conns V ! i = b" and R: "dispatcher_ok uinv P d (removed i ?V1) s3"
        "keeps (hp s2) (hp s3)" "same_rings (tm s2) (tm s3)"
        "\<forall>x. x \<noteq> b \<longrightarrow> x \<in> set (v_conns V) \<longrightarrow> cfd (hp s3) x = cfd (hp s2) x"
      have less': "length (v_conns (removed i ?V1)) < length (v_conns V)" "v_limbo (removed i ?V1) = {}"
        using c(1) less.prems(3) by simp_all
      have I2: "dinv P d ?V1 (hp s2) (tm s2)"
        using s2(1) by (simp add: dispatcher_ok_def)
      have "drained P d now V s s'" if "drained P d now (removed i ?V1) s3 s'" for s'
        by (rule drained_mono [OF that], rule inactivity_round [OF I2 2(2-4) _ _ _ c less.prems(3)])
          (use s2 2(6) R(2-4) c(2) in \<open>auto simp: shrinks_def\<close>)
      with less.hyps [OF less'(1) R(1) less.prems(2) less'(2) less.prems(4)]
      show "safe (drained P d now V s) (inactivity_loop os cbs (Ptr d 0) now s3)"
        by (rule safe_mono)
    qed
    show ?thesis
      unfolding loop D 2(1) obind_ok case_prod_conv some if_False safe_obind
      by (rule safe_mono [OF notify_ok [OF D1 b less.prems(2) _ lim]]) (use rest in simp_all)
  qed
qed

lemmas inactivity_loop_ok = inactivity_loop_drains [unfolded drained_def]

end

end
