(* ===== verification/Dispatch_Select.thy ===== *)
theory Dispatch_Select
  imports Dispatch_Loops
begin

text \<open>
  What \<open>dispatcher_dispatch\<close> does after \<open>select\<close>: the loops that receive, report errors, accept and
  report errors of the listening sockets, and the two idle timeout loops. Under the contract of the
  application and with all descriptors inside the range of an \<open>fd_set\<close>, they return and keep the
  invariant, whatever the operating system answers. What the receive loop removes and hands over is
  described exactly by \<open>received\<close> for one round and by \<open>receive_loop_exact\<close> for the whole loop.
\<close>

definition fd_ok :: "int \<Rightarrow> bool" where
  "fd_ok fd \<longleftrightarrow> 0 \<le> fd \<and> fd < FD_SETSIZE"

definition fds_ok :: "view \<Rightarrow> 'w state \<Rightarrow> bool" where
  "fds_ok V s \<longleftrightarrow> (\<forall>b \<in> set (v_conns V). \<exists>fd. cfd (hp s) b = Some fd \<and> fd_ok fd)"

lemma fd_isset_ok [simp]: "fd_ok fd \<Longrightarrow> fd_isset fd S = ok (fd \<in> S)"
  by (simp add: fd_ok_def fd_isset_def)

lemma fds_ok_shrinks: "fds_ok V s \<Longrightarrow> shrinks V s V' s' \<Longrightarrow> fds_ok V' s'"
  by (auto simp: fds_ok_def shrinks_def)

lemma all_armed_shrinks: "all_armed V \<Longrightarrow> shrinks V s V' s' \<Longrightarrow> all_armed V'"
  by (auto simp: all_armed_def shrinks_def)

section \<open>The sleep ring\<close>

lemma sleep_loop_null:
  assumes "dinv P d V (hp s) (tm s)" "d_sleep (v_disp V) = Null"
  shows "sleep_loop cbs (Ptr d 0) ev now s = raise Null_deref"
  using dinvD(2) [OF assms(1)] assms(2)
  by (simp add: sleep_loop.simps take_timeout_def timeouts_remove_def scan_ring.simps load_ring_def)

lemma sleep_loop_idle:
  assumes I: "dinv P d V (hp s) (tm s)" and q: "d_sleep (v_disp V) \<noteq> Null" and now: "now \<noteq> - 1"
  shows "\<exists>m'. sleep_loop cbs (Ptr d 0) ev now s = ok (s\<lparr>tm := m'\<rparr>) \<and> dinv P d V (hp s) m'"
proof -
  have T: "timer_inv (v_disp V) (v_map V) (set (v_conns V) \<union> v_limbo V) (tm s)"
    using dinvD(5) [OF I] .
  show ?thesis
    using T
  proof (cases rule: timer_invE)
    case (1 r)
    then obtain q R where q: "d_sleep (v_disp V) = Ptr q 0" "rings (tm s) q = Some R" "q \<noteq> r"
      using q by auto
    have empty: "v_map V e \<noteq> Some (q, ts, off)" for e ts off
      using 1(4) [of e] q(3) by auto
    show ?thesis
    proof (cases rule: timeouts_remove_spec [OF 1(1) q(2) now])
      case rem: 1
      let ?m = "move_index (tm s) q R (max (current_index R) (now + 1))"
      have "timer_inv (v_disp V) (v_map V) (set (v_conns V) \<union> v_limbo V) ?m"
        by (rule timer_inv_change [OF T rem(2) move_index_rings [OF q(2)]])
          (use 1(2,4) in auto)
      from dinv_timers [OF I this] show ?thesis
        using dinvD(2) [OF I] rem(1) q(1)
        by (intro exI [of _ ?m]) (simp add: sleep_loop.simps take_timeout_def)
    qed (use empty in simp)
  qed
qed

section \<open>Reading the lists\<close>

lemma connection_at_ok:
  assumes I: "dinv P d V (hp s) (tm s)" and i: "i < length (v_conns V)"
    and c: "live (hp s) (v_conns V ! i) = Some (OConn c)"
  shows "connection_at (Ptr d 0) i s = ok (conn_ptr (v_conns V ! i), c)"
  using dinvD(2) [OF I] dinv_conns_nth [OF I i] c by (simp add: connection_at_def)

lemma connection_count_ok: "dinv P d V (hp s) (tm s) \<Longrightarrow> connection_count (Ptr d 0) s = ok (length (v_conns V))"
  by (simp add: connection_count_def dinv_def arrays_ok_def)

lemma service_count_ok: "dinv P d V (hp s) (tm s) \<Longrightarrow> service_count (Ptr d 0) s = ok (length (v_svcs V))"
  by (simp add: service_count_def dinv_def arrays_ok_def)

lemma dinv_svcs_nth:
  assumes "dinv P d V (hp s) (tm s)" "i < length (v_svcs V)"
  shows "load_arr (d_services (v_disp V)) i s = ok (v_svcs V ! i)" and "svc_ok P (hp s) (v_svcs V ! i)"
  using dinvD(3) [OF assms(1)] assms(2) arr_ok_nth [of s "d_services (v_disp V)" "v_svcs V" i]
  by (simp_all add: arrays_ok_def)

lemma str_okE: "str_ok (hp s) p \<Longrightarrow> \<exists>str. load_str p s = ok str"
  by (auto simp: str_ok_def)

lemma host_text_ok: "svc_ok P (hp s) p \<Longrightarrow> load_svc p s = ok v \<Longrightarrow> \<exists>txt. host_text v s = ok txt"
  by (auto simp: svc_ok_def host_text_def str_ok_def)

lemma peer_text_ok:
  assumes "conn_ok P (hp s) c" "load_svc (c_svc c) s = ok v"
  shows "\<exists>txt. peer_text c v s = ok txt"
proof -
  have "str_ok (hp s) (c_peeraddr c)" "str_ok (hp s) (c_peerport c)" "str_ok (hp s) (s_hostaddr v)" "str_ok (hp s) (s_hostport v)"
    using assms by (auto simp: conn_ok_def svc_ok_def)
  then show ?thesis by (auto simp: peer_text_def str_ok_def)
qed

lemma dispatcher_ok_quiet:
  "dispatcher_ok uinv P d V s \<Longrightarrow> hp s' = hp s \<Longrightarrow> tm s' = tm s \<Longrightarrow> dispatcher_ok uinv P d V s'"
  by (simp add: dispatcher_ok_def)

lemma shrinks_quiet: "v_limbo V = {} \<Longrightarrow> hp s' = hp s \<Longrightarrow> shrinks V s V s'"
  by (simp add: shrinks_def)

section \<open>Rounds of the loops\<close>

lemma world_update_simps [simp]:
  "hp (s\<lparr>world := w\<rparr>) = hp s" "tm (s\<lparr>world := w\<rparr>) = tm s" "trace (s\<lparr>world := w\<rparr>) = trace s"
  by (cases s; simp)+

text \<open>
  One round of the receive loop: what \<open>recv\<close> answers for the connection, and what follows from it. The
  connection is removed when its peer has closed it; otherwise the loop goes on with the next one, and
  a service with a receive function has been given exactly the bytes that arrived.
\<close>

definition fd_of :: "obj heap \<Rightarrow> nat \<Rightarrow> int" where
  "fd_of h b = the (cfd h b)"

definition answer :: "'w os \<Rightarrow> fdsets \<Rightarrow> 'w state \<Rightarrow> nat \<Rightarrow> u8 list option" where
  "answer os f s b =
     (if fd_of (hp s) b \<in> readset f then fst (os_recv os (fd_of (hp s) b) 65536 (world s)) else None)"

definition payload :: "(nat \<Rightarrow> u8 list option) \<Rightarrow> nat \<Rightarrow> (ptr \<times> u8 list) list" where
  "payload ans b = (case ans b of None \<Rightarrow> [] | Some buf \<Rightarrow> [(conn_ptr b, buf)])"

definition received :: "(service \<Rightarrow> bool) \<Rightarrow> 'w os \<Rightarrow> fdsets \<Rightarrow> nat \<Rightarrow> view \<Rightarrow> 'w state \<Rightarrow> nat \<Rightarrow> view \<Rightarrow> 'w state \<Rightarrow> bool" where
  "received P os f i V s j V' s' \<longleftrightarrow>
     (if answer os f s (v_conns V ! i) = Some [] then j = i \<and> V' = removed i V \<and> delivers [] s s'
      else j = i + 1 \<and> V' = V \<and>
        ((\<forall>v. P v \<longrightarrow> s_recv v \<noteq> 0) \<longrightarrow> delivers (payload (answer os f s) (v_conns V ! i)) s s'))"

lemma received_progress:
  "received P os f i V s j V' s' \<Longrightarrow> i < length (v_conns V) \<Longrightarrow> length (v_conns V') - j < length (v_conns V) - i"
  by (auto simp: received_def split: if_splits)

lemma dispatcher_ok_counts:
  assumes "dispatcher_ok uinv P d V s"
  shows "connection_count (Ptr d 0) s = ok (length (v_conns V))"
    and "service_count (Ptr d 0) s = ok (length (v_svcs V))"
  using assms connection_count_ok [of P d V s] service_count_ok [of P d V s] by (simp_all add: dispatcher_ok_def)

definition conn_num :: "nat \<Rightarrow> 'w state \<Rightarrow> nat" where
  "conn_num d s = (case connection_count (Ptr d 0) s of Some (Inr n) \<Rightarrow> n | _ \<Rightarrow> 0)"

lemma conn_num_eq: "dispatcher_ok uinv P d V s \<Longrightarrow> conn_num d s = length (v_conns V)"
  using dispatcher_ok_counts(1) [of uinv P d V s] by (simp add: conn_num_def ok_def)

text \<open>What every phase keeps of the view.\<close>

definition same_shape :: "view \<Rightarrow> view \<Rightarrow> bool" where
  "same_shape V V' \<longleftrightarrow> v_svcs V' = v_svcs V \<and> v_limbo V' = {} \<and>
     d_inactivity (v_disp V') = d_inactivity (v_disp V) \<and> d_sleep (v_disp V') = d_sleep (v_disp V) \<and>
     (all_armed V \<longrightarrow> all_armed V')"

lemma same_shape_refl: "v_limbo V = {} \<Longrightarrow> same_shape V V"
  by (simp add: same_shape_def)

lemma same_shape_trans: "same_shape V V1 \<Longrightarrow> same_shape V1 V2 \<Longrightarrow> same_shape V V2"
  by (simp add: same_shape_def)

lemma shrinks_shape: "shrinks V s V' s' \<Longrightarrow> same_shape V V'"
  using all_armed_shrinks by (auto simp: same_shape_def shrinks_def)

lemma added_shape: "v_limbo V = {} \<Longrightarrow> same_shape V (added b p r ts V)"
  by (auto simp: same_shape_def all_armed_def)

text \<open>A round of the accept loop either reports and goes on, or adds the connection it has accepted.\<close>

lemma accept_one_cases:
  fixes s :: "'w state"
  assumes "load_disp d s = ok D" "load_arr (d_services D) i s = ok p" "load_svc p s = ok v" "fd_ok (s_fd v)"
    and host: "\<forall>s1 :: 'w state. hp s1 = hp s \<longrightarrow> (\<exists>str. host_text v s1 = ok str)"
  obtains (stay) s1 where "accept_one os cbs d f i s = ok (i + 1, s1)" "hp s1 = hp s" "tm s1 = tm s"
  | (add) s1 fd pa pp where "accept_one os cbs d f i s =
        obind (connection_add os cbs d p fd pa pp s1) (\<lambda>(conn, s). ok (i + 1, s))" "hp s1 = hp s" "tm s1 = tm s"
proof -
  obtain fd2 peer w where a: "os_accept os (s_fd v) (world s) = ((fd2, peer), w)"
    by (metis prod.exhaust)
  let ?s1 = "s\<lparr>world := w\<rparr>"
  obtain err pa pp w2 where n: "os_getnameinfo os peer w = ((err, pa, pp), w2)"
    by (metis prod.exhaust)
  let ?s2 = "(emit (Accept fd2) ?s1)\<lparr>world := w2\<rparr>"
  note run = accept_one_def assms(1-3) fd_isset_ok [OF assms(4)] obind_ok sys_def a n Let_def case_prod_conv
  obtain str1 str2 where str: "host_text v ?s1 = ok str1" "host_text v ?s2 = ok str2"
    using host [rule_format, of ?s1] host [rule_format, of ?s2] by auto
  consider "s_fd v \<notin> readset f \<and> s_fd v \<notin> writeset f" | "s_fd v \<in> readset f \<or> s_fd v \<in> writeset f" "fd2 = -1"
    | "s_fd v \<in> readset f \<or> s_fd v \<in> writeset f" "fd2 \<noteq> -1" "err \<noteq> 0"
    | "s_fd v \<in> readset f \<or> s_fd v \<in> writeset f" "fd2 \<noteq> -1" "err = 0"
    by blast
  then show thesis
  proof cases
    case 1
    then show thesis by (intro stay [of s]) (simp_all add: run)
  next
    case 2
    then show thesis
      by (intro stay [of "emit (err_line [''dispatcher_dispatch:accept('', str1, ''): '', errstr os ?s1]) ?s1"])
        (use str(1) in \<open>auto simp: run\<close>)
  next
    case 3
    then show thesis
      by (intro stay [of "c_close os fd2 (emit (err_line [''dispatcher_dispatch:getnameinfo(): '', gai_strerror os err]) ?s2)"])
        (auto simp: run)
  next
    case 4
    then show thesis
      by (intro add [of fd2 pa pp "emit (Err (''[+] accept('' @ str2 @ '') from ['' @ pa @ '']:'' @ pp @ newline)) ?s2"])
        (use str(2) in \<open>auto simp: run\<close>)
  qed
qed

context handler
begin

text \<open>The peer has closed the connection: it is removed.\<close>

lemma receive_close_ok:
  assumes D: "dispatcher_ok uinv P d V s" and PQ: "P \<le> Q" and lim: "v_limbo V = {}" and i: "i < length (v_conns V)"
  shows "safe (\<lambda>s'. dispatcher_ok uinv P d (removed i V) s' \<and> shrinks V s (removed i V) s' \<and> delivers [] s s')
    (connection_remove os cbs (Ptr d 0) i (s\<lparr>world := w\<rparr>))"
proof -
  have I: "dinv P d V (hp s) (tm s)"
    using D by (simp add: dispatcher_ok_def)
  have D1: "dispatcher_ok uinv P d V (s\<lparr>world := w\<rparr>)"
    by (rule dispatcher_ok_quiet [OF D]) simp_all
  show ?thesis
  proof (rule safe_mono [OF remove_ok [OF D1 i PQ]], goal_cases)
    case (1 s')
    then show ?case
      using shrinks_removed [OF I lim i, of s'] by (simp add: delivers_def)
  qed
qed

text \<open>Data has arrived: it goes to the application.\<close>

lemma receive_data_ok:
  assumes D: "dispatcher_ok uinv P d V s" and lim: "v_limbo V = {}" and b: "b \<in> set (v_conns V)"
    and c: "conn_svc Q (hp s) b c v" "s_recv v \<noteq> 0" "buf \<noteq> []"
  shows "safe (\<lambda>s'. dispatcher_ok uinv P d V s' \<and> shrinks V s V s' \<and> delivers [(conn_ptr b, buf)] s s')
    (call_recv cbs (s_recv v) (conn_ptr b) (c_userdata c) buf (s\<lparr>world := w\<rparr>))"
proof -
  let ?s = "emit (Deliver (conn_ptr b) buf) (s\<lparr>world := w\<rparr>)"
  have event: "safe (\<lambda>s'. callback_ok b ?s s' \<and> uinv ((users V (hp s))(b := udata (hp s') b)) (app (hp s')))
      (cb_recv cbs (s_recv v) (conn_ptr b) (c_userdata c) buf ?s)"
    using D c b by (intro on_recv) (simp_all add: dispatcher_ok_def users_def dinv_def)
  have D1: "dispatcher_ok uinv P d V ?s"
    by (rule dispatcher_ok_quiet [OF D]) simp_all
  have out: "delivers [(conn_ptr b, buf)] s ?s"
    by (simp add: delivers_def)
  show ?thesis
    unfolding call_recv_def if_not_P [OF c(2)]
  proof (rule safe_mono [OF event], elim conjE, goal_cases)
    case (1 s')
    have "dispatcher_ok uinv P d V s'"
      by (rule dispatcher_ok_callback [OF D1 1(1) b]) (use 1(2) in simp)
    moreover have "shrinks V s V s'"
      using callback_shrinks [OF 1(1) lim] by (simp add: shrinks_def)
    moreover have "delivers [(conn_ptr b, buf)] s s'"
      using delivers_trans [OF out, of "[]" s'] 1(1) by (simp add: callback_ok_def)
    ultimately show ?case by blast
  qed
qed

lemma receive_one_ok:
  assumes D: "dispatcher_ok uinv P d V s" and PQ: "P \<le> Q" and lim: "v_limbo V = {}"
    and fds: "fds_ok V s" and i: "i < length (v_conns V)"
  shows "safe (\<lambda>(j, s'). \<exists>V'. dispatcher_ok uinv P d V' s' \<and> shrinks V s V' s' \<and> received P os f i V s j V' s')
    (receive_one os cbs (Ptr d 0) f i s)"
proof -
  let ?b = "v_conns V ! i" and ?one = "receive_one os cbs (Ptr d 0) f i s" and ?ans = "answer os f s"
  have I: "dinv P d V (hp s) (tm s)"
    using D by (simp add: dispatcher_ok_def)
  have b: "?b \<in> set (v_conns V)" using i by simp
  obtain c k v where c: "live (hp s) ?b = Some (OConn c)" "conn_ok P (hp s) c" "c_svc c = Ptr k 0"
    "live (hp s) k = Some (OSvc v)" "P v" "conn_svc Q (hp s) ?b c v"
    using listed_conn [OF D b PQ] .
  have fd: "fd_ok (c_fd c)" "fd_of (hp s) ?b = c_fd c"
    using fds b c(1) by (auto simp: fds_ok_def fd_of_def cfd_def)
  obtain r w where r: "os_recv os (c_fd c) 65536 (world s) = (r, w)" by fastforce
  let ?s = "s\<lparr>world := w\<rparr>"
  have load: "load_svc (c_svc c) ?s = ok v"
    using c(3,4) by simp
  obtain str where str: "peer_text c v ?s = ok str"
    using peer_text_ok [of P ?s c v] c(2) load by auto
  note run = receive_one_def connection_at_ok [OF I i c(1)] fd(1) sys_def r load str
  have stay: "safe (\<lambda>(j, s'). \<exists>V'. dispatcher_ok uinv P d V' s' \<and> shrinks V s V' s' \<and> received P os f i V s j V' s')
      (ok (i + 1, s1))"
    if "?ans ?b = None \<or> (s_recv v = 0 \<and> ?ans ?b \<noteq> Some [])" "hp s1 = hp s" "tm s1 = tm s" "delivers [] s s1" for s1
    using dispatcher_ok_quiet [OF D that(2,3)] shrinks_quiet [OF lim that(2)] that(1,4) c(5)
    by (auto simp: received_def payload_def)
  consider "?one = ok (i + 1, s)" "?ans ?b = None"
    | "?one = ok (i + 1, ?s)" "s_recv v = 0" "?ans ?b \<noteq> Some []"
    | "?one = ok (i + 1, emit (err_line [str, '': recv(): '', errstr os ?s]) ?s)" "?ans ?b = None"
    | "?one = obind (connection_remove os cbs (Ptr d 0) i ?s) (\<lambda>s. ok (i, s))" "?ans ?b = Some []"
    | a buf where "s_recv v \<noteq> 0" "?ans ?b = Some (a # buf)"
        "?one = obind (call_recv cbs (s_recv v) (conn_ptr ?b) (c_userdata c) (a # buf) ?s) (\<lambda>s. ok (i + 1, s))"
    by (cases "c_fd c \<in> readset f"; cases r; cases "the r"; cases "s_recv v = 0") (auto simp: run answer_def fd(2))
  then show ?thesis
  proof cases
    case 4
    then show ?thesis
      unfolding 4(1) safe_obind by (intro safe_mono [OF receive_close_ok [OF D PQ lim i]]) (auto simp: received_def)
  next
    case 5
    then show ?thesis
      unfolding 5(3) safe_obind
      by (intro safe_mono [OF receive_data_ok [OF D lim b c(6) 5(1), of "a # buf"]]) (auto simp: received_def payload_def)
  qed (use stay in \<open>simp_all add: delivers_def err_line_def\<close>)
qed

lemma connection_error_one_ok:
  assumes D: "dispatcher_ok uinv P d V s" and PQ: "P \<le> Q" and lim: "v_limbo V = {}"
    and fds: "fds_ok V s" and i: "i < length (v_conns V)"
  shows "safe (\<lambda>(j, s'). hp s' = hp s \<and> tm s' = tm s \<and> j = i + 1) (connection_error_one os (Ptr d 0) f i s)"
proof -
  let ?b = "v_conns V ! i"
  have I: "dinv P d V (hp s) (tm s)"
    using D by (simp add: dispatcher_ok_def)
  have b: "?b \<in> set (v_conns V)" using i by simp
  obtain c k v where c: "live (hp s) ?b = Some (OConn c)" "conn_ok P (hp s) c" "c_svc c = Ptr k 0"
    "live (hp s) k = Some (OSvc v)" "P v" "conn_svc Q (hp s) ?b c v"
    using listed_conn [OF D b PQ] .
  have fd: "fd_ok (c_fd c)"
    using fds b c(1) by (auto simp: fds_ok_def cfd_def)
  obtain r w where r: "os_so_error os (c_fd c) (world s) = (r, w)" by fastforce
  let ?s = "s\<lparr>world := w\<rparr>"
  have load: "load_svc (c_svc c) ?s = ok v"
    using c(3,4) by simp
  then obtain str where "peer_text c v ?s = ok str"
    using peer_text_ok [of P ?s c v] c(2) by auto
  with load show ?thesis
    by (cases r) (simp_all add: connection_error_one_def connection_at_ok [OF I i c(1)] fd sys_def r Let_def)
qed

lemma accept_add_ok:
  assumes D: "dispatcher_ok uinv P d V s" and p: "svc_ok P (hp s) p" and PQ: "P \<le> Q" and lim: "v_limbo V = {}"
  shows "safe (\<lambda>(j, s'). j = i \<and> (\<exists>V'. dispatcher_ok uinv P d V' s' \<and> same_shape V V' \<and>
      length (v_conns V') \<le> length (v_conns V) + 1))
    (obind (connection_add os cbs (Ptr d 0) p fd pa pp s) (\<lambda>(conn, s). ok (i, s)))"
  unfolding safe_obind
proof (rule safe_mono [OF add_ok [OF D p PQ]], goal_cases)
  case (1 x)
  then obtain b q r ts where "dispatcher_ok uinv P d (added b q r ts V) (snd x)"
    by auto
  with added_shape [OF lim] show ?case
    by (cases x) auto
qed

lemma accept_one_ok:
  assumes D: "dispatcher_ok uinv P d V s" and PQ: "P \<le> Q" and lim: "v_limbo V = {}"
    and fds: "\<forall>v. P v \<longrightarrow> fd_ok (s_fd v)" and i: "i < length (v_svcs V)"
  shows "safe (\<lambda>(j, s'). j = i + 1 \<and> (\<exists>V'. dispatcher_ok uinv P d V' s' \<and> same_shape V V' \<and>
      length (v_conns V') \<le> length (v_conns V) + 1))
    (accept_one os cbs (Ptr d 0) f i s)"
proof -
  let ?p = "v_svcs V ! i"
  have I: "dinv P d V (hp s) (tm s)"
    using D by (simp add: dispatcher_ok_def)
  have svc: "svc_ok P (hp s) ?p" and arr: "load_arr (d_services (v_disp V)) i s = ok ?p"
    using dinv_svcs_nth [OF I i] by simp_all
  obtain k v where v: "?p = Ptr k 0" "live (hp s) k = Some (OSvc v)" "P v"
    using svc by (auto simp: svc_ok_def)
  have load: "load_disp (Ptr d 0) s = ok (v_disp V)" "load_svc ?p s = ok v" "fd_ok (s_fd v)"
    using dinvD(2) [OF I] v fds by simp_all
  have host: "\<forall>s1. hp s1 = hp s \<longrightarrow> (\<exists>str. host_text v s1 = ok str)"
    using host_text_ok [of P _ ?p v] svc v by (metis load_svc_ok)
  show ?thesis
  proof (cases rule: accept_one_cases [OF load(1) arr load(2,3) host, where os = os and cbs = cbs and f = f])
    case (1 s1)
    then show ?thesis
      using dispatcher_ok_quiet [OF D 1(2,3)] same_shape_refl [OF lim] by auto
  next
    case (2 s1 fd pa pp)
    then show ?thesis
      using accept_add_ok [OF dispatcher_ok_quiet [OF D 2(2,3)] _ PQ lim, of ?p "i + 1" _ fd pa pp] svc by simp
  qed
qed

lemma service_error_one_ok:
  assumes D: "dispatcher_ok uinv P d V s"
    and fds: "\<forall>v. P v \<longrightarrow> fd_ok (s_fd v)" and i: "i < length (v_svcs V)"
  shows "safe (\<lambda>(j, s'). hp s' = hp s \<and> tm s' = tm s \<and> j = i + 1) (service_error_one os (Ptr d 0) f i s)"
proof -
  let ?p = "v_svcs V ! i"
  have I: "dinv P d V (hp s) (tm s)"
    using D by (simp add: dispatcher_ok_def)
  have svc: "svc_ok P (hp s) ?p" and arr: "load_arr (d_services (v_disp V)) i s = ok ?p"
    using dinv_svcs_nth [OF I i] by simp_all
  obtain k v where v: "?p = Ptr k 0" "live (hp s) k = Some (OSvc v)" "P v"
    using svc by (auto simp: svc_ok_def)
  have at: "service_at (Ptr d 0) i s = ok v"
    using dinvD(2) [OF I] arr v by (simp add: service_at_def)
  obtain r w where r: "os_so_error os (s_fd v) (world s) = (r, w)" by fastforce
  obtain str where "host_text v (s\<lparr>world := w\<rparr>) = ok str"
    using host_text_ok [of P "s\<lparr>world := w\<rparr>" ?p v] svc v by auto
  then show ?thesis
    using fds v(3)
    by (cases r) (simp_all add: service_error_one_def at sys_def r Let_def)
qed

text \<open>The loops.\<close>

lemma receive_loop:
  assumes D: "dispatcher_ok uinv P d V s" and PQ: "P \<le> Q" and lim: "v_limbo V = {}" and fds: "fds_ok V s"
    and start: "R 0 V s"
    and round: "\<And>i V1 s1 j V2 s2. dispatcher_ok uinv P d V1 s1 \<Longrightarrow> shrinks V s V1 s1 \<Longrightarrow> i < length (v_conns V1) \<Longrightarrow>
      R i V1 s1 \<Longrightarrow> received P os f i V1 s1 j V2 s2 \<Longrightarrow> R j V2 s2"
  shows "safe (\<lambda>s'. \<exists>V' i. dispatcher_ok uinv P d V' s' \<and> shrinks V s V' s' \<and> length (v_conns V') \<le> i \<and> R i V' s')
    (for_loop (connection_count (Ptr d 0)) (receive_one os cbs (Ptr d 0) f) 0 s)"
proof (rule for_loop_safe [where Inv = "\<lambda>i s'. \<exists>V'. dispatcher_ok uinv P d V' s' \<and> shrinks V s V' s' \<and> R i V' s'"
      and rank = "\<lambda>i s'. conn_num d s' - i"], goal_cases)
  case 1
  then show ?case using D shrinks_refl [OF lim] start by blast
next
  case (2 i s')
  then obtain V' where D': "dispatcher_ok uinv P d V' s'" and sh: "shrinks V s V' s'" and R: "R i V' s'" by blast
  have lim': "v_limbo V' = {}" using sh by (simp add: shrinks_def)
  have n: "connection_count (Ptr d 0) s' = ok (length (v_conns V'))"
    using dispatcher_ok_counts(1) [OF D'] .
  show ?case
  proof (cases "i < length (v_conns V')")
    case False
    then show ?thesis using D' sh R by (auto simp: n not_less)
  next
    case True
    have "safe (\<lambda>(j, s2). (\<exists>V'. dispatcher_ok uinv P d V' s2 \<and> shrinks V s V' s2 \<and> R j V' s2) \<and>
        conn_num d s2 - j < conn_num d s' - i) (receive_one os cbs (Ptr d 0) f i s')"
    proof (rule safe_mono [OF receive_one_ok [OF D' PQ lim' fds_ok_shrinks [OF fds sh] True]], goal_cases)
      case (1 x)
      then obtain V2 where V2: "dispatcher_ok uinv P d V2 (snd x)" "shrinks V' s' V2 (snd x)"
          "received P os f i V' s' (fst x) V2 (snd x)"
        by (auto simp: case_prod_unfold)
      have "conn_num d (snd x) - fst x < conn_num d s' - i"
        using conn_num_eq [OF V2(1)] conn_num_eq [OF D'] received_progress [OF V2(3) True] by simp
      then show ?case
        using V2(1) shrinks_trans [OF sh V2(2)] round [OF D' sh True R V2(3)] by (auto simp: case_prod_unfold)
    qed
    then show ?thesis using True by (simp add: n)
  qed
qed

lemma receive_loop_ok:
  assumes "dispatcher_ok uinv P d V s" "P \<le> Q" "v_limbo V = {}" "fds_ok V s"
  shows "safe (\<lambda>s'. \<exists>V'. dispatcher_ok uinv P d V' s' \<and> shrinks V s V' s')
    (for_loop (connection_count (Ptr d 0)) (receive_one os cbs (Ptr d 0) f) 0 s)"
  by (rule safe_mono [OF receive_loop [OF assms, where R = "\<lambda>_ _ _. True"]]) blast+

text \<open>
  The receive loop over an operating system whose answer for a descriptor does not depend on when it is
  asked (a descriptor is asked once in a phase): what is left is what has not been closed by its peer,
  and the application has got the data of these connections, in the order of the list.
\<close>

lemma receive_loop_exact:
  assumes D: "dispatcher_ok uinv P d V s" and PQ: "P \<le> Q" and lim: "v_limbo V = {}" and fds: "fds_ok V s"
    and recv: "\<forall>v. P v \<longrightarrow> s_recv v \<noteq> 0" and data: "\<forall>fd w. fst (os_recv os fd 65536 w) = data fd"
    and ans: "ans = (\<lambda>b. if fd_of (hp s) b \<in> readset f then data (fd_of (hp s) b) else None)"
  shows "safe (\<lambda>s'. \<exists>V'. dispatcher_ok uinv P d V' s' \<and> shrinks V s V' s' \<and>
      set (v_conns V') = {b \<in> set (v_conns V). ans b \<noteq> Some []} \<and>
      delivers (concat (map (payload ans) (v_conns V'))) s s')
    (for_loop (connection_count (Ptr d 0)) (receive_one os cbs (Ptr d 0) f) 0 s)"
proof -
  let ?kept = "{b \<in> set (v_conns V). ans b \<noteq> Some []}"
  let ?R = "\<lambda>i V1 s1. ?kept \<subseteq> set (v_conns V1) \<and> (\<forall>b \<in> set (take i (v_conns V1)). ans b \<noteq> Some []) \<and>
      delivers (concat (map (payload ans) (take i (v_conns V1)))) s s1"
  have round: "?R j V2 s2" if D1: "dispatcher_ok uinv P d V1 s1" and sh: "shrinks V s V1 s1"
      and i: "i < length (v_conns V1)" and R: "?R i V1 s1" and one: "received P os f i V1 s1 j V2 s2" for i V1 s1 j V2 s2
  proof -
    let ?b = "v_conns V1 ! i"
    have "fd_of (hp s1) ?b = fd_of (hp s) ?b"
      using sh i by (simp add: shrinks_def fd_of_def)
    then have a: "answer os f s1 ?b = ans ?b"
      using data by (simp add: answer_def ans)
    have dist: "distinct (v_conns V1)"
      using D1 by (simp add: dispatcher_ok_def dinv_def conns_ok_def)
    show ?thesis
    proof (cases "ans ?b = Some []")
      case True
      then have 1: "j = i" "V2 = removed i V1" "delivers [] s1 s2"
        using one a by (simp_all add: received_def)
      then show ?thesis
        using R True i delivers_trans [OF _ 1(3)]
        by (auto simp: set_swap_remove(1) [OF dist i] take_swap_remove [OF i])
    next
      case False
      then have 1: "j = i + 1" "V2 = V1" "delivers (payload ans ?b) s1 s2"
        using one a recv by (simp_all add: received_def payload_def)
      then show ?thesis
        using R False i delivers_trans [OF _ 1(3)] by (auto simp: take_Suc_conv_app_nth)
    qed
  qed
  have start: "?R 0 V s"
    by (auto intro: delivers_same)
  show ?thesis
    by (rule safe_mono [OF receive_loop [OF D PQ lim fds, where R = ?R]], rule start, rule round, assumption+)
      (auto simp: shrinks_def)
qed

text \<open>The two loops that report errors change nothing but the trace and the world.\<close>

lemma report_loop_ok:
  assumes bound: "\<And>s'. hp s' = hp s \<Longrightarrow> tm s' = tm s \<Longrightarrow> bound s' = ok n"
    and body: "\<And>i s'. hp s' = hp s \<Longrightarrow> tm s' = tm s \<Longrightarrow> i < n \<Longrightarrow>
      safe (\<lambda>(j, s2). hp s2 = hp s' \<and> tm s2 = tm s' \<and> j = i + 1) (body i s')"
  shows "safe (\<lambda>s'. hp s' = hp s \<and> tm s' = tm s) (for_loop bound body 0 s)"
proof (rule for_loop_safe [where Inv = "\<lambda>i s'. hp s' = hp s \<and> tm s' = tm s" and rank = "\<lambda>i _. n - i"], goal_cases)
  case (2 i s')
  then show ?case
  proof (cases "i < n")
    case True
    have "safe (\<lambda>(j, s2). (hp s2 = hp s \<and> tm s2 = tm s) \<and> n - j < n - i) (body i s')"
      by (rule safe_mono [OF body]) (use 2 True in auto)
    then show ?thesis using True bound [of s'] 2 by simp
  qed (use bound [of s'] in simp)
qed simp

lemma accept_loop_ok:
  assumes D: "dispatcher_ok uinv P d V s" and PQ: "P \<le> Q" and lim: "v_limbo V = {}"
    and fds: "\<forall>v. P v \<longrightarrow> fd_ok (s_fd v)"
  shows "safe (\<lambda>s'. \<exists>V'. dispatcher_ok uinv P d V' s' \<and> same_shape V V')
    (for_loop (service_count (Ptr d 0)) (accept_one os cbs (Ptr d 0) f) 0 s)"
proof (rule for_loop_safe [where Inv = "\<lambda>i s'. \<exists>V'. dispatcher_ok uinv P d V' s' \<and> same_shape V V'"
      and rank = "\<lambda>i _. length (v_svcs V) - i"], goal_cases)
  case 1
  then show ?case using D same_shape_refl [OF lim] by blast
next
  case (2 i s')
  then obtain V' where D': "dispatcher_ok uinv P d V' s'" and sh: "same_shape V V'" by blast
  have lim': "v_limbo V' = {}" and svcs: "v_svcs V' = v_svcs V" using sh by (simp_all add: same_shape_def)
  have n: "service_count (Ptr d 0) s' = ok (length (v_svcs V))"
    using dispatcher_ok_counts(2) [OF D'] svcs by simp
  show ?case
  proof (cases "i < length (v_svcs V)")
    case False
    then show ?thesis using D' sh by (auto simp: n)
  next
    case True
    have "safe (\<lambda>(j, s2). (\<exists>V'. dispatcher_ok uinv P d V' s2 \<and> same_shape V V') \<and>
        length (v_svcs V) - j < length (v_svcs V) - i) (accept_one os cbs (Ptr d 0) f i s')"
    proof (rule safe_mono [OF accept_one_ok [OF D' PQ lim' fds]], goal_cases)
      case (2 x)
      then show ?case
        using same_shape_trans [OF sh] True by (auto simp: case_prod_unfold)
    qed (use True svcs in simp)
    then show ?thesis using True by (simp add: n)
  qed
qed

lemma connection_report_ok:
  assumes D: "dispatcher_ok uinv P d V s" and PQ: "P \<le> Q" and lim: "v_limbo V = {}" and fds: "fds_ok V s"
  shows "safe (\<lambda>s'. hp s' = hp s \<and> tm s' = tm s)
    (for_loop (connection_count (Ptr d 0)) (connection_error_one os (Ptr d 0) f) 0 s)"
proof (rule report_loop_ok [where n = "length (v_conns V)"], goal_cases)
  case (1 s2)
  then show ?case using dispatcher_ok_counts(1) [OF dispatcher_ok_quiet [OF D]] by blast
next
  case (2 i s2)
  have "fds_ok V s2"
    using fds 2(1) by (simp add: fds_ok_def)
  then show ?case
    using connection_error_one_ok [OF dispatcher_ok_quiet [OF D 2(1,2)] PQ lim _ 2(3)] by blast
qed

text \<open>The whole phase.\<close>

lemma process_events_ok:
  assumes D: "dispatcher_ok uinv P d V s" and PQ: "P \<le> Q" and lim: "v_limbo V = {}"
    and fds: "fds_ok V s" "\<forall>v. P v \<longrightarrow> fd_ok (s_fd v)"
  shows "safe (\<lambda>s'. \<exists>V'. dispatcher_ok uinv P d V' s' \<and> same_shape V V') (process_events os cbs (Ptr d 0) f s)"
  unfolding process_events_def safe_obind
proof (rule safe_mono [OF receive_loop_ok [OF D PQ lim fds(1)]], elim exE conjE, goal_cases)
  case (1 s1 V1)
  then have D1: "dispatcher_ok uinv P d V1 s1" and sh: "shrinks V s V1 s1" by simp_all
  have lim1: "v_limbo V1 = {}" using sh by (simp add: shrinks_def)
  have D1': "dispatcher_ok uinv P d V1 s2" if "hp s2 = hp s1" "tm s2 = tm s1" for s2
    using dispatcher_ok_quiet [OF D1 that] .
  have report: "safe (\<lambda>s'. hp s' = hp s1 \<and> tm s' = tm s1)
      (for_loop (connection_count (Ptr d 0)) (connection_error_one os (Ptr d 0) f) 0 s1)"
    by (rule connection_report_ok [OF D1 PQ lim1 fds_ok_shrinks [OF fds(1) sh]])
  show ?case
  proof (rule safe_mono [OF report], elim conjE, goal_cases)
    case (1 s2)
    show ?case
    proof (rule safe_mono [OF accept_loop_ok [OF D1' [OF 1] PQ lim1 fds(2)]], elim exE conjE, goal_cases)
      case (1 s3 V3)
      then have D3: "dispatcher_ok uinv P d V3 s4" if "hp s4 = hp s3" "tm s4 = tm s3" for s4
        using dispatcher_ok_quiet [OF _ that] by blast
      have shape: "same_shape V V3"
        using same_shape_trans [OF shrinks_shape [OF sh] 1(2)] .
      have report: "safe (\<lambda>s'. hp s' = hp s3 \<and> tm s' = tm s3)
          (for_loop (service_count (Ptr d 0)) (service_error_one os (Ptr d 0) f) 0 s3)"
      proof (rule report_loop_ok [where n = "length (v_svcs V3)"], goal_cases)
        case (1 s4)
        then show ?case using dispatcher_ok_counts(2) [OF D3] by blast
      next
        case (2 i s4)
        then show ?case using service_error_one_ok [OF D3 fds(2)] by blast
      qed
      show ?case
        by (rule safe_mono [OF report]) (use D3 shape in blast)
    qed
  qed
qed

end

end
