(* ===== verification/Dispatch_Run.thy ===== *)
theory Dispatch_Run
  imports Dispatch_Select
begin

text \<open>
  \<open>dispatcher_dispatch\<close> as a whole: the descriptor sets it builds, the timeouts it processes, and
  what a call returns.
\<close>

section \<open>The descriptor sets\<close>

fun add_all :: "int list \<Rightarrow> fdsets \<Rightarrow> fdsets outcome" where
  "add_all [] f = ok f"
| "add_all (fd # fds) f = obind (fd_add fd f) (add_all fds)"

definition with_fds :: "int list \<Rightarrow> fdsets \<Rightarrow> fdsets" where
  "with_fds fds f = \<lparr>nfds = fold (\<lambda>fd n. max n (fd + 1)) fds (nfds f), readset = readset f \<union> set fds,
     writeset = writeset f \<union> set fds, errset = errset f \<union> set fds\<rparr>"

lemma fd_add_eq: "fd_add fd f = (if fd_ok fd then ok (with_fds [fd] f) else raise Out_of_bounds)"
  by (auto simp: fd_add_def fd_ok_def with_fds_def Let_def max_def)

lemma with_fds_Nil [simp]: "with_fds [] f = f"
  by (simp add: with_fds_def)

lemma with_fds_Cons: "with_fds fds (with_fds [fd] f) = with_fds (fd # fds) f"
  by (simp add: with_fds_def)

lemma with_fds_append: "with_fds fds' (with_fds fds f) = with_fds (fds @ fds') f"
  by (simp add: with_fds_def Un_assoc)

lemma add_all_eq: "add_all fds f = (if list_all fd_ok fds then ok (with_fds fds f) else raise Out_of_bounds)"
  by (induction fds arbitrary: f) (simp_all add: fd_add_eq with_fds_Cons)

lemma add_loop:
  assumes get: "\<And>i. i < length fds \<Longrightarrow> get i = ok (fds ! i)" and i: "i \<le> length fds"
  shows "for_loop (\<lambda>_. ok (length fds)) (\<lambda>i f. obind (get i) (\<lambda>fd. obind (fd_add fd f) (\<lambda>f. ok (i + 1, f)))) i f =
    add_all (drop i fds) f"
  using i
proof (induction "length fds - i" arbitrary: i f)
  case 0
  then show ?case by (simp add: for_loop.simps [of _ _ i])
next
  case (Suc n)
  then have i: "i < length fds" by simp
  then have "drop i fds = fds ! i # drop (i + 1) fds"
    by (simp add: Cons_nth_drop_Suc)
  moreover have "n = length fds - (i + 1)" using Suc.hyps(2) by simp
  ultimately show ?case
    using Suc.hyps(1) [of "i + 1"] i by (simp add: for_loop.simps [of _ _ i] get [OF i])
qed

text \<open>The descriptors of a dispatcher: services first, then connections.\<close>

definition svc_fd :: "obj heap \<Rightarrow> ptr \<Rightarrow> int" where
  "svc_fd h p = (case live h (blk p) of Some (OSvc v) \<Rightarrow> s_fd v | _ \<Rightarrow> 0)"

definition all_fds :: "view \<Rightarrow> obj heap \<Rightarrow> int list" where
  "all_fds V h = map (svc_fd h) (v_svcs V) @ map (\<lambda>b. the (cfd h b)) (v_conns V)"

lemma build_fdsets_eq:
  assumes I: "dinv P d V (hp s) (tm s)"
  shows "build_fdsets (Ptr d 0) s = (if list_all fd_ok (all_fds V (hp s)) then ok (with_fds (all_fds V (hp s)) fd_zero)
    else raise Out_of_bounds)"
proof -
  let ?sf = "map (svc_fd (hp s)) (v_svcs V)" and ?cf = "map (\<lambda>b. the (cfd (hp s) b)) (v_conns V)"
  have svc: "obind (service_at (Ptr d 0) i s) (\<lambda>v. ok (s_fd v)) = ok (?sf ! i)" if "i < length ?sf" for i
    using dinv_svcs_nth [OF I, of i] dinvD(2) [OF I] that by (auto simp: service_at_def svc_ok_def svc_fd_def)
  have conn: "obind (connection_at (Ptr d 0) i s) (\<lambda>(_, c). ok (c_fd c)) = ok (?cf ! i)" if i: "i < length ?cf" for i
  proof -
    have i': "i < length (v_conns V)" using i by simp
    obtain c where "live (hp s) (v_conns V ! i) = Some (OConn c)"
      using dinv_conn [OF I i'] .
    then show ?thesis
      using connection_at_ok [OF I i'] i' by (simp add: cfd_def)
  qed
  have "build_fdsets (Ptr d 0) s = obind (add_all ?sf fd_zero) (add_all ?cf)"
    using add_loop [of ?sf "\<lambda>i. obind (service_at (Ptr d 0) i s) (\<lambda>v. ok (s_fd v))" 0 fd_zero, OF svc]
      add_loop [of ?cf "\<lambda>i. obind (connection_at (Ptr d 0) i s) (\<lambda>(_, c). ok (c_fd c))" 0, OF conn]
      service_count_ok [OF I] connection_count_ok [OF I]
    by (simp add: build_fdsets_def case_prod_unfold)
  then show ?thesis
    by (simp add: add_all_eq all_fds_def with_fds_append)
qed

section \<open>Timeouts\<close>

lemma ticks_not_last: "TICKS_FROM_TV secs 0 \<noteq> - 1"
proof
  assume "TICKS_FROM_TV secs 0 = - 1"
  then have "secs * 16384 = - 1"
    by (simp add: TICKS_FROM_TV_def TICKS_FROM_SECS_def TICKS_FROM_USECS_def)
  moreover have "even (secs * 16384)" by simp
  moreover have "odd (- 1 :: u64)" by simp
  ultimately show False by simp
qed

lemma all_armed_expired:
  assumes "all_armed V" "shrinks V s V' s'" "closes_expired now V s V' s'" "timely (tm s) (v_map V)"
  shows "set (v_conns V') = {b \<in> set (v_conns V). \<exists>ts. deadline V b = Some ts \<and> now < ts}"
proof -
  have armed: "\<exists>ts. deadline V b = Some ts" if "b \<in> set (v_conns V)" for b
    using assms(1) that by (auto simp: all_armed_def deadline_def)
  have sub: "set (v_conns V') \<subseteq> set (v_conns V)"
    using assms(2) by (simp add: shrinks_def)
  have gone: "\<exists>ts. deadline V b = Some ts \<and> ts \<le> now" if "b \<in> set (v_conns V)" "b \<notin> set (v_conns V')" for b
    using assms(3) that by (simp add: closes_expired_def)
  have kept: "now < ts" if "b \<in> set (v_conns V')" "deadline V b = Some ts" for b ts
    using assms(3,4) that by (simp add: closes_expired_def)
  show ?thesis
  proof (intro equalityI subsetI CollectI conjI)
    show "b \<in> set (v_conns V)" if "b \<in> set (v_conns V')" for b
      using sub that by blast
    then show "\<exists>ts. deadline V b = Some ts \<and> now < ts" if "b \<in> set (v_conns V')" for b
      using armed [of b] kept [OF that] that by blast
    show "b \<in> set (v_conns V')" if "b \<in> {b \<in> set (v_conns V). \<exists>ts. deadline V b = Some ts \<and> now < ts}" for b
      using that gone [of b] by force
  qed
qed

context handler
begin

lemma timeout_inactivity_ok:
  assumes "dispatcher_ok uinv P d V s" "P \<le> Q" "v_limbo V = {}"
  shows "safe (\<lambda>s'. \<exists>V'. dispatcher_ok uinv P d V' s' \<and> shrinks V s V' s' \<and>
      closes_expired (TICKS_FROM_TV secs 0) V s V' s')
    (timeout_inactivity os cbs (Ptr d 0) secs 0 s)"
  using inactivity_loop_ok [OF assms ticks_not_last] by (simp add: timeout_inactivity_def)

text \<open>Without a sleep ring the phase ends in a null dereference, with one it returns.\<close>

lemma process_timeouts_null:
  assumes D: "dispatcher_ok uinv P d V s" and PQ: "P \<le> Q" and lim: "v_limbo V = {}"
    and null: "d_sleep (v_disp V) = Null"
  shows "process_timeouts os cbs (Ptr d 0) s = raise Null_deref \<or>
    (\<exists>msg. process_timeouts os cbs (Ptr d 0) s = raise (Aborted msg))"
proof -
  obtain now w where t: "os_time os (world s) = (now, w)" by fastforce
  let ?s = "s\<lparr>world := w\<rparr>"
  have D1: "dispatcher_ok uinv P d V ?s"
    by (rule dispatcher_ok_quiet [OF D]) simp_all
  show ?thesis
  proof (cases rule: safe_cases [OF timeout_inactivity_ok [OF D1 PQ lim, of now os]])
    case (1 s')
    then obtain V' where V': "dispatcher_ok uinv P d V' s'" "d_sleep (v_disp V') = Null"
      using null by (auto simp: shrinks_def)
    obtain now' w' where t': "os_time os (world s') = (now', w')" by fastforce
    have "dinv P d V' (hp (s'\<lparr>world := w'\<rparr>)) (tm (s'\<lparr>world := w'\<rparr>))"
      using V'(1) by (simp add: dispatcher_ok_def)
    from sleep_loop_null [OF this V'(2)] show ?thesis
      by (simp add: process_timeouts_def sys_def t 1(1) t' timeout_sleep_def)
  next
    case (2 msg)
    then show ?thesis by (simp add: process_timeouts_def sys_def t)
  qed
qed

lemma sleep_phase:
  assumes D: "dispatcher_ok uinv P d V s" and q: "d_sleep (v_disp V) \<noteq> Null" and now: "now \<noteq> - 1"
  shows "safe (dispatcher_ok uinv P d V) (sleep_loop cbs (Ptr d 0) ev now s)"
  using D sleep_loop_idle [OF _ q now, of P d s cbs ev] by (auto simp: dispatcher_ok_def)

lemma process_timeouts_ok:
  assumes D: "dispatcher_ok uinv P d V s" and PQ: "P \<le> Q" and lim: "v_limbo V = {}"
    and ring: "d_sleep (v_disp V) \<noteq> Null"
  shows "safe (\<lambda>s'. \<exists>V'. dispatcher_ok uinv P d V' s' \<and> same_shape V V') (process_timeouts os cbs (Ptr d 0) s)"
proof -
  have quiet: "dispatcher_ok uinv P d V' (s'\<lparr>world := w\<rparr>)" if "dispatcher_ok uinv P d V' s'" for V' s' w
    by (rule dispatcher_ok_quiet [OF that]) simp_all
  obtain now w where t: "os_time os (world s) = (now, w)" by fastforce
  have "safe (\<lambda>s'. \<exists>V'. dispatcher_ok uinv P d V' s' \<and> same_shape V V')
      (obind (timeout_inactivity os cbs (Ptr d 0) now 0 (s\<lparr>world := w\<rparr>)) (\<lambda>s.
       let (now, s) = sys (os_time os) s in
       obind (timeout_sleep cbs (Ptr d 0) now 0 s) (\<lambda>s.
       let (now, s) = sys (os_time os) s in timeout_receive cbs (Ptr d 0) now 0 s)))"
    unfolding safe_obind
  proof (rule safe_mono [OF timeout_inactivity_ok [OF quiet [OF D] PQ lim]], elim exE conjE, goal_cases)
    case (1 s1 V1)
    then have shape: "same_shape V V1"
      using shrinks_shape by blast
    then have q: "d_sleep (v_disp V1) \<noteq> Null"
      using ring by (simp add: same_shape_def)
    obtain now1 w1 where t1: "os_time os (world s1) = (now1, w1)" by fastforce
    have "safe (dispatcher_ok uinv P d V1) (timeout_sleep cbs (Ptr d 0) now1 0 (s1\<lparr>world := w1\<rparr>))"
      using sleep_phase [OF quiet [OF 1(1)] q ticks_not_last] by (simp add: timeout_sleep_def)
    moreover have "safe (\<lambda>s'. \<exists>V'. dispatcher_ok uinv P d V' s' \<and> same_shape V V')
        (let (now, s) = sys (os_time os) s2 in timeout_receive cbs (Ptr d 0) now 0 s)"
      if D2: "dispatcher_ok uinv P d V1 s2" for s2
    proof -
      obtain now2 w2 where t2: "os_time os (world s2) = (now2, w2)" by fastforce
      have "safe (dispatcher_ok uinv P d V1) (timeout_receive cbs (Ptr d 0) now2 0 (s2\<lparr>world := w2\<rparr>))"
        using sleep_phase [OF quiet [OF D2] q ticks_not_last] by (simp add: timeout_receive_def)
      then show ?thesis
        unfolding sys_def t2 Let_def case_prod_conv by (rule safe_mono) (use shape in blast)
    qed
    ultimately show ?case
      unfolding sys_def [of "os_time os" s1] t1 Let_def case_prod_conv safe_obind by (rule safe_mono)
  qed
  then show ?thesis
    by (simp add: process_timeouts_def sys_def [of "os_time os" s] t)
qed

end

section \<open>dispatcher_dispatch\<close>

lemma fds_ok_list:
  assumes I: "dinv P d V (hp s) (tm s)" and fds: "\<forall>v. P v \<longrightarrow> fd_ok (s_fd v)"
  shows "list_all fd_ok (all_fds V (hp s)) \<longleftrightarrow> fds_ok V s"
proof -
  have svc: "fd_ok (svc_fd (hp s) p)" if "p \<in> set (v_svcs V)" for p
  proof -
    have "svc_ok P (hp s) p"
      using dinvD(3) [OF I] that by (simp add: arrays_ok_def)
    then show ?thesis
      using fds by (auto simp: svc_ok_def svc_fd_def)
  qed
  have conn: "fd_ok (the (cfd (hp s) b)) \<longleftrightarrow> (\<exists>fd. cfd (hp s) b = Some fd \<and> fd_ok fd)"
    if "b \<in> set (v_conns V)" for b
  proof -
    have "\<exists>c. live (hp s) b = Some (OConn c)"
      using dinv_conn_iff [OF I, of b] that by simp
    then show ?thesis by (auto simp: cfd_def)
  qed
  have "list_all fd_ok (all_fds V (hp s)) \<longleftrightarrow> (\<forall>b \<in> set (v_conns V). fd_ok (the (cfd (hp s) b)))"
    using svc unfolding all_fds_def list_all_iff by (auto simp: ball_Un)
  then show ?thesis
    using conn by (simp add: fds_ok_def)
qed

text \<open>The state after \<open>select\<close>: only the world and, after an error, the trace have changed.\<close>

definition after_select :: "'w os \<Rightarrow> fdsets \<Rightarrow> u32 \<Rightarrow> 'w state \<Rightarrow> int \<times> fdsets \<times> 'w state" where
  "after_select os f ms s =
     (let ((err, f'), s1) = do_select os f ms s in
      (err, f', if err < 0
        then (let s2 = emit (err_line [''dispatcher_dispatch:select('', show_int (nfds f'), '') '', errstr os s1]) s1
              in s2\<lparr>world := os_sleep os (ms * 2 div 1000) (world s2)\<rparr>)
        else s1))"

lemma sys_state: "hp (snd (sys f s)) = hp s \<and> tm (snd (sys f s)) = tm s \<and> trace (snd (sys f s)) = trace s"
  by (simp add: sys_def split: prod.split)

lemma do_select_state: "hp (snd (do_select os f ms s)) = hp s \<and> tm (snd (do_select os f ms s)) = tm s"
  using sys_state [of "os_select os (nfds f) (readset f) (writeset f) (errset f) (ucast (ms * 1000))" s]
  by (simp add: do_select_def Let_def case_prod_unfold)

lemma after_select_same:
  assumes "after_select os f ms s = (err, f', s1)"
  shows "hp s1 = hp s" "tm s1 = tm s"
  using assms do_select_state [of os f ms s]
  by (cases "do_select os f ms s"; simp add: after_select_def Let_def case_prod_unfold; force split: if_splits)+

lemma dispatch_unfold:
  "dispatcher_dispatch os cbs d ms s = obind (build_fdsets d s) (\<lambda>f.
     case after_select os f ms s of (err, f, s) \<Rightarrow>
       if err = 0 then ok (0, s) else obind (process_events os cbs d f s) (\<lambda>s.
       obind (process_timeouts os cbs d s) (\<lambda>s. ok (1, s))))"
  unfolding dispatcher_dispatch_def
proof (rule arg_cong [where f = "obind _"], rule ext, goal_cases)
  case (1 f)
  show ?case
    by (cases "do_select os f ms s") (simp add: after_select_def Let_def case_prod_unfold)
qed

lemma dispatch_result:
  assumes "dispatcher_dispatch os cbs d ms s = ok (r, s')"
  shows "r = 0 \<or> r = 1"
proof -
  obtain f where "(case after_select os f ms s of (err, f, s) \<Rightarrow>
       if err = 0 then ok (0, s) else obind (process_events os cbs d f s) (\<lambda>s.
       obind (process_timeouts os cbs d s) (\<lambda>s. ok (1, s)))) = ok (r, s')"
    using assms unfolding dispatch_unfold obind_eq_ok by blast
  then show ?thesis
    by (cases "after_select os f ms s") (auto simp: obind_eq_ok split: if_splits)
qed

lemma dispatch_eq:
  assumes I: "dinv P d V (hp s) (tm s)" and "\<forall>v. P v \<longrightarrow> fd_ok (s_fd v)" "fds_ok V s"
    and sel: "after_select os (with_fds (all_fds V (hp s)) fd_zero) ms s = (err, f, s1)"
  shows "dispatcher_dispatch os cbs (Ptr d 0) ms s = (if err = 0 then ok (0, s1)
    else obind (process_events os cbs (Ptr d 0) f s1) (\<lambda>s.
         obind (process_timeouts os cbs (Ptr d 0) s) (\<lambda>s. ok (1, s))))"
  using fds_ok_list [OF I assms(2)] assms(3)
  by (simp add: dispatch_unfold build_fdsets_eq [OF I] sel)

context handler
begin

lemma dispatch_null:
  assumes D: "dispatcher_ok uinv P d V s" and PQ: "P \<le> Q" and lim: "v_limbo V = {}"
    and fds: "fds_ok V s" "\<forall>v. P v \<longrightarrow> fd_ok (s_fd v)" and null: "d_sleep (v_disp V) = Null"
    and sel: "after_select os (with_fds (all_fds V (hp s)) fd_zero) ms s = (err, f, s1)" "err \<noteq> 0"
  shows "dispatcher_dispatch os cbs (Ptr d 0) ms s = raise Null_deref \<or>
    (\<exists>msg. dispatcher_dispatch os cbs (Ptr d 0) ms s = raise (Aborted msg))"
proof -
  have I: "dinv P d V (hp s) (tm s)"
    using D by (simp add: dispatcher_ok_def)
  have D1: "dispatcher_ok uinv P d V s1" "fds_ok V s1"
    using dispatcher_ok_quiet [OF D after_select_same [OF sel(1)]] fds(1) after_select_same(1) [OF sel(1)]
    by (simp_all add: fds_ok_def)
  have eq: "dispatcher_dispatch os cbs (Ptr d 0) ms s = obind (process_events os cbs (Ptr d 0) f s1) (\<lambda>s.
       obind (process_timeouts os cbs (Ptr d 0) s) (\<lambda>s. ok (1, s)))"
    using dispatch_eq [OF I fds(2,1) sel(1), of cbs] sel(2) by simp
  show ?thesis
  proof (cases rule: safe_cases [OF process_events_ok [OF D1(1) PQ lim D1(2) fds(2), of os f]])
    case (1 s2)
    then obtain V2 where V2: "dispatcher_ok uinv P d V2 s2" "same_shape V V2" by blast
    then have "v_limbo V2 = {}" "d_sleep (v_disp V2) = Null"
      using null by (simp_all add: same_shape_def)
    from process_timeouts_null [OF V2(1) PQ this, of os] show ?thesis
      by (auto simp: eq 1(1))
  qed (simp add: eq)
qed

lemma dispatch_ok:
  assumes D: "dispatcher_ok uinv P d V s" and PQ: "P \<le> Q" and lim: "v_limbo V = {}"
    and fds: "fds_ok V s" "\<forall>v. P v \<longrightarrow> fd_ok (s_fd v)" and ring: "d_sleep (v_disp V) \<noteq> Null"
  shows "safe (\<lambda>(r, s'). r \<in> {0, 1} \<and> (\<exists>V'. dispatcher_ok uinv P d V' s' \<and> same_shape V V'))
    (dispatcher_dispatch os cbs (Ptr d 0) ms s)"
proof -
  have I: "dinv P d V (hp s) (tm s)"
    using D by (simp add: dispatcher_ok_def)
  obtain err f s1 where sel: "after_select os (with_fds (all_fds V (hp s)) fd_zero) ms s = (err, f, s1)"
    by (metis prod.exhaust)
  have D1: "dispatcher_ok uinv P d V s1" "fds_ok V s1"
    using dispatcher_ok_quiet [OF D after_select_same [OF sel]] fds(1) after_select_same(1) [OF sel]
    by (simp_all add: fds_ok_def)
  have "safe (\<lambda>(r, s'). r \<in> {0, 1} \<and> (\<exists>V'. dispatcher_ok uinv P d V' s' \<and> same_shape V V'))
      (obind (process_events os cbs (Ptr d 0) f s1) (\<lambda>s. obind (process_timeouts os cbs (Ptr d 0) s) (\<lambda>s. ok (1, s))))"
    unfolding safe_obind
  proof (rule safe_mono [OF process_events_ok [OF D1(1) PQ lim D1(2) fds(2)]], elim exE conjE, goal_cases)
    case (1 s2 V2)
    then have "v_limbo V2 = {}" "d_sleep (v_disp V2) \<noteq> Null"
      using ring by (simp_all add: same_shape_def)
    from process_timeouts_ok [OF 1(1) PQ this] show ?case
      by (rule safe_mono) (use same_shape_trans [OF 1(2)] in auto)
  qed
  then show ?thesis
    using dispatch_eq [OF I fds(2,1) sel, of cbs] D1(1) same_shape_refl [OF lim] by auto
qed

end

end
