(* ===== verification/Dispatch_Start.thy ===== *)
theory Dispatch_Start
  imports Dispatch_Run
begin

text \<open>
  How a dispatcher comes into being: \<open>dispatcher_create\<close> establishes the invariant, and
  \<open>dispatcher_add_listener\<close> either fails, having released the socket and the address list it had
  taken, or appends one service.
\<close>

section \<open>Heaps that only gain blocks\<close>

definition extends :: "obj heap \<Rightarrow> obj heap \<Rightarrow> bool" where
  "extends h h' \<longleftrightarrow> heap_wf h' \<and> (\<forall>x. live h x \<noteq> None \<longrightarrow> live h' x = live h x) \<and>
     (\<forall>x c. live h x = None \<longrightarrow> live h' x \<noteq> Some (OConn c))"

lemma extends_refl: "heap_wf h \<Longrightarrow> extends h h"
  by (simp add: extends_def)

lemma extends_keeps: "extends h h' \<Longrightarrow> keeps h h'"
  unfolding extends_def keeps_def by (metis option.distinct(1))

lemma extends_alloc:
  assumes "extends h h1" "allocated h1 ob p h2" "\<And>c. ob \<noteq> OConn c"
  shows "extends h h2"
proof -
  obtain b where b: "next_block h1 \<le> b" "b < next_block h2" "live h2 = (live h1)(b \<mapsto> ob)"
    using assms(2) by (auto simp: allocated_def)
  have fresh: "live h1 b = None"
    using assms(1) b(1) by (auto simp: extends_def heap_wf_def)
  then have "live h b = None"
    using assms(1) unfolding extends_def by (metis)
  with assms(1,3) b show ?thesis
    by (auto simp: extends_def heap_wf_def split: if_splits)
qed

lemma extends_store:
  assumes "extends h h1" "live h b = None" "live h1 b \<noteq> None" "\<And>c. ob \<noteq> OConn c"
  shows "extends h (h1\<lparr>live := (live h1)(b \<mapsto> ob)\<rparr>)"
  using assms by (auto simp: extends_def heap_wf_def)

lemma dinv_extends:
  assumes I: "dinv P d V h m" and e: "extends h h'"
  shows "dinv P d V h' m"
proof -
  have same: "live h' x = Some ob" if "live h x = Some ob" for x ob
    using e that by (auto simp: extends_def)
  have "dinv P d (V\<lparr>v_limbo := v_limbo V, v_map := v_map V\<rparr>) h' m"
  proof (rule dinv_change [OF I _ extends_keeps [OF e]])
    show "heap_wf h'" using e by (simp add: extends_def)
    show "(\<exists>c. live h' b = Some (OConn c)) \<longleftrightarrow> b \<in> set (v_conns V) \<union> v_limbo V" for b
      using dinv_conn_iff [OF I, of b] e same [of b] by (cases "live h b") (auto simp: extends_def)
  qed (use I dinvD(2) [OF I] same in \<open>auto simp: dinv_def conns_ok_def\<close>)
  then show ?thesis by simp
qed

section \<open>Creation\<close>

definition empty_view :: "dispatcher \<Rightarrow> view" where
  "empty_view D = \<lparr>v_disp = D, v_svcs = [], v_conns = [], v_limbo = {}, v_map = Map.empty\<rparr>"

definition pristine :: "'w state \<Rightarrow> bool" where
  "pristine s \<longleftrightarrow> heap_wf (hp s) \<and> (\<forall>b c. live (hp s) b \<noteq> Some (OConn c)) \<and>
     timers (tm s) Map.empty \<and> (\<forall>e. ents (tm s) e = None) \<and>
     (\<forall>r. rings (tm s) r \<noteq> None \<longrightarrow> r < next_block (hp s))"

lemma dispatcher_create_ok:
  assumes "pristine s"
  shows "safe (\<lambda>(p, s'). \<exists>d D. p = Ptr d 0 \<and> dinv P d (empty_view D) (hp s') (tm s') \<and>
      d_sleep D = Null \<and> d_receive D = Null \<and> extends (hp s) (hp s') \<and> app (hp s') = app (hp s) \<and>
      trace s' = trace s)
    (dispatcher_create os s)"
  unfolding dispatcher_create_def safe_obind safe_with_heap
proof (rule safe_mono [OF um.calloc_spec], goal_cases)
  case (3 x)
  then obtain d h1 where x: "x = (Ptr d 0, h1)" and a1: "allocated (hp s) (ODisp zero_dispatcher) (Ptr d 0) h1"
    by (auto simp: allocated_def)
  have wf: "heap_wf (hp s)" and fresh: "\<And>e. ents (tm s) e = None" and T: "timers (tm s) Map.empty"
    using assms by (simp_all add: pristine_def)
  have e1: "extends (hp s) h1"
    using extends_alloc [OF extends_refl [OF wf] a1] by simp
  have d: "live (hp s) d = None" "live h1 d = Some (ODisp zero_dispatcher)" "next_block (hp s) \<le> next_block h1"
    using allocated_fresh [OF a1 wf] a1 by (auto simp: allocated_def)
  obtain now w where t: "os_time os (world s) = (now, w)" by fastforce
  have used: "r < next_block h1" if "rings (tm s) r \<noteq> None" for r
    using assms d(3) that by (force simp: pristine_def)
  let ?D = "\<lambda>r. zero_dispatcher\<lparr>d_inactivity := Ptr r 0\<rparr>"
  show ?case
    unfolding x case_prod_conv sys_def hp_update_simps t Let_def safe_obind hp_update_simps world_update_simps
  proof (rule safe_mono [OF timeouts_create_spec [OF T used]], goal_cases)
    case (2 y)
    then obtain r h2 m2 where y: "y = (Ptr r 0, h2, m2)" and a2: "allocated h1 ORing (Ptr r 0) h2"
      and m2: "rings (tm s) r = None" "timers m2 Map.empty" "ents m2 = ents (tm s)" "rings m2 r \<noteq> None"
      by auto
    have e2: "extends (hp s) h2"
      using extends_alloc [OF e1 a2] by simp
    have "live h1 r = None"
      using allocated_fresh [OF a2] e1 by (simp add: extends_def)
    then have d2: "live h2 d = Some (ODisp zero_dispatcher)"
      using d(2) a2 by (auto simp: allocated_def)
    let ?h = "h2\<lparr>live := (live h2)(d \<mapsto> ODisp (?D r))\<rparr>"
    have e3: "extends (hp s) ?h"
      using extends_store [OF e2 d(1)] d2 by simp
    have T2: "timer_inv (?D r) Map.empty {} m2"
      by (rule timer_invI [OF m2(2)]) (use m2 fresh in \<open>simp_all add: zero_dispatcher_def\<close>)
    have "live ?h b \<noteq> Some (OConn c)" for b c
      using e3 assms unfolding extends_def pristine_def by metis
    then have "dinv P d (empty_view (?D r)) ?h m2"
      using e3 T2 by (simp add: dinv_def empty_view_def arrays_ok_def conns_ok_def arr_ok_def extends_def
          zero_dispatcher_def)
    moreover have "app ?h = app (hp s)"
    proof -
      have "live (hp s) r = None"
        using \<open>live h1 r = None\<close> e1 unfolding extends_def by metis
      then show ?thesis
        using d a1 a2 by (auto simp: app_def fun_eq_iff allocated_def)
    qed
    ultimately show ?case
      unfolding y case_prod_conv using d2 e3
      by (simp, intro exI [of _ "?D r"]) (simp add: zero_dispatcher_def)
  qed simp
qed simp_all

section \<open>Adding a service\<close>

text \<open>The heap before and after a service is listed.\<close>

definition svc_listing :: "view \<Rightarrow> nat \<Rightarrow> ptr \<Rightarrow> nat \<Rightarrow> obj heap \<Rightarrow> obj heap \<Rightarrow> bool" where
  "svc_listing V d p a h h' \<longleftrightarrow>
     live h a = None \<and> live h' a = Some (OArr (v_svcs V @ [p])) \<and>
     live h' d = Some (ODisp (v_disp V\<lparr>d_services := Ptr a 0, d_service_count := length (v_svcs V @ [p])\<rparr>)) \<and>
     (\<forall>x. d_services (v_disp V) = Ptr x 0 \<longrightarrow> live h' x = None) \<and>
     (\<forall>x. x \<noteq> a \<longrightarrow> x \<noteq> d \<longrightarrow> d_services (v_disp V) \<noteq> Ptr x 0 \<longrightarrow> live h' x = live h x)"

lemma svc_listingD:
  assumes "svc_listing V d p a h h'"
  shows "live h a = None" "live h' a = Some (OArr (v_svcs V @ [p]))"
    "live h' d = Some (ODisp (v_disp V\<lparr>d_services := Ptr a 0, d_service_count := length (v_svcs V @ [p])\<rparr>))"
    "d_services (v_disp V) = Ptr x 0 \<Longrightarrow> live h' x = None"
    "x \<noteq> a \<Longrightarrow> x \<noteq> d \<Longrightarrow> d_services (v_disp V) \<noteq> Ptr x 0 \<Longrightarrow> live h' x = live h x"
  using assms unfolding svc_listing_def by blast+

lemma svc_listing_proj:
  assumes "dinv P d V h m" "svc_listing V d p a h h'"
    and "\<And>ys. g (Some (OArr ys)) = g None" "\<And>D D'. g (Some (ODisp D)) = g (Some (ODisp D'))"
  shows "g (live h' x) = g (live h x)"
proof (rule moved_array [OF listing_arrays(2) [OF assms(1)] svc_listingD(1,2,4) [OF assms(2)], where g = g])
  show "g (live h' x) = g (live h x)" if "x \<noteq> a" "d_services (v_disp V) \<noteq> Ptr x 0" for x
    using svc_listingD(5) [OF assms(2), of x] that svc_listingD(3) [OF assms(2)] dinvD(2) [OF assms(1)] assms(4)
    by (cases "x = d") simp_all
qed (assumption | rule assms(3))+

lemma svc_listing_keeps:
  assumes "dinv P d V h m" "svc_listing V d p a h h'"
  shows "keeps h h'" "app h' = app h" "live h' x = Some (OConn c) \<longleftrightarrow> live h x = Some (OConn c)"
proof -
  note proj = svc_listing_proj [OF assms]
  show "live h' x = Some (OConn c) \<longleftrightarrow> live h x = Some (OConn c)"
    by (rule proj [where g = "\<lambda>z. z = Some (OConn c)"]) simp_all
  have "live h' x = Some (OStr str) \<longleftrightarrow> live h x = Some (OStr str)" for x str
    by (rule proj [where g = "\<lambda>z. z = Some (OStr str)"]) simp_all
  moreover have "live h' x = Some (OSvc v) \<longleftrightarrow> live h x = Some (OSvc v)" for x v
    by (rule proj [where g = "\<lambda>z. z = Some (OSvc v)"]) simp_all
  ultimately show "keeps h h'" by (simp add: keeps_def)
  show "app h' = app h"
    unfolding app_def fun_eq_iff by (rule allI, rule proj) simp_all
qed

lemma dinv_add_svc:
  assumes I: "dinv P d V h m" and p: "svc_ok P h p"
    and n: "length (v_svcs V) + 1 < 2 ^ 61" and wf: "heap_wf h'" and L: "svc_listing V d p a h h'"
  shows "dinv P d (V\<lparr>v_disp := v_disp V\<lparr>d_services := Ptr a 0, d_service_count := length (v_svcs V @ [p])\<rparr>,
      v_svcs := v_svcs V @ [p]\<rparr>) h' m" (is "dinv P d ?V h' m")
proof -
  note at = svc_listingD(1-3) [OF L] and dl = dinvD(2) [OF I] and arr = listing_arrays [OF I] and k = svc_listing_keeps [OF I L]
  have counts: "d_connection_count (v_disp V) = length (v_conns V)" "length (v_conns V) < 2 ^ 61"
      "\<forall>q \<in> set (v_svcs V). svc_ok P h q"
    using dinvD(3) [OF I] by (simp_all add: arrays_ok_def)
  have "live h' x = live h x" if "d_connections (v_disp V) = Ptr x 0" for x
    using arr(1,3) that at(1) dl by (intro svc_listingD(5) [OF L]) (auto simp: arr_ok_def)
  then have conns: "arr_ok h' (d_connections (v_disp V)) (map conn_ptr (v_conns V))"
    using arr(1) arr_ok_cong by blast
  have "d_services (v_disp V) = Null \<or> Ptr a 0 \<noteq> d_connections (v_disp V)" "Ptr a 0 \<noteq> d_connections (v_disp V)"
    using arr(1) at(1) by (auto simp: arr_ok_def)
  moreover have "arr_ok h' (Ptr a 0) (v_svcs V @ [p])"
    by (rule arr_okI [OF at(2)]) simp_all
  ultimately have "arrays_ok P ?V h'"
    using conns n counts svc_ok_mono [OF _ k(1)] p by (auto simp: arrays_ok_def)
  moreover have "conns_ok P ?V h'"
    using dinvD(4) [OF I] conn_ok_mono [OF _ k(1)] by (auto simp: conns_ok_def k(3))
  moreover have "timer_inv (v_disp ?V) (v_map V) (set (v_conns V) \<union> v_limbo V) m"
    using dinvD(5) [OF I] by (simp add: timer_inv_def)
  ultimately show ?thesis
    using wf at(3) by (simp add: dinv_def)
qed

text \<open>A service between its allocation and its listing.\<close>

definition fresh_svc :: "'w state \<Rightarrow> nat \<Rightarrow> service \<Rightarrow> 'w state \<Rightarrow> bool" where
  "fresh_svc s k v s' \<longleftrightarrow> extends (hp s) (hp s') \<and> live (hp s) k = None \<and> live (hp s') k = Some (OSvc v) \<and>
     app (hp s') = app (hp s) \<and> tm s' = tm s \<and> trace s' = trace s"

lemma fresh_svc_upd:
  assumes F: "fresh_svc s k v s'"
  shows "upd_svc (Ptr k 0) f s' = ok (store_obj (Ptr k 0) (OSvc (f v)) s')"
    and "fresh_svc s k (f v) (store_obj (Ptr k 0) (OSvc (f v)) s')"
proof -
  have k: "live (hp s') k = Some (OSvc v)" "live (hp s) k = None" "extends (hp s) (hp s')"
    using F by (simp_all add: fresh_svc_def)
  show "upd_svc (Ptr k 0) f s' = ok (store_obj (Ptr k 0) (OSvc (f v)) s')"
    using k(1) by simp
  have "app (hp (store_obj (Ptr k 0) (OSvc (f v)) s')) = app (hp s')"
    using k(1) by (auto simp: app_def fun_eq_iff)
  with extends_store [OF k(3,2), of "OSvc (f v)"] k F
  show "fresh_svc s k (f v) (store_obj (Ptr k 0) (OSvc (f v)) s')"
    by (simp add: fresh_svc_def)
qed

lemma fresh_svc_alloc:
  assumes F: "fresh_svc s k v s'" and a: "allocated (hp s') (OStr str) (Ptr b 0) h"
  shows "fresh_svc s k v (s'\<lparr>hp := h\<rparr>)" and "live h b = Some (OStr str)"
    and "b \<noteq> k" and "\<And>x ob. live (hp s') x = Some ob \<Longrightarrow> live h x = Some ob"
proof -
  have e: "extends (hp s) (hp s')"
    using F by (simp add: fresh_svc_def)
  have fresh: "live (hp s') b = None"
    using allocated_fresh [OF a] e by (simp add: extends_def)
  have h: "live h = (live (hp s'))(b \<mapsto> OStr str)"
    using a by (auto simp: allocated_def)
  show "live h b = Some (OStr str)" by (simp add: h)
  show "b \<noteq> k" using F fresh by (auto simp: fresh_svc_def)
  show "live h x = Some ob" if "live (hp s') x = Some ob" for x ob
    using that fresh by (auto simp: h)
  have "extends (hp s) h"
    using extends_alloc [OF e a] by simp
  moreover have "app h = app (hp s')"
    using fresh by (auto simp: h app_def fun_eq_iff)
  ultimately show "fresh_svc s k v (s'\<lparr>hp := h\<rparr>)"
    using F \<open>b \<noteq> k\<close> by (simp add: fresh_svc_def h)
qed

lemma list_svc_ok:
  assumes I: "dinv P d V (hp s) (tm s)" and p: "svc_ok P (hp s) p"
  shows "safe (\<lambda>(r, s'). r = (0 :: int) \<and> (\<exists>a. dinv P d
      (V\<lparr>v_disp := v_disp V\<lparr>d_services := Ptr a 0, d_service_count := length (v_svcs V @ [p])\<rparr>,
         v_svcs := v_svcs V @ [p]\<rparr>) (hp s') (tm s')) \<and>
      keeps (hp s) (hp s') \<and> app (hp s') = app (hp s) \<and> trace s' = trace s)
    (obind (load_disp (Ptr d 0) s) (\<lambda>D.
     obind (realloc_arr os (d_services D) (d_service_count D + 1) s) (\<lambda>(arr, s).
     obind (upd_disp (Ptr d 0) (\<lambda>D. D\<lparr>d_services := arr\<rparr>) s) (\<lambda>s.
     obind (store_arr arr (d_service_count D) p s) (\<lambda>s.
     obind (upd_disp (Ptr d 0) (\<lambda>D. D\<lparr>d_service_count := d_service_count D + 1\<rparr>) s) (\<lambda>s. ok (0, s)))))))"
proof -
  let ?D = "v_disp V" and ?n = "length (v_svcs V)"
  have D: "live (hp s) d = Some (ODisp ?D)" "load_disp (Ptr d 0) s = ok ?D"
    using dinvD(2) [OF I] by simp_all
  have arr: "d_service_count ?D = ?n" "arr_ok (hp s) (d_services ?D) (v_svcs V)" "?n < 2 ^ 61"
    using dinvD(3) [OF I] by (simp_all add: arrays_ok_def)
  show ?thesis
    unfolding D(2) obind_ok arr(1) safe_obind
  proof (rule safe_mono [OF realloc_arr_spec [OF dinvD(1) [OF I] arr(2,3)]], goal_cases)
    case (1 y)
    then obtain a x h' where y: "y = (Ptr a 0, s\<lparr>hp := h'\<rparr>)" and a: "live (hp s) a = None" "heap_wf h'"
        "live h' a = Some (OArr (v_svcs V @ [x]))" and n: "?n + 1 < 2 ^ 61"
      and old: "\<And>b. d_services ?D = Ptr b 0 \<Longrightarrow> live h' b = None"
      and same: "\<And>b. b \<noteq> a \<Longrightarrow> d_services ?D \<noteq> Ptr b 0 \<Longrightarrow> live h' b = live (hp s) b"
      by auto
    have apart: "d_services ?D \<noteq> Ptr d 0" "d_services ?D \<noteq> Ptr a 0" "a \<noteq> d"
      using arr(2) D(1) a(1) by (auto simp: arr_ok_def)
    have live: "live h' d = Some (ODisp ?D)"
      using same [of d] apart D(1) by simp
    let ?D1 = "?D\<lparr>d_services := Ptr a 0\<rparr>"
    let ?s0 = "s\<lparr>hp := h'\<rparr>"
    let ?s1 = "store_obj (Ptr d 0) (ODisp ?D1) ?s0"
    let ?s2 = "store_obj (Ptr a 0) (OArr (v_svcs V @ [p])) ?s1"
    let ?s3 = "store_obj (Ptr d 0) (ODisp (?D1\<lparr>d_service_count := ?n + 1\<rparr>)) ?s2"
    have steps: "upd_disp (Ptr d 0) (\<lambda>D. D\<lparr>d_services := Ptr a 0\<rparr>) ?s0 = ok ?s1"
      "store_arr (Ptr a 0) ?n p ?s1 = ok ?s2"
      "upd_disp (Ptr d 0) (\<lambda>D. D\<lparr>d_service_count := d_service_count D + 1\<rparr>) ?s2 = ok ?s3"
      using live a(3) apart arr(1) by (simp_all add: list_update_append)
    have wf: "heap_wf (hp ?s3)"
      using a(2,3) live by (auto simp: heap_wf_def)
    have L: "svc_listing V d p a (hp s) (hp ?s3)"
      unfolding svc_listing_def
    proof (intro conjI allI impI)
      show "live (hp ?s3) x = None" if "d_services ?D = Ptr x 0" for x
        using old [OF that] that apart by auto
    qed (use apart a(1) same in simp_all)
    show ?case
      unfolding y case_prod_conv steps obind_ok safe_ok
      using dinv_add_svc [OF I p n wf L] svc_listing_keeps(1,2) [OF I L] by (auto simp del: store_obj_simps(1))
  qed
qed

text \<open>The service as it is before it is listed.\<close>

definition svc_of :: "ptr \<Rightarrow> fnptr \<Rightarrow> fnptr \<Rightarrow> fnptr \<Rightarrow> int \<Rightarrow> ptr \<Rightarrow> ptr \<Rightarrow> service" where
  "svc_of sd recv send event fd ha hport = \<lparr>s_fd = fd, s_recv = recv, s_send = send, s_event = event,
     s_cfg_timeout_inactivity = 5, s_userdata = sd, s_hostaddr = ha, s_hostport = hport\<rparr>"

lemma safe_build_svc:
  assumes wf: "heap_wf (hp s)"
    and rest: "\<And>k p q s'. fresh_svc s k (svc_of sd recv send event fd p q) s' \<Longrightarrow>
      str_ok (hp s') p \<Longrightarrow> str_ok (hp s') q \<Longrightarrow> safe Post (body (Ptr k 0) s')"
  shows "safe Post
    (obind (with_heap (CALLOC (os_alloc os) 1 64 (OSvc zero_service)) s) (\<lambda>(svc, s).
     obind (upd_svc svc (\<lambda>v. v\<lparr>s_recv := recv, s_send := send, s_event := event\<rparr>) s) (\<lambda>s.
     obind (strdup os ha s) (\<lambda>(ha, s).
     obind (upd_svc svc (\<lambda>v. v\<lparr>s_hostaddr := ha\<rparr>) s) (\<lambda>s.
     obind (strdup os hport s) (\<lambda>(hport, s).
     obind (upd_svc svc (\<lambda>v. v\<lparr>s_hostport := hport, s_fd := fd, s_userdata := sd,
         s_cfg_timeout_inactivity := 5\<rparr>) s) (\<lambda>s. body svc s)))))))"
  unfolding safe_obind safe_with_heap
proof (rule safe_mono [OF um.calloc_spec], goal_cases)
  case (3 x)
  obtain k h1 where x: "x = (Ptr k 0, h1)" and a1: "allocated (hp s) (OSvc zero_service) (Ptr k 0) h1"
    using 3 by (auto simp: allocated_def)
  have "live (hp s) k = None" using allocated_fresh [OF a1 wf] .
  then have F1: "fresh_svc s k zero_service (s\<lparr>hp := h1\<rparr>)"
    using extends_alloc [OF extends_refl [OF wf] a1] a1 by (auto simp: fresh_svc_def allocated_def app_def fun_eq_iff)
  note U1 = fresh_svc_upd [OF F1, of "\<lambda>v. v\<lparr>s_recv := recv, s_send := send, s_event := event\<rparr>"]
  show ?case
    unfolding x case_prod_conv U1(1) safe_ok safe_obind
  proof (rule safe_strdup, goal_cases)
    case (1 b2 h2)
    note S2 = fresh_svc_alloc [OF U1(2) 1(2)]
    note U2 = fresh_svc_upd [OF S2(1), of "\<lambda>v. v\<lparr>s_hostaddr := Ptr b2 0\<rparr>"]
    show ?case
      unfolding case_prod_conv U2(1) safe_ok safe_obind
    proof (rule safe_strdup, goal_cases)
      case (1 b3 h3)
      note S3 = fresh_svc_alloc [OF U2(2) 1(2)]
      note U3 = fresh_svc_upd [OF S3(1), of "\<lambda>v. v\<lparr>s_hostport := Ptr b3 0, s_fd := fd, s_userdata := sd, s_cfg_timeout_inactivity := 5\<rparr>"]
      have str: "live h3 b2 = Some (OStr ha)"
        using S3(4) [of b2] S2(2,3) by simp
      show ?case
        unfolding case_prod_conv U3(1) obind_ok
        by (rule rest [of k "Ptr b2 0" "Ptr b3 0"]) (use U3(2) str S2(3) S3(2,3) in \<open>auto simp: str_ok_def svc_of_def zero_service_def\<close>)
    qed
  qed
qed simp_all

lemma add_service_ok:
  assumes I: "dinv P d V (hp s) (tm s)"
    and v: "\<And>ha hport. P \<lparr>s_fd = fd, s_recv = recv, s_send = send, s_event = event,
      s_cfg_timeout_inactivity = 5, s_userdata = sd, s_hostaddr = ha, s_hostport = hport\<rparr>"
  shows "safe (\<lambda>(r, s'). r = 0 \<and> (\<exists>a k. dinv P d
      (V\<lparr>v_disp := v_disp V\<lparr>d_services := Ptr a 0, d_service_count := length (v_svcs V @ [Ptr k 0])\<rparr>,
         v_svcs := v_svcs V @ [Ptr k 0]\<rparr>) (hp s') (tm s') \<and>
      svc_fd (hp s') (Ptr k 0) = fd \<and> app (hp s') = app (hp s) \<and> trace s' = trace s))
    (add_service os (Ptr d 0) sd recv send event ha hport fd s)"
  unfolding add_service_def
proof (rule safe_build_svc [OF dinvD(1) [OF I]], goal_cases)
  case F: (1 k p q s1)
  have p: "svc_ok P (hp s1) (Ptr k 0)"
    using F v [of p q] by (simp add: svc_ok_def fresh_svc_def svc_of_def)
  have I1: "dinv P d V (hp s1) (tm s1)"
    using dinv_extends [OF I] F(1) by (simp add: fresh_svc_def)
  show ?case
  proof (rule safe_mono [OF list_svc_ok [OF I1 p]], clarify, goal_cases)
    case (1 r s' a)
    moreover have "svc_fd (hp s') (Ptr k 0) = fd"
      using 1 F(1) unfolding fresh_svc_def keeps_def svc_fd_def by (simp add: svc_of_def)
    ultimately show ?case
      using F(1) by (auto simp: fresh_svc_def)
  qed
qed

section \<open>Adding a listener\<close>

text \<open>Everything an aborted attempt has taken it has also released.\<close>

definition balanced :: "obs list \<Rightarrow> bool" where
  "balanced tr \<longleftrightarrow> (\<forall>fd. Socket fd \<in> set tr \<longrightarrow> Close fd \<in> set tr) \<and>
     (\<forall>ai. Getaddrinfo ai \<in> set tr \<longrightarrow> Freeaddrinfo ai \<in> set tr)"

definition failed :: "'w state \<Rightarrow> (int \<times> 'w state) outcome \<Rightarrow> bool" where
  "failed s r \<longleftrightarrow> (\<exists>s' tr. r = ok (-1, s') \<and> hp s' = hp s \<and> tm s' = tm s \<and> trace s' = trace s @ tr \<and> balanced tr)"

lemma failedI: "hp s' = hp s \<Longrightarrow> tm s' = tm s \<Longrightarrow> trace s' = trace s @ tr \<Longrightarrow> balanced tr \<Longrightarrow> failed s (ok (-1, s'))"
  by (auto simp: failed_def)

lemma listener_fail_failed:
  assumes "hp s1 = hp s" "tm s1 = tm s" "trace s1 = trace s @ tr"
    and ai: "\<forall>ai'. Getaddrinfo ai' \<in> set tr \<longrightarrow> ai' = ai"
    and fd: "\<forall>f. Socket f \<in> set tr \<longrightarrow> fd = Some f"
  shows "failed s (listener_fail os fd ai s1)"
proof (cases fd)
  case None
  then have "listener_fail os fd ai s1 = ok (-1, emit (Freeaddrinfo ai) s1)"
    by (simp add: listener_fail_def)
  moreover have "balanced (tr @ [Freeaddrinfo ai])"
    using ai fd None by (auto simp: balanced_def)
  ultimately show ?thesis
    using assms(1-3) by (simp add: failedI)
next
  case (Some f)
  then have "listener_fail os fd ai s1 = ok (-1, emit (Freeaddrinfo ai) (c_close os f s1))"
    by (simp add: listener_fail_def)
  moreover have "balanced (tr @ [Close f, Freeaddrinfo ai])"
    using ai fd Some by (auto simp: balanced_def)
  ultimately show ?thesis
    using assms(1-3) by (simp add: failedI)
qed

lemma no_res [simp]: "err_line parts \<noteq> Socket fd" "err_line parts \<noteq> Getaddrinfo ai"
  "Socket fd \<noteq> err_line parts" "Getaddrinfo ai \<noteq> err_line parts"
  by (simp_all add: err_line_def)

lemma listener_cases:
  obtains (fails) "failed s (dispatcher_add_listener os d sd port recv send event s)"
  | (listens) s1 ai ha hport fd where
      "dispatcher_add_listener os d sd port recv send event s = add_service os d sd recv send event ha hport fd s1"
      "0 \<le> port" "port \<le> 65535" "fd \<noteq> -1" "hp s1 = hp s" "tm s1 = tm s"
      "trace s1 = trace s @ [Getaddrinfo ai, Socket fd,
         Err (''[+] dispatcher_add_listener: listening on ['' @ ha @ '']:'' @ hport @ newline)]"
proof (cases "port < 0 \<or> 65535 < port")
  case True
  then show thesis
    by (intro fails) (auto simp: dispatcher_add_listener_def intro!: failedI simp: balanced_def)
next
  case port: False
  obtain err ai w1 where o1: "os_getaddrinfo os (show_int port) (world s) = ((err, ai), w1)"
    by (metis prod.exhaust)
  obtain err2 ha hport w2 where o2: "os_getnameinfo os (ai_addr ai) w1 = ((err2, ha, hport), w2)"
    by (metis prod.exhaust)
  obtain fd w3 where o3: "os_socket os (ai_family ai) w2 = (fd, w3)" by fastforce
  obtain fl w4 where o4: "os_fcntl_getfl os fd w3 = (fl, w4)" by fastforce
  obtain r w5 where o5: "os_fcntl_setfl os fd (or fl O_NONBLOCK) w4 = (r, w5)" by fastforce
  obtain e3 w6 where o6: "os_reuseaddr os fd w5 = (e3, w6)" by fastforce
  obtain e4 w7 where o7: "os_reuseport os fd w6 = (e4, w7)" by fastforce
  obtain e5 w8 where o8: "os_bind os fd (ai_addr ai) w7 = (e5, w8)" by fastforce
  obtain e6 w9 where o9: "os_listen os fd 10 w8 = (e6, w9)" by fastforce
  note os = o1 o2 o3 o4 o5 o6 o7 o8 o9
  let ?run = "dispatcher_add_listener os d sd port recv send event s"
  show thesis
  proof (cases "err = 0 \<and> err2 = 0 \<and> fd \<noteq> -1 \<and> e3 = 0 \<and> e4 = 0 \<and> e5 = 0 \<and> e6 = 0")
    case True
    let ?s = "s\<lparr>world := w9, trace := trace s @ [Getaddrinfo ai, Socket fd,
         Err (''[+] dispatcher_add_listener: listening on ['' @ ha @ '']:'' @ hport @ newline)]\<rparr>"
    have "?run = add_service os d sd recv send event ha hport fd ?s"
      using port os True
      by (simp add: dispatcher_add_listener_def Let_def sys_def socket_set_nonblocking_def emit_def)
    then show thesis
      by (rule listens) (use port True in simp_all)
  next
    case False
    then consider "err \<noteq> 0" | "err = 0" "err2 \<noteq> 0" | "err = 0" "err2 = 0" "fd = -1"
      | "err = 0" "err2 = 0" "fd \<noteq> -1" "e3 \<noteq> 0"
      | "err = 0" "err2 = 0" "fd \<noteq> -1" "e3 = 0" "e4 \<noteq> 0"
      | "err = 0" "err2 = 0" "fd \<noteq> -1" "e3 = 0" "e4 = 0" "e5 \<noteq> 0"
      | "err = 0" "err2 = 0" "fd \<noteq> -1" "e3 = 0" "e4 = 0" "e5 = 0" "e6 \<noteq> 0"
      by blast
    then have "failed s ?run"
    proof cases
      case 1
      then show ?thesis
        using port os by (auto simp: dispatcher_add_listener_def Let_def sys_def balanced_def intro!: failedI)
    qed (use port os in \<open>auto simp: dispatcher_add_listener_def Let_def sys_def emit_def socket_set_nonblocking_def
        intro!: listener_fail_failed\<close>)
    then show thesis by (rule fails)
  qed
qed

text \<open>The view with one more service.\<close>

definition serving :: "nat \<Rightarrow> nat \<Rightarrow> view \<Rightarrow> view" where
  "serving a k V = V\<lparr>v_disp := v_disp V\<lparr>d_services := Ptr a 0, d_service_count := length (v_svcs V @ [Ptr k 0])\<rparr>,
     v_svcs := v_svcs V @ [Ptr k 0]\<rparr>"

lemma serving_simps [simp]:
  "v_svcs (serving a k V) = v_svcs V @ [Ptr k 0]" "v_conns (serving a k V) = v_conns V"
  "v_limbo (serving a k V) = v_limbo V" "v_map (serving a k V) = v_map V"
  "d_sleep (v_disp (serving a k V)) = d_sleep (v_disp V)"
  "d_inactivity (v_disp (serving a k V)) = d_inactivity (v_disp V)"
  by (simp_all add: serving_def)

lemma dispatcher_add_listener_ok:
  assumes I: "dinv P d V (hp s) (tm s)"
    and v: "\<And>fd ha hport. fd \<noteq> -1 \<Longrightarrow> P \<lparr>s_fd = fd, s_recv = recv, s_send = send, s_event = event,
      s_cfg_timeout_inactivity = 5, s_userdata = sd, s_hostaddr = ha, s_hostport = hport\<rparr>"
  shows "safe (\<lambda>(r, s').
      (r = -1 \<and> hp s' = hp s \<and> tm s' = tm s \<and> (\<exists>tr. trace s' = trace s @ tr \<and> balanced tr)) \<or>
      (r = 0 \<and> 0 \<le> port \<and> port \<le> 65535 \<and> (\<exists>a k ai fd msg. dinv P d (serving a k V) (hp s') (tm s') \<and>
         svc_fd (hp s') (Ptr k 0) = fd \<and> app (hp s') = app (hp s) \<and>
         trace s' = trace s @ [Getaddrinfo ai, Socket fd, Err msg])))
    (dispatcher_add_listener os (Ptr d 0) sd port recv send event s)"
proof (cases rule: listener_cases [of s os "Ptr d 0" sd port recv send event])
  case fails
  then show ?thesis by (auto simp: failed_def)
next
  case (listens s1 ai ha hport fd)
  have I1: "dinv P d V (hp s1) (tm s1)"
    using I listens(5,6) by simp
  show ?thesis
    unfolding listens(1)
  proof (rule safe_mono [OF add_service_ok [OF I1]], goal_cases)
    case (1 ha hport)
    then show ?case using v [OF listens(4)] by simp
  next
    case (2 x)
    obtain r s' where x: "x = (r, s')" by (cases x)
    obtain a k where "r = 0" "dinv P d (serving a k V) (hp s') (tm s')" "svc_fd (hp s') (Ptr k 0) = fd"
        "app (hp s') = app (hp s)" "trace s' = trace s1"
      using 2 listens(5) by (auto simp: serving_def x)
    note this(2-4) and trans [OF this(5) listens(7)]
    then have "\<exists>a k ai fd msg. dinv P d (serving a k V) (hp s') (tm s') \<and>
         svc_fd (hp s') (Ptr k 0) = fd \<and> app (hp s') = app (hp s) \<and>
         trace s' = trace s @ [Getaddrinfo ai, Socket fd, Err msg]"
      by blast
    with listens(2,3) \<open>r = 0\<close> show ?case
      by (simp add: x)
  qed
qed

end
