(* ===== verification/Dispatch_Returns.thy ===== *)
theory Dispatch_Returns
  imports Dispatch_Start
begin

text \<open>
  The operations of the dispatcher do not end in \<open>abort()\<close>: those that allocate nothing in any state, the
  others when the allocator is willing and the arrays are not longer than the address space allows. With
  the theorems on \<open>safe\<close> this means that they return. What the callbacks have to contribute is the
  locale \<open>returning_handler\<close>.
\<close>

section \<open>Access to the heap\<close>

lemma no_abort_load [no_aborts]:
  "no_abort (load_disp p s)" "no_abort (load_svc p s)" "no_abort (load_conn p s)" "no_abort (load_str p s)" "no_abort (load_arr p i s)"
  by (auto simp: load_disp_def load_svc_def load_conn_def load_str_def load_arr_def load_obj_def
      intro!: no_aborts split: ptr.split option.split obj.split)

lemma no_abort_update [no_aborts]:
  "no_abort (store_arr p i q s)" "no_abort (upd_disp p F s)" "no_abort (upd_svc p G s)" "no_abort (upd_conn p H s)"
  by (auto simp: store_arr_def load_obj_def upd_disp_def upd_svc_def upd_conn_def
      intro!: no_aborts split: ptr.split option.split obj.split)

lemma no_abort_with [no_aborts]:
  "no_abort (F (hp s)) \<Longrightarrow> no_abort (with_heap F s)" "no_abort (G (tm s)) \<Longrightarrow> no_abort (with_tm G s)"
  by (auto simp: with_heap_def with_tm_def intro!: no_aborts)

section \<open>Timers\<close>

lemma no_abort_entry [no_aborts]:
  "no_abort (load_entry e m)" "no_abort (upd_entry e F m)" "no_abort (load_ring t m)" "no_abort (upd_ring t G m)"
  "no_abort (load_slot t i m)" "no_abort (store_slot t i p m)" "no_abort (assign_loc l p m)"
  by (auto simp: load_entry_def upd_entry_def load_ring_def upd_ring_def load_slot_def store_slot_def assign_loc_def
      intro!: no_aborts split: ptr.split option.split ploc.split)

lemma no_abort_timer [no_aborts]: "no_abort (timeout_unlink e m)" "no_abort (timeouts_add t e off ts m)"
  unfolding timeouts_add_def timeout_unlink_def Let_def by (intro no_aborts)+

lemma no_abort_scan_slot [no_aborts]: "no_abort (scan_slot ts m e)"
proof (rule no_abortI)
  fix y assume "scan_slot ts m e = Some y"
  then show "\<forall>msg. y \<noteq> Inl (Aborted msg)"
  proof (induction rule: scan_slot.raw_induct [rotated, consumes 1, case_names step])
    case (step loop ts m e y)
    from step(2) show ?case
      by (rule no_abortD) (intro no_aborts no_abortI step(1))
  qed
qed

lemma no_abort_scan_ring [no_aborts]: "no_abort (scan_ring t ts m)"
proof (rule no_abortI)
  fix y assume "scan_ring t ts m = Some y"
  then show "\<forall>msg. y \<noteq> Inl (Aborted msg)"
  proof (induction rule: scan_ring.raw_induct [rotated, consumes 1, case_names step])
    case (step loop t ts m y)
    from step(2) show ?case
      by (rule no_abortD) (intro no_aborts no_abortI step(1))
  qed
qed

lemma no_abort_take [no_aborts]: "no_abort (timeouts_remove t ts m)" "no_abort (take_timeout t ts s)"
  unfolding take_timeout_def timeouts_remove_def by (intro no_aborts)+

section \<open>Loops\<close>

lemma for_loop_no_abort:
  assumes bound: "\<And>s. no_abort (bound s)"
    and body: "\<And>i s n. Inv i s \<Longrightarrow> bound s = ok n \<Longrightarrow> i < n \<Longrightarrow> no_abort (body i s) \<and> (\<forall>j s'. body i s = ok (j, s') \<longrightarrow> Inv j s')"
    and start: "Inv i s"
  shows "no_abort (for_loop bound body i s)"
proof (rule no_abortI)
  fix y assume "for_loop bound body i s = Some y"
  from this bound body start show "\<forall>msg. y \<noteq> Inl (Aborted msg)"
  proof (induction rule: for_loop.raw_induct [rotated, consumes 1, case_names step])
    case (step loop bound body i s y)
    have rest: "no_abort (loop bound body j s')" if "Inv j s'" for j s'
      by (rule no_abortI) (rule step(1) [OF _ step(3,4) that])
    have "no_abort (if i < n then obind (body i s) (\<lambda>(j, s). loop bound body j s) else ok s)" if "bound s = ok n" for n
      using step(4) [OF step(5) that] by (auto intro!: no_abort_ok no_abort_obind rest split: prod.split)
    with step(3) have "no_abort (obind (bound s) (\<lambda>n. if i < n then obind (body i s) (\<lambda>(j, s). loop bound body j s) else ok s))"
      by (intro no_abort_obind)
    with step(2) show ?case by (rule no_abortD)
  qed
qed

lemma for_loop_simple [no_aborts]:
  "(\<And>s. no_abort (bound s)) \<Longrightarrow> (\<And>i s. no_abort (body i s)) \<Longrightarrow> no_abort (for_loop bound body i s)"
  by (rule for_loop_no_abort [where Inv = "\<lambda>_ _. True"]) simp_all

section \<open>What allocates nothing\<close>

lemma no_abort_reading [no_aborts]:
  "no_abort (fd_isset fd S)" "no_abort (fd_add fd f)" "no_abort (service_at d i s)" "no_abort (connection_at d i s)"
  "no_abort (service_count d s)" "no_abort (connection_count d s)" "no_abort (peer_text c v s)" "no_abort (host_text v s)"
  unfolding fd_isset_def fd_add_def Let_def service_at_def connection_at_def service_count_def connection_count_def
    peer_text_def host_text_def
  by (intro no_aborts)+

lemma no_abort_build [no_aborts]: "no_abort (build_fdsets d s)"
  unfolding build_fdsets_def by (intro no_aborts)

lemma no_abort_connection [no_aborts]:
  "no_abort (connection_unlist d i s)" "no_abort (connection_close os p s)" "no_abort (connection_arm os d v p s)"
  unfolding connection_unlist_def connection_close_def connection_arm_def free_conn_def Let_def
  by (intro no_aborts)+

lemma no_abort_reports [no_aborts]:
  "no_abort (connection_error_one os d f i s)" "no_abort (service_error_one os d f i s)"
  unfolding connection_error_one_def service_error_one_def Let_def
  by (intro no_aborts)+

section \<open>What allocates\<close>

abbreviation willing :: "'w os \<Rightarrow> bool" where
  "willing os \<equiv> willing_allocator (os_alloc os)"

lemma CALLOC_small [no_aborts]:
  "willing_allocator al \<Longrightarrow> sz < MAXNUM \<Longrightarrow> no_abort (CALLOC al 1 sz ob h)"
  by (rule CALLOC_no_abort [OF _ guard_small]) (simp_all add: MAXNUM_eq)

lemma sizes_small [no_aborts]: "(56 :: u64) < MAXNUM" "(64 :: u64) < MAXNUM" "(160 :: u64) < MAXNUM" "(4 :: u64) < MAXNUM"
  "(8388624 :: u64) < MAXNUM"
  by (simp_all add: MAXNUM_eq)

lemma no_abort_strdup [no_aborts]: "willing os \<Longrightarrow> no_abort (strdup os str s)"
  unfolding strdup_def by (intro no_aborts)

lemma no_abort_new [no_aborts]: "willing os \<Longrightarrow> no_abort (connection_new os v fd pa pp s)"
  unfolding connection_new_def alloc_conn_def by (intro no_aborts)

lemma no_abort_create [no_aborts]: "willing os \<Longrightarrow> no_abort (dispatcher_create os s)"
  unfolding dispatcher_create_def timeouts_create_def Let_def by (intro no_aborts)

lemma no_abort_realloc:
  assumes "willing os" "n + 2 < 2 ^ 61"
  shows "no_abort (realloc_arr os p (n + 1) s)"
  unfolding realloc_arr_def
  using assms guard_pointers [of "n + 1"] by (intro no_aborts REALLOCARRAY_no_abort) simp_all

lemma no_abort_list:
  assumes I: "dinv P d V (hp s) (tm s)" and n: "length (v_conns V) + 2 < 2 ^ 61" and os: "willing os"
  shows "no_abort (connection_list os (Ptr d 0) p s)"
proof -
  have D: "load_disp (Ptr d 0) s = ok (v_disp V)" "d_connection_count (v_disp V) = length (v_conns V)"
    using dinvD(2,3) [OF I] by (simp_all add: arrays_ok_def)
  show ?thesis
    unfolding connection_list_def D obind_ok using os n by (intro no_aborts no_abort_realloc) simp_all
qed

lemma no_abort_add_service:
  assumes I: "dinv P d V (hp s) (tm s)" and n: "length (v_svcs V) + 2 < 2 ^ 61" and os: "willing os"
  shows "no_abort (add_service os (Ptr d 0) sd recv send event ha hport fd s)"
proof -
  let ?front = "obind (with_heap (CALLOC (os_alloc os) 1 64 (OSvc zero_service)) s) (\<lambda>(svc, s).
     obind (upd_svc svc (\<lambda>v. v\<lparr>s_recv := recv, s_send := send, s_event := event\<rparr>) s) (\<lambda>s.
     obind (strdup os ha s) (\<lambda>(ha, s).
     obind (upd_svc svc (\<lambda>v. v\<lparr>s_hostaddr := ha\<rparr>) s) (\<lambda>s.
     obind (strdup os hport s) (\<lambda>(hport, s).
     obind (upd_svc svc (\<lambda>v. v\<lparr>s_hostport := hport, s_fd := fd, s_userdata := sd,
         s_cfg_timeout_inactivity := 5\<rparr>) s) (\<lambda>s. ok (svc, s)))))))"
  let ?rest = "\<lambda>(svc, s). obind (load_disp (Ptr d 0) s) (\<lambda>D.
     obind (realloc_arr os (d_services D) (d_service_count D + 1) s) (\<lambda>(arr, s).
     obind (upd_disp (Ptr d 0) (\<lambda>D. D\<lparr>d_services := arr\<rparr>) s) (\<lambda>s.
     obind (store_arr arr (d_service_count D) svc s) (\<lambda>s.
     obind (upd_disp (Ptr d 0) (\<lambda>D. D\<lparr>d_service_count := d_service_count D + 1\<rparr>) s) (\<lambda>s. ok (0, s))))))"
  have split: "add_service os (Ptr d 0) sd recv send event ha hport fd s = obind ?front ?rest"
    by (simp add: add_service_def case_prod_unfold)
  have front: "safe (\<lambda>(svc, s'). extends (hp s) (hp s')) ?front"
    by (rule safe_build_svc [OF dinvD(1) [OF I]]) (simp add: fresh_svc_def)
  have D: "live (hp s) d = Some (ODisp (v_disp V))" "d_service_count (v_disp V) = length (v_svcs V)"
    using dinvD(2,3) [OF I] by (simp_all add: arrays_ok_def)
  show ?thesis
    unfolding split
  proof (rule no_abort_obind)
    show "no_abort ?front" using os by (intro no_aborts)
    fix x assume x: "?front = ok x"
    obtain svc s' where "x = (svc, s')" by (cases x)
    moreover have "live (hp s') d = Some (ODisp (v_disp V))"
      using safeD_ok [OF front x] D(1) \<open>x = (svc, s')\<close> by (simp add: extends_def)
    ultimately show "no_abort (?rest x)"
      using D(2) no_abort_realloc [OF os n] by (auto intro!: no_aborts)
  qed
qed

lemma no_abort_add_listener:
  assumes "dinv P d V (hp s) (tm s)" "length (v_svcs V) + 2 < 2 ^ 61" "willing os"
  shows "no_abort (dispatcher_add_listener os (Ptr d 0) sd port recv send event s)"
proof (cases rule: listener_cases [of s os "Ptr d 0" sd port recv send event])
  case fails
  then show ?thesis by (auto simp: failed_def intro: no_aborts)
next
  case (listens s1 ai ha hport fd)
  then show ?thesis
    using no_abort_add_service [of P d V s1 os] assms by simp
qed

section \<open>Under callbacks that return\<close>

text \<open>Only the announcement of a new connection may allocate.\<close>

locale returning_handler = handler cbs Q uinv
  for cbs :: "'w callbacks" and Q :: "service \<Rightarrow> bool" and uinv :: user_inv +
  fixes os :: "'w os"
  assumes recv_returns: "no_abort (cb_recv cbs f p u buf s)"
    and event_returns: "ev \<noteq> DISPATCH_NEW_CONNECTION \<or> willing os \<Longrightarrow> no_abort (cb_event cbs f p ev info s)"
begin

lemma no_abort_calls:
  "no_abort (call_recv cbs f p u buf s)"
  "ev \<noteq> DISPATCH_NEW_CONNECTION \<or> willing os \<Longrightarrow> no_abort (call_event cbs f p ev info s)"
  unfolding call_recv_def call_event_def by (intro no_aborts recv_returns event_returns; simp)+

lemma no_abort_remove: "no_abort (connection_remove os cbs d i s)"
  unfolding connection_remove_def Let_def by (intro no_aborts no_abort_calls) simp

lemma no_abort_receive_one: "no_abort (receive_one os cbs d f i s)"
  unfolding receive_one_def Let_def by (intro no_aborts no_abort_remove no_abort_calls)

lemma no_abort_notify: "ev \<noteq> DISPATCH_NEW_CONNECTION \<Longrightarrow> no_abort (notify_timeout cbs ev p s)"
  unfolding notify_timeout_def by (intro no_aborts no_abort_calls) simp

lemma no_abort_inactivity_loop:
  assumes "inactivity_loop os' cbs' d ts s = Some y" "os' = os" "cbs' = cbs"
  shows "\<forall>msg. y \<noteq> Inl (Aborted msg)"
  using assms
proof (induction rule: inactivity_loop.raw_induct [rotated, consumes 1, case_names step])
  case (step loop os' cbs' d ts s y)
  from step(2) show ?case
    unfolding step(3,4)
    by (rule no_abortD) (intro no_aborts no_abort_notify no_abort_remove no_abortI step(1) refl; simp)
qed

lemma no_abort_sleep_loop:
  assumes "sleep_loop cbs' d ev ts s = Some y" "cbs' = cbs" "ev \<noteq> DISPATCH_NEW_CONNECTION"
  shows "\<forall>msg. y \<noteq> Inl (Aborted msg)"
  using assms
proof (induction rule: sleep_loop.raw_induct [rotated, consumes 1, case_names step])
  case (step loop cbs' d ev ts s y)
  from step(2) show ?case
    unfolding step(3)
    by (rule no_abortD) (intro no_aborts no_abort_notify no_abortI step(1) refl; use step(4) in simp)
qed

lemma no_abort_timeouts:
  "no_abort (timeout_inactivity os cbs d secs usecs s)" "no_abort (process_timeouts os cbs d s)"
proof -
  show inact: "no_abort (timeout_inactivity os cbs d secs usecs s)" for secs usecs s
    unfolding timeout_inactivity_def by (rule no_abortI) (rule no_abort_inactivity_loop; simp)
  have sleep: "no_abort (sleep_loop cbs d ev ts s)" if "ev \<noteq> DISPATCH_NEW_CONNECTION" for ev ts s
    by (rule no_abortI) (rule no_abort_sleep_loop [OF _ refl that])
  show "no_abort (process_timeouts os cbs d s)"
    unfolding process_timeouts_def timeout_sleep_def timeout_receive_def Let_def
    by (intro no_aborts inact sleep) simp_all
qed

text \<open>Accepting connections, as long as the list of connections has room for one more of each service.\<close>

lemma no_abort_add:
  assumes D: "dispatcher_ok uinv P d V s" and svc: "svc_ok P (hp s) svc"
    and os: "willing os" and n: "length (v_conns V) + 2 < 2 ^ 61"
  shows "no_abort (connection_add os cbs (Ptr d 0) svc fd pa pp s)"
  unfolding connection_add_def
proof (rule no_abort_obind [OF no_abort_new [OF os]], goal_cases)
  case (1 x)
  have I: "dinv P d V (hp s) (tm s)"
    using D by (simp add: dispatcher_ok_def)
  obtain b c s1 where x: "x = (conn_ptr b, s1)" and F: "fresh_conn P d V s b c s1"
    using safeD_ok [OF connection_new_spec [OF I svc] 1] by auto
  let ?V = "V\<lparr>v_limbo := insert b (v_limbo V)\<rparr>"
  have I1: "dinv P d ?V (hp s1) (tm s1)" and k: "keeps (hp s) (hp s1)"
    using F by (simp_all add: fresh_conn_def)
  obtain s2 r ts where s2: "connection_arm os (Ptr d 0) svc (conn_ptr b) s1 = ok s2"
      "dinv P d (?V\<lparr>v_map := (v_map V)(inact b \<mapsto> (r, ts, OFF_INACTIVITY))\<rparr>) (hp s2) (tm s2)"
    using connection_arm_spec [OF I1 _ svc_ok_mono [OF svc k], of b os] by auto
  show ?case
    unfolding x case_prod_conv s2(1) obind_ok
    by (intro no_aborts no_abort_list [OF s2(2)] no_abort_calls) (use os n in simp_all)
qed

lemma no_abort_accept_one:
  assumes D: "dispatcher_ok uinv P d V s" and fds: "\<forall>v. P v \<longrightarrow> fd_ok (s_fd v)" and i: "i < length (v_svcs V)"
    and os: "willing os" and n: "length (v_conns V) + 2 < 2 ^ 61"
  shows "no_abort (accept_one os cbs (Ptr d 0) f i s)"
proof -
  let ?p = "v_svcs V ! i"
  have I: "dinv P d V (hp s) (tm s)"
    using D by (simp add: dispatcher_ok_def)
  have svc: "svc_ok P (hp s) ?p" and arr: "load_arr (d_services (v_disp V)) i s = ok ?p"
    using dinv_svcs_nth [OF I i] by simp_all
  obtain k v where v: "?p = Ptr k 0" "live (hp s) k = Some (OSvc v)" "P v"
    using svc by (auto simp: svc_ok_def)
  have load: "load_disp (Ptr d 0) s = ok (v_disp V)" "load_svc ?p s = ok v" "fd_ok (s_fd v)"
    using dinvD(2) [OF I] v fds by simp_all
  have host: "\<forall>s1. hp s1 = hp s \<longrightarrow> (\<exists>str. host_text v s1 = ok str)"
    using host_text_ok [of P _ ?p v] svc v by (metis load_svc_ok)
  show ?thesis
  proof (cases rule: accept_one_cases [OF load(1) arr load(2,3) host, where os = os and cbs = cbs and f = f])
    case (1 s1)
    then show ?thesis by (simp add: no_abort_ok)
  next
    case (2 s1 fd pa pp)
    have "no_abort (connection_add os cbs (Ptr d 0) ?p fd pa pp s1)"
      using no_abort_add [OF dispatcher_ok_quiet [OF D 2(2,3)] _ os n] svc 2(2) by simp
    then show ?thesis
      unfolding 2(1) by (intro no_aborts)
  qed
qed

lemma no_abort_accept_loop:
  assumes D: "dispatcher_ok uinv P d V s" and PQ: "P \<le> Q" and lim: "v_limbo V = {}"
    and fds: "\<forall>v. P v \<longrightarrow> fd_ok (s_fd v)" and os: "willing os"
    and n: "length (v_conns V) + length (v_svcs V) + 1 < 2 ^ 61"
  shows "no_abort (for_loop (service_count (Ptr d 0)) (accept_one os cbs (Ptr d 0) f) 0 s)"
proof (rule for_loop_no_abort [where Inv = "\<lambda>i s'. \<exists>V'. dispatcher_ok uinv P d V' s' \<and> same_shape V V' \<and>
    length (v_conns V') \<le> length (v_conns V) + i"], goal_cases)
  case (2 i s' m)
  then obtain V' where V': "dispatcher_ok uinv P d V' s'" "same_shape V V'" "length (v_conns V') \<le> length (v_conns V) + i"
    by blast
  then have lim': "v_limbo V' = {}" and svcs: "v_svcs V' = v_svcs V"
    by (simp_all add: same_shape_def)
  have i: "i < length (v_svcs V')"
    using dispatcher_ok_counts(2) [OF V'(1)] 2(2,3) by simp
  have len: "length (v_conns V') + 2 < 2 ^ 61"
    using V'(3) i svcs n by simp
  note one = accept_one_ok [OF V'(1) PQ lim' fds i, of os f]
  have "\<exists>V'. dispatcher_ok uinv P d V' s2 \<and> same_shape V V' \<and> length (v_conns V') \<le> length (v_conns V) + j"
    if run: "accept_one os cbs (Ptr d 0) f i s' = ok (j, s2)" for j s2
    using safeD_ok [OF one run] same_shape_trans [OF V'(2)] V'(3) by force
  then show ?case
    using no_abort_accept_one [OF V'(1) fds i os len] by blast
qed (use D same_shape_refl [OF lim] in \<open>auto intro: no_aborts\<close>)

lemma shrinks_length: "dispatcher_ok uinv P d V s \<Longrightarrow> dispatcher_ok uinv P d V' s' \<Longrightarrow> shrinks V s V' s' \<Longrightarrow>
    length (v_conns V') \<le> length (v_conns V)"
  unfolding dispatcher_ok_def dinv_def conns_ok_def shrinks_def
  by (metis List.finite_set card_mono distinct_card)

lemma no_abort_events:
  assumes D: "dispatcher_ok uinv P d V s" and PQ: "P \<le> Q" and lim: "v_limbo V = {}"
    and fds: "fds_ok V s" "\<forall>v. P v \<longrightarrow> fd_ok (s_fd v)" and os: "willing os"
    and n: "length (v_conns V) + length (v_svcs V) + 1 < 2 ^ 61"
  shows "no_abort (process_events os cbs (Ptr d 0) f s)"
  unfolding process_events_def
proof (rule no_abort_obind, goal_cases)
  case 1
  show ?case by (intro no_aborts no_abort_receive_one)
next
  case (2 s1)
  obtain V1 where V1: "dispatcher_ok uinv P d V1 s1" and sh: "shrinks V s V1 s1"
    using safeD_ok [OF receive_loop_ok [OF D PQ lim fds(1)] 2] by blast
  have "v_limbo V1 = {}" "v_svcs V1 = v_svcs V" and len: "length (v_conns V1) \<le> length (v_conns V)"
    using shrinks_length [OF D V1 sh] sh by (simp_all add: shrinks_def)
  have report: "safe (\<lambda>s'. hp s' = hp s1 \<and> tm s' = tm s1)
      (for_loop (connection_count (Ptr d 0)) (connection_error_one os (Ptr d 0) f) 0 s1)"
    by (rule connection_report_ok [OF V1 PQ]) (use sh fds_ok_shrinks [OF fds(1) sh] in \<open>simp_all add: shrinks_def\<close>)
  show ?case
  proof (rule no_abort_obind, goal_cases)
    case 1
    show ?case by (intro no_aborts)
  next
    case (2 s2)
    then have "dispatcher_ok uinv P d V1 s2"
      using dispatcher_ok_quiet [OF V1] safeD_ok [OF report] by blast
    then have "no_abort (for_loop (service_count (Ptr d 0)) (accept_one os cbs (Ptr d 0) f) 0 s2)"
      by (rule no_abort_accept_loop [OF _ PQ _ fds(2) os])
        (use len n \<open>v_limbo V1 = {}\<close> \<open>v_svcs V1 = v_svcs V\<close> in simp_all)
    then show ?case by (rule no_abort_seq) (intro no_aborts)
  qed
qed

lemma no_abort_dispatch:
  assumes D: "dispatcher_ok uinv P d V s" and PQ: "P \<le> Q" and lim: "v_limbo V = {}"
    and fds: "\<forall>v. P v \<longrightarrow> fd_ok (s_fd v)" and os: "willing os"
    and n: "length (v_conns V) + length (v_svcs V) + 1 < 2 ^ 61"
  shows "no_abort (dispatcher_dispatch os cbs (Ptr d 0) ms s)"
  unfolding dispatch_unfold
proof (rule no_abort_obind [OF no_abort_build], goal_cases)
  case (1 f0)
  have I: "dinv P d V (hp s) (tm s)"
    using D by (simp add: dispatcher_ok_def)
  then have open_fds: "fds_ok V s"
    using 1 fds_ok_list [OF I fds] by (simp add: build_fdsets_eq split: if_splits)
  obtain err f s1 where sel: "after_select os f0 ms s = (err, f, s1)"
    by (metis prod.exhaust)
  have "dispatcher_ok uinv P d V s1" "fds_ok V s1"
    using dispatcher_ok_quiet [OF D after_select_same [OF sel]] open_fds after_select_same(1) [OF sel]
    by (simp_all add: fds_ok_def)
  then show ?case
    unfolding sel case_prod_conv
    by (intro no_aborts no_abort_events [OF _ PQ lim _ fds os n] no_abort_timeouts)
qed

end

end
