(* ===== verification/Telnet.thy ===== *)
theory Telnet
  imports Dispatch
begin

text \<open>
  \<^verbatim>\<open>main.c\<close>: the telnet service (its receive and event handlers) and the main loop;
  \<^verbatim>\<open>util-ctype.h\<close>: the character classes of the C locale. The function pointers of the service are
  numbered, 1 for \<open>telnet_receive\<close> and 2 for \<open>telnet_event\<close>.
\<close>

section \<open>Character classes\<close>

definition ISSPACE :: "u8 \<Rightarrow> bool" where
  "ISSPACE c \<longleftrightarrow> c = 32 \<or> (9 \<le> c \<and> c \<le> 13)"

definition ISDIGIT :: "u8 \<Rightarrow> bool" where
  "ISDIGIT c \<longleftrightarrow> 48 \<le> c \<and> c \<le> 57"

definition ISXDIGIT :: "u8 \<Rightarrow> bool" where
  "ISXDIGIT c \<longleftrightarrow> ISDIGIT c \<or> (65 \<le> c \<and> c \<le> 70) \<or> (97 \<le> c \<and> c \<le> 102)"

definition ISALNuM :: "u8 \<Rightarrow> bool" where
  "ISALNuM c \<longleftrightarrow> ISDIGIT c \<or> (65 \<le> c \<and> c \<le> 90) \<or> (97 \<le> c \<and> c \<le> 122)"

section \<open>The telnet service\<close>

text \<open>\<open>while (length && ISSPACE(buf[length-1])) length--;\<close>\<close>

fun trim_length :: "u8 list \<Rightarrow> nat \<Rightarrow> nat" where
  "trim_length buf 0 = 0"
| "trim_length buf (Suc n) = (if ISSPACE (buf ! n) then trim_length buf n else Suc n)"

text \<open>\<open>%.*s\<close> prints at most that many characters and stops at a null byte.\<close>

definition printed_data :: "u8 list \<Rightarrow> nat \<Rightarrow> string" where
  "printed_data buf n = map (\<lambda>b. char_of (unat b)) (takeWhile (\<lambda>b. b \<noteq> 0) (take n buf))"

definition load_str_opt :: "ptr option \<Rightarrow> 'w state \<Rightarrow> string outcome" where
  "load_str_opt p s = (case p of None \<Rightarrow> raise Null_deref | Some q \<Rightarrow> load_str q s)"

definition telnet_receive :: "ptr \<Rightarrow> ptr \<Rightarrow> u8 list \<Rightarrow> 'w state \<Rightarrow> 'w state outcome" where
  "telnet_receive conn userdata buf s =
     obind (dispatcher_get_addrs conn True True True True s) (\<lambda>(pa, pp, ha, hport).
     let n = trim_length buf (length buf) in
     obind (load_str_opt pa s) (\<lambda>peeraddr. obind (load_str_opt pp s) (\<lambda>peerport.
     obind (load_str_opt ha s) (\<lambda>hostaddr. obind (load_str_opt hport s) (\<lambda>hostport.
     ok (emit (Out (''    ['' @ peeraddr @ '']:'' @ peerport @ '' -> ['' @ hostaddr @ '']:'' @ hostport @
       '': '' @ printed_data buf n @ newline)) s))))))"

definition info_text :: "new_connection \<Rightarrow> 'w state \<Rightarrow> string outcome" where
  "info_text n s =
     obind (load_str (n_peeraddr n) s) (\<lambda>pa. obind (load_str (n_peerport n) s) (\<lambda>pp.
     obind (load_str (n_hostaddr n) s) (\<lambda>ha. obind (load_str (n_hostport n) s) (\<lambda>hport.
     ok (''[+] ['' @ pa @ '']:'' @ pp @ '' -> ['' @ ha @ '']:'' @ hport)))))"

definition telnet_event ::
  "'w os \<Rightarrow> ptr \<Rightarrow> dispatch_event \<Rightarrow> new_connection option \<Rightarrow> 'w state \<Rightarrow> 'w state outcome" where
  "telnet_event os conn event eventdata s =
     (case event of
        DISPATCH_NEW_CONNECTION \<Rightarrow>
          (case eventdata of None \<Rightarrow> raise Null_deref | Some n \<Rightarrow>
             obind (info_text n s) (\<lambda>txt.
             let s = emit (Out (txt @ '' incoming connection'' @ newline)) s in
             obind (with_heap (CALLOC (os_alloc os) 1 4 (OTelnet \<lparr>data_port = 0\<rparr>)) s) (\<lambda>(p, s).
             upd_conn conn (\<lambda>c. c\<lparr>c_userdata := p\<rparr>) s)))
      | DISPATCH_END_CONNECTION \<Rightarrow>
          (case eventdata of None \<Rightarrow> raise Null_deref | Some n \<Rightarrow>
             obind (info_text n s) (\<lambda>txt.
             let s = emit (Out (txt @ '' closed connection'' @ newline)) s in
             obind (load_conn conn s) (\<lambda>c.
             obind (FREE (c_userdata c) (hp s)) (\<lambda>h. ok (s\<lparr>hp := h\<rparr>)))))
      | DISPATCH_TIMEOUT_INACTIVITY \<Rightarrow> ok (emit (Out (''timeout'' @ newline)) s)
      | _ \<Rightarrow> ok s)"

definition telnet_callbacks :: "'w os \<Rightarrow> 'w callbacks" where
  "telnet_callbacks os =
     \<lparr>cb_recv = (\<lambda>f conn userdata buf s.
        if f = 1 then telnet_receive conn userdata buf s else raise Dangling),
      cb_event = (\<lambda>f conn ev n s.
        if f = 2 then telnet_event os conn ev n s else raise Dangling)\<rparr>"

section \<open>main\<close>

text \<open>
  The local variable \<open>telnet\<close> of \<open>main\<close> is a block of its own. \<open>main_start\<close> is the part before the
  loop; the result of \<open>dispatcher_add_listener\<close> is not tested.
\<close>

definition main_start :: "'w os \<Rightarrow> 'w state \<Rightarrow> (ptr \<times> 'w state) outcome" where
  "main_start os s =
     (let telnet = Ptr (next_block (hp s)) 0;
          s = s\<lparr>hp := (hp s)\<lparr>next_block := Suc (next_block (hp s)),
                live := (live (hp s))(blk telnet \<mapsto> OTelnet \<lparr>data_port = 20\<rparr>)\<rparr>\<rparr> in
      obind (dispatcher_create os s) (\<lambda>(d, s).
      obind (dispatcher_add_listener os d telnet 2323 1 0 2 s) (\<lambda>(err, s). ok (d, s))))"

partial_function (option) main_loop :: "'w os \<Rightarrow> 'w callbacks \<Rightarrow> ptr \<Rightarrow> 'w state \<Rightarrow> 'w state outcome" where
  "main_loop os cbs d s =
     obind (dispatcher_dispatch os cbs d 100 s) (\<lambda>(err, s).
       if err < 0 then ok s else main_loop os cbs d s)"

declare main_loop.simps [code]

definition main_program :: "'w os \<Rightarrow> 'w state \<Rightarrow> 'w state outcome" where
  "main_program os s =
     obind (main_start os s) (\<lambda>(d, s). main_loop os (telnet_callbacks os) d s)"

end
