(* ===== verification/Telnet_Handler.thy ===== *)
theory Telnet_Handler
  imports Dispatch_Returns Telnet
begin

text \<open>
  The telnet service of \<^verbatim>\<open>main.c\<close> keeps the contract \<open>handler\<close>. Its invariant says that every open
  connection owns a \<open>telnet_service\<close> block of its own, which its user data points at: the block is
  allocated when the connection is announced and freed when its end is.
\<close>

section \<open>The application's invariant\<close>

definition telnet_owned :: user_inv where
  "telnet_owned U A \<longleftrightarrow>
     (\<forall>b p. U b = Some p \<longrightarrow> (\<exists>k t. p = Ptr k 0 \<and> A k = Some t)) \<and>
     (\<forall>b b' p. U b = Some p \<longrightarrow> U b' = Some p \<longrightarrow> b = b')"

definition telnet_svc :: "service \<Rightarrow> bool" where
  "telnet_svc v \<longleftrightarrow> s_event v = 2 \<and> (s_recv v = 0 \<or> s_recv v = 1)"

lemma telnet_owned_new:
  assumes "telnet_owned U A" "U b = None" "A k = None"
  shows "telnet_owned (U(b \<mapsto> Ptr k 0)) (A(k \<mapsto> t))"
proof -
  have "p \<noteq> Ptr k 0" if "U b' = Some p" for b' p
    using assms(1,3) that unfolding telnet_owned_def by fastforce
  then show ?thesis
    using assms(1) by (fastforce simp: telnet_owned_def)
qed

lemma telnet_owned_end:
  assumes "telnet_owned U A" "U b = Some (Ptr k 0)"
  shows "telnet_owned (U(b := None)) (A(k := None))"
proof -
  have "p \<noteq> Ptr k 0" if "U b' = Some p" "b' \<noteq> b" for b' p
    using assms that unfolding telnet_owned_def by metis
  then show ?thesis
    using assms(1) by (fastforce simp: telnet_owned_def)
qed

section \<open>The handlers\<close>

lemma conn_svc_strings:
  assumes "conn_svc Q (hp s) b c v"
  obtains pa pp ha hport where "load_str (c_peeraddr c) s = ok pa" "load_str (c_peerport c) s = ok pp"
    "load_str (s_hostaddr v) s = ok ha" "load_str (s_hostport v) s = ok hport"
proof -
  have "str_ok (hp s) (c_peeraddr c)" "str_ok (hp s) (c_peerport c)"
    "str_ok (hp s) (s_hostaddr v)" "str_ok (hp s) (s_hostport v)"
    using assms by (auto simp: conn_svc_def conn_ok_def svc_ok_def)
  then show thesis
    using str_okE that by metis
qed

lemma load_str_emit [simp]: "load_str p (emit a s) = load_str p s"
  unfolding load_str_def load_obj_def emit_simps ..

lemma info_text_ok:
  assumes "conn_svc Q (hp s) b c v"
  shows "\<exists>txt. info_text (connection_info c v) s = ok txt"
proof -
  obtain pa pp ha hport where "load_str (c_peeraddr c) s = ok pa" "load_str (c_peerport c) s = ok pp"
    "load_str (s_hostaddr v) s = ok ha" "load_str (s_hostport v) s = ok hport"
    using conn_svc_strings [OF assms] .
  then show ?thesis by (simp add: info_text_def connection_info_def)
qed

lemma callback_emit [simp]: "callback_ok b s (emit (Out m) s)" "callback_ok b s s"
  by (simp_all add: callback_ok_def delivers_def)

lemma telnet_new_ok:
  assumes wf: "heap_wf (hp s)" and C: "conn_svc Q (hp s) b c v" and U: "telnet_owned U (app (hp s))" "U b = None"
  shows "safe (\<lambda>s'. callback_ok b s s' \<and> telnet_owned (U(b := udata (hp s') b)) (app (hp s')))
    (telnet_event os (conn_ptr b) DISPATCH_NEW_CONNECTION (Some (connection_info c v)) s)"
proof -
  obtain msg where msg: "info_text (connection_info c v) s = ok msg"
    using info_text_ok [OF C] by blast
  have c: "live (hp s) b = Some (OConn c)"
    using C by (simp add: conn_svc_def)
  have "safe (\<lambda>s'. callback_ok b s s' \<and> telnet_owned (U(b := udata (hp s') b)) (app (hp s')))
      (obind (with_heap (CALLOC (os_alloc os) 1 4 (OTelnet \<lparr>data_port = 0\<rparr>)) (emit (Out m) s))
        (\<lambda>(p, s). upd_conn (conn_ptr b) (\<lambda>c. c\<lparr>c_userdata := p\<rparr>) s))" for m
    unfolding safe_obind safe_with_heap
  proof (rule safe_mono [OF um.calloc_spec], goal_cases)
    case (3 x)
    then obtain k h where x: "x = (Ptr k 0, h)" and a: "allocated (hp s) (OTelnet \<lparr>data_port = 0\<rparr>) (Ptr k 0) h"
      by (auto simp: allocated_def)
    have k: "live (hp s) k = None" "live h = (live (hp s))(k \<mapsto> OTelnet \<lparr>data_port = 0\<rparr>)"
      using allocated_fresh [OF a wf] a by (auto simp: allocated_def)
    have ne: "b \<noteq> k" using k(1) c by auto
    let ?h = "h\<lparr>live := (live h)(b \<mapsto> OConn (c\<lparr>c_userdata := Ptr k 0\<rparr>))\<rparr>"
    have "heap_wf ?h"
      using a wf c by (auto simp: allocated_def heap_wf_def split: if_splits)
    moreover have "obj_core (live ?h x) = obj_core (live (hp s) x)" for x
      using k c ne by (auto simp: obj_core_def fun_upd_apply split: option.split obj.split)
    ultimately have "app_frame (hp s) ?h"
      by (simp add: app_frame_def)
    moreover have "udata ?h b' = udata (hp s) b'" if "b' \<noteq> b" for b'
      using that k by (auto simp: udata_def)
    moreover have "app ?h = (app (hp s))(k \<mapsto> \<lparr>data_port = 0\<rparr>)"
      using k c ne by (auto simp: app_def fun_eq_iff)
    moreover have "udata ?h b = Some (Ptr k 0)"
      by (simp add: udata_def)
    moreover have "app (hp s) k = None"
      using k(1) by (simp add: app_def)
    ultimately show ?case
      using telnet_owned_new [OF U, of k "\<lparr>data_port = 0\<rparr>"] c k ne
      by (simp add: x callback_ok_def delivers_def)
  qed simp_all
  then show ?thesis
    by (simp add: telnet_event_def msg Let_def)
qed

lemma telnet_end_ok:
  assumes wf: "heap_wf (hp s)" and C: "conn_svc Q (hp s) b c v" and U: "telnet_owned U (app (hp s))"
    "U b = udata (hp s) b"
  shows "safe (\<lambda>s'. callback_ok b s s' \<and> telnet_owned (U(b := None)) (app (hp s')))
    (telnet_event os (conn_ptr b) DISPATCH_END_CONNECTION (Some (connection_info c v)) s)"
proof -
  obtain msg where msg: "info_text (connection_info c v) s = ok msg"
    using info_text_ok [OF C] by blast
  have c: "live (hp s) b = Some (OConn c)"
    using C by (simp add: conn_svc_def)
  then have "U b = Some (c_userdata c)"
    using U(2) by (simp add: udata_def)
  then obtain k t where k: "c_userdata c = Ptr k 0" "app (hp s) k = Some t" "U b = Some (Ptr k 0)"
    using U(1) unfolding telnet_owned_def by metis
  then have l: "live (hp s) k = Some (OTelnet t)"
    by (auto simp: app_def split: option.splits obj.splits)
  let ?h = "(hp s)\<lparr>live := (live (hp s))(k := None)\<rparr>"
  have "FREE (c_userdata c) (hp s) = ok ?h"
    using k l by (simp add: FREE_def c_free_def)
  moreover have "app_frame (hp s) ?h"
    using l by (auto simp: app_frame_def heap_wf_def obj_core_def)
  moreover have "udata ?h = udata (hp s)"
    using l by (auto simp: udata_def fun_eq_iff)
  moreover have "app ?h = (app (hp s))(k := None)"
    by (auto simp: app_def fun_eq_iff)
  ultimately show ?thesis
    using telnet_owned_end [OF U(1) k(3)] c
    by (simp add: telnet_event_def msg Let_def callback_ok_def delivers_def)
qed

lemma telnet_receive_ok:
  assumes C: "conn_svc Q (hp s) b c v"
  shows "\<exists>m. telnet_receive (conn_ptr b) u buf s = ok (emit (Out m) s)"
proof -
  obtain pa pp ha hport where str: "load_str (c_peeraddr c) s = ok pa" "load_str (c_peerport c) s = ok pp"
    "load_str (s_hostaddr v) s = ok ha" "load_str (s_hostport v) s = ok hport"
    using conn_svc_strings [OF C] .
  have "load_conn (conn_ptr b) s = ok c" "load_svc (c_svc c) s = ok v"
    using C by (auto simp: conn_svc_def)
  then have "telnet_receive (conn_ptr b) u buf s = ok (emit (Out (''    ['' @ pa @ '']:'' @ pp @ '' -> ['' @ ha @ '']:'' @
      hport @ '': '' @ printed_data buf (trim_length buf (length buf)) @ newline)) s)"
    using str by (simp add: telnet_receive_def dispatcher_get_addrs_def load_str_opt_def Let_def)
  then show ?thesis by blast
qed

interpretation telnet: handler "telnet_callbacks os" telnet_svc telnet_owned
  for os :: "'w os"
proof (unfold_locales, goal_cases)
  case (1 v)
  then show ?case by (simp add: telnet_svc_def)
next
  case (2 s b c v U)
  then show ?case
    using telnet_new_ok [OF 2(1-4)] by (simp add: telnet_callbacks_def telnet_svc_def conn_svc_def)
next
  case (3 s b c v U)
  then show ?case
    using telnet_end_ok [OF 3(1-4)] by (simp add: telnet_callbacks_def telnet_svc_def conn_svc_def)
next
  case (4 s b c v U ev)
  have "U(b := udata (hp s) b) = U"
    using 4(4) by auto
  with 4 show ?case
    by (auto simp: telnet_callbacks_def telnet_svc_def conn_svc_def telnet_event_def)
next
  case (5 s b c v U buf)
  obtain m where "telnet_receive (conn_ptr b) (c_userdata c) buf s = ok (emit (Out m) s)"
    using telnet_receive_ok [OF 5(2)] by blast
  moreover have "U(b := udata (hp s) b) = U"
    using 5(4) by auto
  ultimately show ?case
    using 5 by (simp add: telnet_callbacks_def telnet_svc_def conn_svc_def)
qed

text \<open>They return, too: only the announcement of a connection allocates.\<close>

lemma telnet_event_returns:
  assumes "ev \<noteq> DISPATCH_NEW_CONNECTION \<or> willing os"
  shows "no_abort (telnet_event os p ev info s)"
proof (cases ev)
  case DISPATCH_NEW_CONNECTION
  then have "willing os" using assms by simp
  then show ?thesis
    unfolding telnet_event_def DISPATCH_NEW_CONNECTION dispatch_event.case info_text_def Let_def by (intro no_aborts)
next
  case DISPATCH_END_CONNECTION
  then show ?thesis
    unfolding telnet_event_def DISPATCH_END_CONNECTION dispatch_event.case info_text_def Let_def by (intro no_aborts)
qed (simp_all add: telnet_event_def no_abort_ok)

lemma telnet_receive_returns: "no_abort (telnet_receive p u buf s)"
  unfolding telnet_receive_def dispatcher_get_addrs_def load_str_opt_def Let_def by (intro no_aborts)

interpretation telnet: returning_handler "telnet_callbacks os" telnet_svc telnet_owned os
  for os :: "'w os"
proof (unfold_locales, goal_cases)
  case (1 f p u buf s)
  show ?case
    by (simp add: telnet_callbacks_def telnet_receive_returns)
next
  case (2 ev f p info s)
  then show ?case
    by (simp add: telnet_callbacks_def telnet_event_returns)
qed

end
