(* ===== verification/Telnet_Program.thy ===== *)
theory Telnet_Program
  imports Telnet_Handler
begin

text \<open>
  The telnet program as a whole: \<open>main\<close> sets up a dispatcher that satisfies the invariant, and its
  loop keeps the dispatcher idle until the first event ends the program.
\<close>

section \<open>Start-up\<close>

definition idle :: "nat \<Rightarrow> view \<Rightarrow> 'w state \<Rightarrow> bool" where
  "idle d V s \<longleftrightarrow> dispatcher_ok telnet_owned telnet_svc d V s \<and> v_conns V = [] \<and> v_limbo V = {} \<and>
     d_sleep (v_disp V) = Null"

lemma no_users: "v_conns V = [] \<Longrightarrow> telnet_owned (users V h) A"
  by (simp add: telnet_owned_def users_def)

lemma idleI:
  "dinv telnet_svc d V (hp s) (tm s) \<Longrightarrow> v_conns V = [] \<Longrightarrow> v_limbo V = {} \<Longrightarrow> d_sleep (v_disp V) = Null \<Longrightarrow> idle d V s"
  by (simp add: idle_def dispatcher_ok_def no_users)

lemma empty_view_simps [simp]:
  "v_disp (empty_view D) = D" "v_svcs (empty_view D) = []" "v_conns (empty_view D) = []"
  "v_limbo (empty_view D) = {}" "v_map (empty_view D) = Map.empty"
  by (simp_all add: empty_view_def)

lemma pristine_local: "pristine s \<Longrightarrow> pristine (s\<lparr>hp := (hp s)\<lparr>next_block := Suc (next_block (hp s)),
    live := (live (hp s))(next_block (hp s) \<mapsto> OTelnet t)\<rparr>\<rparr>)"
  by (auto simp: pristine_def heap_wf_def less_Suc_eq)

lemma main_start_ok:
  assumes "pristine s"
  shows "safe (\<lambda>(p, s'). \<exists>d V. p = Ptr d 0 \<and> idle d V s' \<and> length (v_svcs V) \<le> 1) (main_start os s)"
proof -
  let ?k = "next_block (hp s)"
  let ?s = "s\<lparr>hp := (hp s)\<lparr>next_block := Suc ?k, live := (live (hp s))(?k \<mapsto> OTelnet \<lparr>data_port = 20\<rparr>)\<rparr>\<rparr>"
  have p: "pristine ?s"
    using pristine_local [OF assms] .
  have add: "safe (\<lambda>(r, s'). \<exists>V. idle d V s' \<and> length (v_svcs V) \<le> 1)
      (dispatcher_add_listener os (Ptr d 0) sd 2323 1 0 2 s1)"
    if I: "dinv telnet_svc d (empty_view D) (hp s1) (tm s1)" and D: "d_sleep D = Null" for d D s1 sd
  proof (rule safe_mono [OF dispatcher_add_listener_ok [OF I]], goal_cases)
    case (1 fd ha hport)
    then show ?case by (simp add: telnet_svc_def)
  next
    case (2 x)
    obtain r s' where x: "x = (r, s')" by (cases x)
    consider "hp s' = hp s1" "tm s' = tm s1"
      | a k where "dinv telnet_svc d (serving a k (empty_view D)) (hp s') (tm s')"
      using 2 unfolding x case_prod_conv by blast
    then show ?case
    proof cases
      case 1
      then have "idle d (empty_view D) s'"
        using I D by (intro idleI) simp_all
      then show ?thesis
        unfolding x case_prod_conv by (intro exI [of _ "empty_view D"]) simp
    next
      case (2 a k)
      then have "idle d (serving a k (empty_view D)) s'"
        using D by (intro idleI) simp_all
      then show ?thesis
        unfolding x case_prod_conv by (intro exI [of _ "serving a k (empty_view D)"]) simp
    qed
  qed
  have "safe (\<lambda>(p, s'). \<exists>d V. p = Ptr d 0 \<and> idle d V s' \<and> length (v_svcs V) \<le> 1)
      (obind (dispatcher_create os ?s) (\<lambda>(d, s).
       obind (dispatcher_add_listener os d sd 2323 1 0 2 s) (\<lambda>(err, s). ok (d, s))))" for sd
    unfolding safe_obind
  proof (rule safe_mono [OF dispatcher_create_ok [OF p, where P = telnet_svc]], goal_cases)
    case prems: (1 x)
    then obtain d D s1 where x: "x = (Ptr d 0, s1)" "dinv telnet_svc d (empty_view D) (hp s1) (tm s1)" "d_sleep D = Null"
      by (cases x) auto
    show ?case
      unfolding x(1) case_prod_conv safe_obind
      by (rule safe_mono [OF add [OF x(2,3)]]) (auto simp: case_prod_unfold)
  qed
  then show ?thesis
    by (simp add: main_start_def Let_def)
qed

lemma main_start_returns:
  assumes "pristine s" "willing os"
  shows "no_abort (main_start os s)"
  unfolding main_start_def Let_def
proof (rule no_abort_obind [OF no_abort_create [OF assms(2)]], goal_cases)
  case (1 x)
  from safeD_ok [OF dispatcher_create_ok [OF pristine_local [OF assms(1)], where P = telnet_svc] 1 [simplified]]
  obtain d D s1 where "x = (Ptr d 0, s1)" "dinv telnet_svc d (empty_view D) (hp s1) (tm s1)"
    by (cases x) auto
  then show ?case
    using assms(2) by (auto intro!: no_abort_seq no_abort_add_listener no_abort_pair no_abort_ok)
qed

section \<open>One call of the dispatcher\<close>

lemma dinv_strengthen:
  assumes "dinv P d V h m" "v_conns V = []" "\<forall>p \<in> set (v_svcs V). svc_ok R h p"
  shows "dinv R d V h m"
  using assms by (simp add: dinv_def arrays_ok_def conns_ok_def)

lemma idle_fds:
  assumes "idle d V s"
  shows "list_all fd_ok (all_fds V (hp s)) \<Longrightarrow> dispatcher_ok telnet_owned (\<lambda>v. telnet_svc v \<and> fd_ok (s_fd v)) d V s"
proof -
  assume fds: "list_all fd_ok (all_fds V (hp s))"
  have I: "dinv telnet_svc d V (hp s) (tm s)" and e: "v_conns V = []"
    using assms by (simp_all add: idle_def dispatcher_ok_def)
  have "svc_ok (\<lambda>v. telnet_svc v \<and> fd_ok (s_fd v)) (hp s) p" if "p \<in> set (v_svcs V)" for p
  proof -
    have "svc_ok telnet_svc (hp s) p" "fd_ok (svc_fd (hp s) p)"
      using dinvD(3) [OF I] fds that by (simp_all add: arrays_ok_def all_fds_def list_all_iff)
    then show ?thesis
      by (auto simp: svc_ok_def svc_fd_def)
  qed
  with dinv_strengthen [OF I e] assms show ?thesis
    by (simp add: idle_def dispatcher_ok_def)
qed

lemma idle_dispatch:
  assumes S: "idle d V s"
  obtains (waits) s' where "dispatcher_dispatch os (telnet_callbacks os) (Ptr d 0) ms s = ok (0, s')" "idle d V s'"
  | (descriptor) "dispatcher_dispatch os (telnet_callbacks os) (Ptr d 0) ms s = raise Out_of_bounds"
      "\<not> list_all fd_ok (all_fds V (hp s))"
  | (null) "dispatcher_dispatch os (telnet_callbacks os) (Ptr d 0) ms s = raise Null_deref"
  | (aborts) msg where "dispatcher_dispatch os (telnet_callbacks os) (Ptr d 0) ms s = raise (Aborted msg)"
proof -
  have I: "dinv telnet_svc d V (hp s) (tm s)" and V: "v_conns V = []" "v_limbo V = {}" "d_sleep (v_disp V) = Null"
    using S by (simp_all add: idle_def dispatcher_ok_def)
  show thesis
  proof (cases "list_all fd_ok (all_fds V (hp s))")
    case False
    then show thesis
      by (intro descriptor) (simp_all add: dispatch_unfold build_fdsets_eq [OF I])
  next
    case True
    note D = idle_fds [OF S True]
    have fds: "fds_ok V s" by (simp add: fds_ok_def V(1))
    obtain err f s1 where sel: "after_select os (with_fds (all_fds V (hp s)) fd_zero) ms s = (err, f, s1)"
      by (metis prod.exhaust)
    show thesis
    proof (cases "err = 0")
      case e: True
      have "dispatcher_dispatch os (telnet_callbacks os) (Ptr d 0) ms s = ok (0, s1)"
        using True e by (simp add: dispatch_unfold build_fdsets_eq [OF I] sel)
      moreover have "idle d V s1"
        using S after_select_same [OF sel] by (simp add: idle_def dispatcher_ok_def)
      ultimately show thesis by (rule waits)
    next
      case False
      have "(\<lambda>v. telnet_svc v \<and> fd_ok (s_fd v)) \<le> telnet_svc" by auto
      from telnet.dispatch_null [OF D this V(2) fds _ V(3) sel False] show thesis
        using null aborts by blast
    qed
  qed
qed

lemma idle_returns:
  assumes S: "idle d V s" and n: "length (v_svcs V) \<le> 1" and os: "willing os"
  shows "no_abort (dispatcher_dispatch os (telnet_callbacks os) (Ptr d 0) ms s)"
proof (cases "list_all fd_ok (all_fds V (hp s))")
  case True
  show ?thesis
    by (rule telnet.no_abort_dispatch [OF idle_fds [OF S True] _ _ _ os])
      (use S n in \<open>auto simp: idle_def\<close>)
next
  case False
  have "dinv telnet_svc d V (hp s) (tm s)"
    using S by (simp add: idle_def dispatcher_ok_def)
  with False show ?thesis
    by (simp add: dispatch_unfold build_fdsets_eq)
qed

section \<open>The main loop\<close>

lemma main_loop_faults:
  assumes "main_loop os cbs p s = Some y" "cbs = telnet_callbacks os" "p = Ptr d 0" "idle d V s"
  shows "y = Inl Null_deref \<or> y = Inl Out_of_bounds \<or> (\<exists>msg. y = Inl (Aborted msg))"
  using assms
proof (induction rule: main_loop.raw_induct [rotated, consumes 1, case_names step])
  case (step loop os cbs p s y)
  show ?case
  proof (cases rule: idle_dispatch [OF step(5), of os 100])
    case (1 s')
    then have "loop os cbs p s' = Some y"
      using step(2-4) by simp
    from step(1) [OF this step(3,4) 1(2)] show ?thesis .
  qed (use step(2-4) in \<open>auto simp: raise_def obind_def\<close>)
qed

lemma main_loop_returns:
  assumes "main_loop os cbs p s = Some y" "cbs = telnet_callbacks os" "p = Ptr d 0" "idle d V s" "length (v_svcs V) \<le> 1"
    "willing os"
  shows "\<forall>msg. y \<noteq> Inl (Aborted msg)"
  using assms
proof (induction rule: main_loop.raw_induct [rotated, consumes 1, case_names step])
  case (step loop os cbs p s y)
  note na = idle_returns [OF step(5-7), of 100]
  show ?case
  proof (cases rule: idle_dispatch [OF step(5), of os 100])
    case (1 s')
    then have "loop os cbs p s' = Some y"
      using step(2-4) by simp
    from step(1) [OF this step(3,4) 1(2) step(6,7)] show ?thesis .
  next
    case (4 msg)
    then show ?thesis using na by simp
  qed (use step(2-4) in \<open>auto simp: raise_def obind_def\<close>)
qed

lemma main_loop_no_exit: "main_loop os cbs d s \<noteq> ok s'"
proof
  assume "main_loop os cbs d s = ok s'"
  then have "main_loop os cbs d s = Some (Inr s')" by (simp add: ok_def)
  then have "\<exists>f. Inr s' = (Inl f :: fault + 'a state)"
  proof (induction rule: main_loop.raw_induct [rotated, consumes 1, case_names step])
    case (step loop os cbs d s y)
    show ?case
    proof (cases "dispatcher_dispatch os cbs d 100 s")
      case None
      then show ?thesis using step(2) by simp
    next
      case (Some r)
      show ?thesis
      proof (cases r)
        case (Inl f)
        then show ?thesis using step(2) Some by (auto simp: obind_def)
      next
        case (Inr x)
        obtain e s1 where x: "x = (e, s1)" by (cases x)
        have "\<not> e < 0"
          using dispatch_result [of os cbs d 100 s e s1] Some Inr x by (auto simp: ok_def)
        then show ?thesis
          using step(1) step(2) Some Inr x by (simp add: obind_def)
      qed
    qed
  qed
  then show False by simp
qed

end
