(* ===== verification/Dispatch_Demo.thy ===== *)
theory Dispatch_Demo
  imports Telnet_Program
begin

text \<open>
  A concrete dispatcher that the witnesses use: one telnet service in block 5 (descriptor 6), one
  connection in block 2 (descriptor 7) with its user data in block 9, an inactivity ring in block 4
  and, when \<open>q\<close> says so, a sleep ring in block 8; and an operating system in which nothing happens.
\<close>

definition site_disp :: "ptr \<Rightarrow> dispatcher" where
  "site_disp q = \<lparr>d_services = Ptr 6 0, d_service_count = 1, d_connections = Ptr 7 0, d_connection_count = 1,
     d_inactivity = Ptr 4 0, d_sleep = q, d_receive = Null\<rparr>"

definition site_svc :: service where
  "site_svc = \<lparr>s_fd = 6, s_recv = 1, s_send = 0, s_event = 2, s_cfg_timeout_inactivity = 5,
     s_userdata = Null, s_hostaddr = Ptr 3 0, s_hostport = Ptr 3 0\<rparr>"

definition site_conn :: connection where
  "site_conn = \<lparr>c_index = 0, c_fd = 7, c_userdata = Ptr 9 0, c_svc = Ptr 5 0, c_send_buf = Null,
     c_send_length = 0, c_peeraddr = Ptr 3 0, c_peerport = Ptr 3 0\<rparr>"

definition site_heap :: "ptr \<Rightarrow> obj heap" where
  "site_heap q = \<lparr>next_block = 10, live = [1 \<mapsto> ODisp (site_disp q), 2 \<mapsto> OConn site_conn, 3 \<mapsto> OStr ''h'',
     4 \<mapsto> ORing, 5 \<mapsto> OSvc site_svc, 6 \<mapsto> OArr [Ptr 5 0], 7 \<mapsto> OArr [conn_ptr 2], 8 \<mapsto> ORing,
     9 \<mapsto> OTelnet \<lparr>data_port = 0\<rparr>]\<rparr>"

definition site_ring :: Timeouts where
  "site_ring = \<lparr>current_index = 3, mask = MASK, slots = (\<lambda>_. Null)\<rparr>"

definition site_mem :: tmem where
  "site_mem = \<lparr>ents = (\<lambda>e. if e \<in> set (entry_ptrs (conn_ptr 2)) then Some zero_entry else None),
     rings = [4 \<mapsto> site_ring, 8 \<mapsto> site_ring], tm_err = []\<rparr>"

definition site :: "ptr \<Rightarrow> tmem \<Rightarrow> unit state" where
  "site q m = \<lparr>hp = site_heap q, tm = m, world = (), trace = []\<rparr>"

definition site_view :: "ptr \<Rightarrow> timer_map \<Rightarrow> view" where
  "site_view q A = \<lparr>v_disp = site_disp q, v_svcs = [Ptr 5 0], v_conns = [2], v_limbo = {}, v_map = A\<rparr>"

definition quiet_os :: "unit os" where
  "quiet_os = \<lparr>os_alloc = \<lparr>refuses = (\<lambda>_ _. False), realloc0_frees = True\<rparr>, os_time = (\<lambda>w. (0, w)),
     os_select = (\<lambda>n r wr e t w. ((0, r, wr, e), w)), os_sleep = (\<lambda>t w. w), os_recv = (\<lambda>fd n w. (None, w)),
     os_so_error = (\<lambda>fd w. (None, w)), os_accept = (\<lambda>fd w. ((-1, 0), w)),
     os_getnameinfo = (\<lambda>a w. ((1, [], []), w)),
     os_getaddrinfo = (\<lambda>p w. ((1, \<lparr>ai_family = 0, ai_addr = 0\<rparr>), w)), os_socket = (\<lambda>f w. (-1, w)),
     os_fcntl_getfl = (\<lambda>fd w. (0, w)), os_fcntl_setfl = (\<lambda>fd f w. (0, w)), os_reuseaddr = (\<lambda>fd w. (0, w)),
     os_reuseport = (\<lambda>fd w. (0, w)), os_bind = (\<lambda>fd a w. (0, w)), os_listen = (\<lambda>fd n w. (0, w)),
     os_close = (\<lambda>fd w. w), os_errno = (\<lambda>w. 0), strerror = (\<lambda>e. []), gai_strerror = (\<lambda>e. [])\<rparr>"

text \<open>The same system with a \<open>select\<close> that fails.\<close>

definition failing_os :: "unit os" where
  "failing_os = quiet_os\<lparr>os_select := (\<lambda>n r wr e t w. ((-1, r, wr, e), w))\<rparr>"

text \<open>One in which an address is found and every step of opening a socket succeeds.\<close>

definition listening_os :: "unit os" where
  "listening_os = quiet_os\<lparr>os_getaddrinfo := (\<lambda>p w. ((0, \<lparr>ai_family = 2, ai_addr = 1\<rparr>), w)),
     os_getnameinfo := (\<lambda>a w. ((0, ''0.0.0.0'', ''2323''), w)), os_socket := (\<lambda>f w. (3, w))\<rparr>"

text \<open>And one in which every \<open>recv\<close> gives the same answer.\<close>

definition answering_os :: "u8 list option \<Rightarrow> unit os" where
  "answering_os r = quiet_os\<lparr>os_recv := (\<lambda>fd n w. (r, w))\<rparr>"

lemma demo_willing [simp]: "willing quiet_os" "willing failing_os" "willing (answering_os r)" "willing listening_os"
  by (simp_all add: willing_allocator_def quiet_os_def failing_os_def answering_os_def listening_os_def)

definition site_ok_svc :: "service \<Rightarrow> bool" where
  "site_ok_svc v \<longleftrightarrow> telnet_svc v \<and> fd_ok (s_fd v) \<and> s_recv v = 1"

lemma site_ok_svcD: "site_ok_svc v \<Longrightarrow> fd_ok (s_fd v)" "site_ok_svc v \<Longrightarrow> s_recv v = 1"
  by (simp_all add: site_ok_svc_def)

lemma site_simps [simp]:
  "hp (site q m) = site_heap q" "tm (site q m) = m" "world (site q m) = ()" "trace (site q m) = []"
  "v_disp (site_view q A) = site_disp q" "v_svcs (site_view q A) = [Ptr 5 0]" "v_conns (site_view q A) = [2]"
  "v_limbo (site_view q A) = {}" "v_map (site_view q A) = A" "d_sleep (site_disp q) = q"
  "d_inactivity (site_disp q) = Ptr 4 0" "cfd (site_heap q) 2 = Some 7"
  by (simp_all add: site_def site_view_def site_disp_def site_heap_def cfd_def site_conn_def)

lemma site_live [simp]:
  "live (site_heap q) 1 = Some (ODisp (site_disp q))" "live (site_heap q) 2 = Some (OConn site_conn)"
  "live (site_heap q) 5 = Some (OSvc site_svc)" "live (site_heap q) 3 = Some (OStr ''h'')"
  "live (site_heap q) 6 = Some (OArr [Ptr 5 0])" "live (site_heap q) 7 = Some (OArr [conn_ptr 2])"
  by (simp_all add: site_heap_def)

lemma site_timers: "timers site_mem Map.empty"
  unfolding timers_def
proof (intro conjI exI)
  show "wheel site_mem Map.empty (\<lambda>_ _. [])"
    by (rule wheelI) (auto simp: site_mem_def site_ring_def zero_entry_def split: if_splits)
qed simp

lemma site_timer_inv:
  assumes "q = Null \<or> q = Ptr 8 0"
  shows "timer_inv (site_disp q) Map.empty {2} site_mem"
proof (rule timer_invI [OF site_timers, of _ 4])
  show "d_sleep (site_disp q) = Null \<or> (\<exists>r. d_sleep (site_disp q) = Ptr r 0 \<and> rings site_mem r \<noteq> None \<and>
      d_sleep (site_disp q) \<noteq> d_inactivity (site_disp q))"
    using assms by (elim disjE) (simp_all add: site_mem_def)
qed (auto simp: site_mem_def)

lemma site_str [simp]: "str_ok (site_heap q) (Ptr 3 0)"
  by (simp add: str_ok_def)

lemma site_svc_ok [simp]: "svc_ok site_ok_svc (site_heap q) (Ptr 5 0)"
  by (simp add: svc_ok_def) (simp add: site_svc_def site_ok_svc_def telnet_svc_def fd_ok_def FD_SETSIZE_def)

lemma site_conn_ok [simp]: "conn_ok site_ok_svc (site_heap q) site_conn"
  by (simp add: conn_ok_def site_conn_def)

lemma site_dinv:
  assumes "timer_inv (site_disp q) A {2} m"
  shows "dinv site_ok_svc 1 (site_view q A) (site_heap q) m"
proof -
  have wf: "heap_wf (site_heap q)"
    by (simp add: heap_wf_def site_heap_def)
  have "arrays_ok site_ok_svc (site_view q A) (site_heap q)"
    by (simp add: arrays_ok_def) (simp add: arr_ok_def site_disp_def)
  moreover have "(\<exists>c. live (site_heap q) b = Some (OConn c)) \<longleftrightarrow> b = 2" for b
    by (simp add: site_heap_def)
  then have "conns_ok site_ok_svc (site_view q A) (site_heap q)"
    by (simp add: conns_ok_def) (simp add: site_conn_def)
  ultimately show ?thesis
    using wf assms site_live(1) by (simp add: dinv_def del: One_nat_def)
qed

lemma site_owned: "telnet_owned (users (site_view q A) (site_heap q)) (app (site_heap q))"
  by (auto simp: telnet_owned_def users_def udata_def site_conn_def app_def site_heap_def split: if_splits)

lemma site_ok:
  assumes "timer_inv (site_disp q) A {2} m"
  shows "dispatcher_ok telnet_owned site_ok_svc 1 (site_view q A) (site q m)"
  using site_dinv [OF assms] site_owned by (simp add: dispatcher_ok_def)

lemma site_le: "site_ok_svc \<le> telnet_svc"
  by (auto simp: site_ok_svc_def)

lemma site_fds: "fds_ok (site_view q A) (site q m)"
  by (simp add: fds_ok_def fd_ok_def FD_SETSIZE_def)

lemma site_build:
  assumes "q = Null \<or> q = Ptr 8 0"
  shows "build_fdsets (Ptr 1 0) (site q site_mem) = ok (with_fds [6, 7] fd_zero)"
proof -
  have "all_fds (site_view q Map.empty) (site_heap q) = [6, 7]"
    by (simp add: all_fds_def svc_fd_def) (simp add: site_svc_def)
  moreover have "dinv site_ok_svc 1 (site_view q Map.empty) (hp (site q site_mem)) (tm (site q site_mem))"
    using site_dinv [OF site_timer_inv [OF assms]] by simp
  ultimately show ?thesis
    using build_fdsets_eq [of site_ok_svc 1 "site_view q Map.empty" "site q site_mem"]
    by (simp add: fd_ok_def FD_SETSIZE_def del: One_nat_def)
qed

text \<open>The same site with its connection armed for tick 7.\<close>

lemma site_armed:
  assumes "q = Null \<or> q = Ptr 8 0"
  obtains m where "timer_inv (site_disp q) [inact 2 \<mapsto> (4, 7, OFF_INACTIVITY)] {2} m"
    "timely m [inact 2 \<mapsto> (4, 7, OFF_INACTIVITY)]"
proof -
  obtain m where m: "timer_inv (site_disp q) [inact 2 \<mapsto> (4, 7, OFF_INACTIVITY)] {2} m" "same_rings site_mem m"
    using timer_inv_arm [OF site_timer_inv [OF assms], of 2 4 7] by auto
  have "current_index R = 3" if "rings m 4 = Some R" for R
    using same_rings_Some [OF same_rings_sym [OF m(2)] that] by (auto simp: site_mem_def site_ring_def)
  then have "timely m [inact 2 \<mapsto> (4, 7, OFF_INACTIVITY)]"
    by (auto simp: timely_def)
  with m(1) show thesis by (rule that)
qed

lemma listening_succeeds:
  "0 \<le> port \<Longrightarrow> port \<le> 65535 \<Longrightarrow> dispatcher_add_listener listening_os d sd port recv send event s = ok (r, s') \<Longrightarrow> r = 0"
  by (auto simp: dispatcher_add_listener_def sys_def socket_set_nonblocking_def listening_os_def quiet_os_def
      add_service_def obind_eq_ok Let_def)

section \<open>A program start\<close>

definition blank :: "unit state" where
  "blank = \<lparr>hp = empty_heap, tm = \<lparr>ents = Map.empty, rings = Map.empty, tm_err = []\<rparr>, world = (), trace = []\<rparr>"

lemma blank_pristine: "pristine blank"
proof -
  have "timers \<lparr>ents = Map.empty, rings = Map.empty, tm_err = []\<rparr> Map.empty"
    unfolding timers_def
  proof (intro conjI exI)
    show "wheel \<lparr>ents = Map.empty, rings = Map.empty, tm_err = []\<rparr> Map.empty (\<lambda>_ _. [])"
      by (rule wheelI) auto
  qed simp
  then show ?thesis
    by (simp add: pristine_def blank_def empty_heap_def heap_wf_def)
qed

end
