(* ===== verification/Dispatch_Props.thy ===== *)
theory Dispatch_Props
  imports Dispatch_Demo
begin

text \<open>
  The properties of the dispatcher and of the telnet program. They are stated for the telnet service
  and for every operating system; \<open>P\<close> is any property of services that implies \<open>telnet_svc\<close>.
\<close>

section \<open>Life of a connection\<close>

text \<open>C3: \<open>connection_remove\<close> takes connection number \<open>i\<close> out of the list by moving the last one into its
  place, disarms its timer, closes its descriptor last of all (when it is positive), and changes
  neither the descriptors nor the deadlines of the others; the invariant of the dispatcher and of
  the application holds again. It always returns. The connection is released, but no string is: its
  \<open>peeraddr\<close> and \<open>peerport\<close> stay allocated.\<close>
theorem connection_remove_correct:
  assumes "dispatcher_ok telnet_owned P d V s" "i < length (v_conns V)" "P \<le> telnet_svc"
  shows "\<exists>s'. connection_remove os (telnet_callbacks os) (Ptr d 0) i s = ok s' \<and>
      dispatcher_ok telnet_owned P d (removed i V) s' \<and>
      v_conns (removed i V) = swap_remove i (v_conns V) \<and>
      v_map (removed i V) = (v_map V)(inact (v_conns V ! i) := None) \<and>
      (\<forall>b \<in> set (v_conns V) - {v_conns V ! i}. cfd (hp s') b = cfd (hp s) b) \<and>
      (\<forall>fd > 0. cfd (hp s) (v_conns V ! i) = Some fd \<longrightarrow> last (trace s') = Close fd) \<and>
      cfd (hp s') (v_conns V ! i) = None \<and>
      (\<forall>b str. live (hp s) b = Some (OStr str) \<longrightarrow> live (hp s') b = Some (OStr str))"
proof -
  obtain s' where run: "connection_remove os (telnet_callbacks os) (Ptr d 0) i s = ok s'"
    and D': "dispatcher_ok telnet_owned P d (removed i V) s'" and k: "keeps (hp s) (hp s')"
    and rest: "\<forall>x. x \<noteq> v_conns V ! i \<longrightarrow> x \<in> set (v_conns V) \<longrightarrow> cfd (hp s') x = cfd (hp s) x"
    "\<forall>fd. cfd (hp s) (v_conns V ! i) = Some fd \<longrightarrow> 0 < fd \<longrightarrow> last (trace s') = Close fd"
    using safe_returns [OF telnet.remove_ok [OF assms(1,2,3)] telnet.no_abort_remove] by blast
  moreover have "cfd (hp s') (v_conns V ! i) = None"
  proof -
    have "distinct (v_conns V)"
      using assms(1) by (simp add: dispatcher_ok_def dinv_def conns_ok_def)
    then have "v_conns V ! i \<notin> set (v_conns (removed i V)) \<union> v_limbo (removed i V)"
      using set_swap_remove(1) [OF _ assms(2)] by simp
    then show ?thesis
      using dinv_conn_iff [of P d "removed i V" "hp s'" "tm s'" "v_conns V ! i"] D'
      by (auto simp: dispatcher_ok_def cfd_def split: option.split obj.split)
  qed
  ultimately show ?thesis
    using k by (simp add: keeps_def)
qed

lemma connection_remove_correct_witness:
  "\<exists>s' V. connection_remove quiet_os (telnet_callbacks quiet_os) (Ptr 1 0) 0 (site Null site_mem) = ok s' \<and>
    dispatcher_ok telnet_owned site_ok_svc 1 V s' \<and> v_conns V = [] \<and> last (trace s') = Close 7"
proof -
  have D: "dispatcher_ok telnet_owned site_ok_svc 1 (site_view Null Map.empty) (site Null site_mem)"
    by (rule site_ok, rule site_timer_inv) simp
  from connection_remove_correct [OF D _ site_le, of 0 quiet_os] obtain s' where
    "connection_remove quiet_os (telnet_callbacks quiet_os) (Ptr 1 0) 0 (site Null site_mem) = ok s'"
    "dispatcher_ok telnet_owned site_ok_svc 1 (removed 0 (site_view Null Map.empty)) s'" "last (trace s') = Close 7"
    by auto
  then show ?thesis
    by (intro exI [of _ s'] exI [of _ "removed 0 (site_view Null Map.empty)"]) (simp add: swap_remove_def)
qed

text \<open>C4: \<open>connection_add\<close> appends a new connection to the list with the given descriptor, arms its
  inactivity timer in the dispatcher's ring, announces it, and leaves the descriptors of the other
  connections as they are; the invariant of the dispatcher and of the application holds again. It returns,
  unless the allocator refuses a request or the list fills the address space.\<close>
theorem connection_add_correct:
  assumes "dispatcher_ok telnet_owned P d V s" "svc_ok P (hp s) svc" "P \<le> telnet_svc"
  shows "safe (\<lambda>(p, s'). \<exists>b V' r ts. p = Ptr b 0 \<and> b \<notin> set (v_conns V) \<and>
      dispatcher_ok telnet_owned P d V' s' \<and> v_conns V' = v_conns V @ [b] \<and> v_svcs V' = v_svcs V \<and>
      d_inactivity (v_disp V) = Ptr r 0 \<and> v_map V' = (v_map V)(inact b \<mapsto> (r, ts, OFF_INACTIVITY)) \<and>
      cfd (hp s') b = Some fd \<and> (\<forall>x \<in> set (v_conns V). cfd (hp s') x = cfd (hp s) x))
    (connection_add os (telnet_callbacks os) (Ptr d 0) svc fd peeraddr peerport s) \<and>
    (willing os \<and> length (v_conns V) + 2 < 2 ^ 61 \<longrightarrow>
      (\<exists>p s'. connection_add os (telnet_callbacks os) (Ptr d 0) svc fd peeraddr peerport s = ok (p, s')))"
proof (intro conjI impI)
  show safe: "safe (\<lambda>(p, s'). \<exists>b V' r ts. p = Ptr b 0 \<and> b \<notin> set (v_conns V) \<and>
      dispatcher_ok telnet_owned P d V' s' \<and> v_conns V' = v_conns V @ [b] \<and> v_svcs V' = v_svcs V \<and>
      d_inactivity (v_disp V) = Ptr r 0 \<and> v_map V' = (v_map V)(inact b \<mapsto> (r, ts, OFF_INACTIVITY)) \<and>
      cfd (hp s') b = Some fd \<and> (\<forall>x \<in> set (v_conns V). cfd (hp s') x = cfd (hp s) x))
    (connection_add os (telnet_callbacks os) (Ptr d 0) svc fd peeraddr peerport s)"
  proof (rule safe_mono [OF telnet.add_ok [OF assms(1,2,3)]], unfold case_prod_unfold, elim exE conjE, goal_cases)
    case (1 x b q r ts)
    then show ?case
      by (intro exI [of _ b] exI [of _ "added b q r ts V"] exI [of _ r] exI [of _ ts]) simp
  qed
  show "\<exists>p s'. connection_add os (telnet_callbacks os) (Ptr d 0) svc fd peeraddr peerport s = ok (p, s')"
    if "willing os \<and> length (v_conns V) + 2 < 2 ^ 61"
    using safe_returns [OF safe telnet.no_abort_add [OF assms(1,2)]] that by auto
qed

lemma connection_add_correct_witness:
  "\<exists>b s'. connection_add quiet_os (telnet_callbacks quiet_os) (Ptr 1 0) (Ptr 5 0) 8 ''a'' ''b'' (site Null site_mem) =
      ok (Ptr b 0, s') \<and> b \<noteq> 2 \<and> cfd (hp s') b = Some 8 \<and> cfd (hp s') 2 = Some 7"
proof -
  have D: "dispatcher_ok telnet_owned site_ok_svc 1 (site_view Null Map.empty) (site Null site_mem)"
    by (rule site_ok, rule site_timer_inv) simp
  have "svc_ok site_ok_svc (hp (site Null site_mem)) (Ptr 5 0)" by simp
  from connection_add_correct [OF D this site_le, where os = quiet_os and fd = 8 and peeraddr = "''a''" and peerport = "''b''"]
  show ?thesis
    by (auto elim!: safe_cases)
qed





section \<open>Setting up\<close>

text \<open>\<open>dispatcher_create\<close> establishes the invariant: an inactivity ring, no services and no
  connections. The sleep and receive rings are not created.\<close>
lemma dispatcher_create_establishes:
  assumes "pristine s"
  shows "safe (\<lambda>(p, s'). \<exists>d D. p = Ptr d 0 \<and> dinv P d (empty_view D) (hp s') (tm s') \<and>
      d_sleep D = Null \<and> d_receive D = Null \<and> trace s' = trace s)
    (dispatcher_create os s)"
  by (rule safe_mono [OF dispatcher_create_ok [OF assms, where P = P]]) auto

text \<open>C16: \<open>dispatcher_add_listener\<close> returns -1 or 0, or the allocator has refused a request. If -1, nothing
  has changed in the heap, and every socket opened has been closed and every address list freed. If 0,
  the port is in range, one service with the socket is appended, and the address list has not been freed.\<close>
theorem add_listener_correct:
  assumes "dinv P d V (hp s) (tm s)"
    and "\<forall>fd ha hport. fd \<noteq> -1 \<longrightarrow> P \<lparr>s_fd = fd, s_recv = recv, s_send = send, s_event = event,
      s_cfg_timeout_inactivity = 5, s_userdata = sd, s_hostaddr = ha, s_hostport = hport\<rparr>"
  shows "safe (\<lambda>(r, s').
      (r = -1 \<and> hp s' = hp s \<and> tm s' = tm s \<and> (\<exists>tr. trace s' = trace s @ tr \<and> balanced tr)) \<or>
      (r = 0 \<and> 0 \<le> port \<and> port \<le> 65535 \<and> (\<exists>V' k ai fd msg. dinv P d V' (hp s') (tm s') \<and>
         v_svcs V' = v_svcs V @ [Ptr k 0] \<and> v_conns V' = v_conns V \<and> svc_fd (hp s') (Ptr k 0) = fd \<and>
         trace s' = trace s @ [Getaddrinfo ai, Socket fd, Err msg])))
    (dispatcher_add_listener os (Ptr d 0) sd port recv send event s) \<and>
    (willing os \<and> length (v_svcs V) + 2 < 2 ^ 61 \<longrightarrow>
      no_abort (dispatcher_add_listener os (Ptr d 0) sd port recv send event s))"
proof (intro conjI impI)
  show "no_abort (dispatcher_add_listener os (Ptr d 0) sd port recv send event s)"
    if "willing os \<and> length (v_svcs V) + 2 < 2 ^ 61"
    using no_abort_add_listener [OF assms(1)] that by blast
  show "safe (\<lambda>(r, s').
      (r = -1 \<and> hp s' = hp s \<and> tm s' = tm s \<and> (\<exists>tr. trace s' = trace s @ tr \<and> balanced tr)) \<or>
      (r = 0 \<and> 0 \<le> port \<and> port \<le> 65535 \<and> (\<exists>V' k ai fd msg. dinv P d V' (hp s') (tm s') \<and>
         v_svcs V' = v_svcs V @ [Ptr k 0] \<and> v_conns V' = v_conns V \<and> svc_fd (hp s') (Ptr k 0) = fd \<and>
         trace s' = trace s @ [Getaddrinfo ai, Socket fd, Err msg])))
    (dispatcher_add_listener os (Ptr d 0) sd port recv send event s)"
  proof (rule safe_mono [OF dispatcher_add_listener_ok [OF assms(1)]], goal_cases)
    case (1 fd ha hport)
    then show ?case using assms(2) by simp
  next
    case (2 x)
    obtain r s' where x: "x = (r, s')" by (cases x)
    from 2 show ?case
      unfolding x case_prod_conv
    proof (elim disjE conjE exE, goal_cases)
      case (2 a k ai fd msg)
      have "v_svcs (serving a k V) = v_svcs V @ [Ptr k 0]" "v_conns (serving a k V) = v_conns V" by simp_all
      with 2 show ?case by blast
    qed blast
  qed
qed

lemma add_listener_correct_witness:
  "\<exists>s' V' k. dispatcher_add_listener listening_os (Ptr 1 0) Null 2323 1 0 2 (site Null site_mem) = ok (0, s') \<and>
    dinv telnet_svc 1 V' (hp s') (tm s') \<and> v_svcs V' = [Ptr 5 0, Ptr k 0]"
proof -
  let ?r = "dispatcher_add_listener listening_os (Ptr 1 0) Null 2323 1 0 2 (site Null site_mem)"
  have I: "dinv telnet_svc 1 (site_view Null Map.empty) (hp (site Null site_mem)) (tm (site Null site_mem))"
    using dinv_weaken [OF site_dinv [OF site_timer_inv] site_le, of Null] by simp
  have "\<forall>fd ha hport. fd \<noteq> -1 \<longrightarrow> telnet_svc \<lparr>s_fd = fd, s_recv = 1, s_send = 0, s_event = 2,
      s_cfg_timeout_inactivity = 5, s_userdata = Null, s_hostaddr = ha, s_hostport = hport\<rparr>"
    by (simp add: telnet_svc_def)
  note spec = add_listener_correct [OF I this, where os = listening_os and port = 2323]
  have "?r \<noteq> ok (-1, s')" for s'
    using listening_succeeds [of 2323] by force
  then show ?thesis
    using safe_returns [OF conjunct1 [OF spec] conjunct2 [OF spec, THEN mp]] by fastforce
qed

section \<open>Waiting for events\<close>

text \<open>C18: The descriptor sets hold exactly the descriptors of the services and of the connections,
  and \<open>nfds\<close> is one more than the largest of them; a descriptor that is negative or not below
  \<open>FD_SETSIZE\<close> is written outside the sets.\<close>
theorem build_fdsets_exact:
  assumes "dinv P d V (hp s) (tm s)"
  shows "build_fdsets (Ptr d 0) s =
    (let fds = map (svc_fd (hp s)) (v_svcs V) @ map (\<lambda>b. the (cfd (hp s) b)) (v_conns V) in
     if \<forall>fd \<in> set fds. 0 \<le> fd \<and> fd < 1024
     then ok \<lparr>nfds = fold (\<lambda>fd n. max n (fd + 1)) fds 0, readset = set fds, writeset = set fds, errset = set fds\<rparr>
     else raise Out_of_bounds)"
  using build_fdsets_eq [OF assms]
  by (simp add: all_fds_def with_fds_def fd_zero_def list_all_iff fd_ok_def FD_SETSIZE_def Let_def)

lemma build_fdsets_exact_witness:
  "build_fdsets (Ptr 1 0) (site Null site_mem) = ok \<lparr>nfds = 8, readset = {6, 7}, writeset = {6, 7}, errset = {6, 7}\<rparr>"
proof -
  have "dinv site_ok_svc 1 (site_view Null Map.empty) (hp (site Null site_mem)) (tm (site Null site_mem))"
    using site_dinv [OF site_timer_inv, of Null] by simp
  from build_fdsets_exact [OF this] show ?thesis
    by (simp add: svc_fd_def site_svc_def)
qed



text \<open>C17: Without a sleep ring, which is what \<open>dispatcher_create\<close> leaves, a call of the dispatcher in
  which \<open>select\<close> does not return 0 never returns: it ends in a null dereference, or in \<open>abort()\<close> when the
  allocator refuses a request.\<close>
theorem dispatch_without_sleep_ring:
  assumes "dispatcher_ok telnet_owned P d V s" "P \<le> telnet_svc" "v_limbo V = {}"
    and "fds_ok V s" "\<forall>v. P v \<longrightarrow> fd_ok (s_fd v)" "d_sleep (v_disp V) = Null"
    and "build_fdsets (Ptr d 0) s = ok f" "fst (fst (do_select os f ms s)) \<noteq> 0"
  shows "(dispatcher_dispatch os (telnet_callbacks os) (Ptr d 0) ms s = raise Null_deref \<or>
      (\<exists>msg. dispatcher_dispatch os (telnet_callbacks os) (Ptr d 0) ms s = raise (Aborted msg))) \<and>
    (willing os \<and> length (v_conns V) + length (v_svcs V) + 1 < 2 ^ 61 \<longrightarrow>
      dispatcher_dispatch os (telnet_callbacks os) (Ptr d 0) ms s = raise Null_deref)"
proof -
  have "dinv P d V (hp s) (tm s)" using assms(1) by (simp add: dispatcher_ok_def)
  then have f: "f = with_fds (all_fds V (hp s)) fd_zero"
    using assms(7) by (simp add: build_fdsets_eq split: if_splits)
  obtain err f' s1 where sel: "after_select os f ms s = (err, f', s1)"
    by (metis prod.exhaust)
  then have "err \<noteq> 0"
    using assms(8) by (simp add: after_select_def Let_def case_prod_unfold)
  with telnet.dispatch_null [OF assms(1-6)] sel have ends:
    "dispatcher_dispatch os (telnet_callbacks os) (Ptr d 0) ms s = raise Null_deref \<or>
      (\<exists>msg. dispatcher_dispatch os (telnet_callbacks os) (Ptr d 0) ms s = raise (Aborted msg))"
    unfolding f by blast
  moreover have "no_abort (dispatcher_dispatch os (telnet_callbacks os) (Ptr d 0) ms s)"
    if "willing os \<and> length (v_conns V) + length (v_svcs V) + 1 < 2 ^ 61"
    using telnet.no_abort_dispatch [OF assms(1-3,5)] that by blast
  ultimately show ?thesis
    by (auto simp: no_abort_def)
qed

lemma dispatch_without_sleep_ring_witness:
  "dispatcher_dispatch failing_os (telnet_callbacks failing_os) (Ptr 1 0) 100 (site Null site_mem) = raise Null_deref"
proof -
  have D: "dispatcher_ok telnet_owned site_ok_svc 1 (site_view Null Map.empty) (site Null site_mem)"
    by (rule site_ok, rule site_timer_inv) simp
  have f: "build_fdsets (Ptr 1 0) (site Null site_mem) = ok (with_fds [6, 7] fd_zero)"
    by (rule site_build) simp
  have fds: "\<forall>v. site_ok_svc v \<longrightarrow> fd_ok (s_fd v)"
    by (simp add: site_ok_svcD)
  have sel: "fst (fst (do_select failing_os (with_fds [6, 7] fd_zero) 100 (site Null site_mem))) \<noteq> 0"
    by (simp add: do_select_def sys_def failing_os_def quiet_os_def)
  show ?thesis
    by (rule dispatch_without_sleep_ring [OF D site_le _ site_fds fds _ f sel, THEN conjunct2, THEN mp]) simp_all
qed

text \<open>When \<open>select\<close> times out, the dispatcher returns 0 at once: the timers are not looked at, and
  heap, timers and trace are what they were.\<close>
theorem dispatch_idle:
  assumes "dinv P d V (hp s) (tm s)" "build_fdsets (Ptr d 0) s = ok f" "do_select os f ms s = ((0, f'), s1)"
  shows "dispatcher_dispatch os cbs (Ptr d 0) ms s = ok (0, s1) \<and> hp s1 = hp s \<and> tm s1 = tm s \<and> trace s1 = trace s"
proof -
  have "trace s1 = trace s \<and> hp s1 = hp s \<and> tm s1 = tm s"
    using assms(3) sys_state [of "os_select os (nfds f) (readset f) (writeset f) (errset f) (ucast (ms * 1000))" s]
    by (auto simp: do_select_def Let_def case_prod_unfold)
  with assms(2,3) show ?thesis
    by (simp add: dispatcher_dispatch_def Let_def)
qed

lemma dispatch_idle_witness:
  "dispatcher_dispatch quiet_os (telnet_callbacks quiet_os) (Ptr 1 0) 100 (site Null site_mem) = ok (0, site Null site_mem)"
proof -
  have I: "dinv site_ok_svc 1 (site_view Null Map.empty) (hp (site Null site_mem)) (tm (site Null site_mem))"
    using site_dinv [OF site_timer_inv, of Null] by simp
  let ?f = "with_fds [6, 7] fd_zero"
  have f: "build_fdsets (Ptr 1 0) (site Null site_mem) = ok ?f"
    by (rule site_build) simp
  have "do_select quiet_os ?f 100 (site Null site_mem) = ((0, ?f), site Null site_mem)"
    by (simp add: do_select_def sys_def quiet_os_def site_def)
  from dispatch_idle [OF I f this] show ?thesis by simp
qed

section \<open>The telnet program\<close>



text \<open>C20: The loop of \<open>main\<close> has no way out: it waits for a negative result of \<open>dispatcher_dispatch\<close>,
  which returns nothing but 0 and 1, so the program never returns from \<open>main\<close>.\<close>
theorem main_never_returns: "main_program os s \<noteq> ok s'"
  by (auto simp: main_program_def obind_eq_ok main_loop_no_exit)



end
