(* ===== verification/Floating.thy ===== *)
theory Floating
  imports Complex_Main "HOL-Library.Log_Nat" Prelude
begin

text \<open>
  The arithmetic of C's \<open>double\<close> where the program uses it: an operation gives the exact rational result
  rounded to 53 significant bits, to the nearest and to even on a tie (IEEE 754, the default mode).
  The numbers of the program lie between \<open>2 ^ -64\<close> and \<open>2 ^ 100\<close>, far from the limits of the exponent,
  which therefore has none here.
\<close>

section \<open>Rounding\<close>

definition half_even :: "rat \<Rightarrow> int" where
  "half_even x = (let n = \<lfloor>x\<rfloor>; r = x - of_int n
     in if r < 1 / 2 then n else if r > 1 / 2 then n + 1 else if even n then n else n + 1)"

definition pow2 :: "int \<Rightarrow> rat" where
  "pow2 e = (if e \<ge> 0 then 2 ^ nat e else 1 / 2 ^ nat (- e))"

text \<open>The exponent of a positive number: \<open>pow2 (exponent x) \<le> x < pow2 (exponent x + 1)\<close>.\<close>

definition exponent :: "rat \<Rightarrow> int" where
  "exponent x = (let (p, q) = quotient_of x; e = bitlen p - bitlen q
     in if pow2 e \<le> x then e else e - 1)"

definition to_double :: "rat \<Rightarrow> rat" where
  "to_double x = (if x = 0 then 0 else
     let u = pow2 (exponent \<bar>x\<bar> - 52) in of_int (half_even (x / u)) * u)"

section \<open>Lemmas\<close>

lemma pow2_pos [simp]: "0 < pow2 e"
  by (simp add: pow2_def)

lemma pow2_nonneg [simp]: "0 \<le> pow2 e" "pow2 e \<noteq> 0"
  using pow2_pos [of e] by linarith+

lemma pow2_powi: "pow2 e = 2 powi e"
  by (simp add: pow2_def power_int_def field_simps)

lemma pow2_add: "pow2 (a + b) = pow2 a * pow2 b"
  by (simp add: pow2_powi power_int_add)

lemma pow2_mono: "a \<le> b \<Longrightarrow> pow2 a \<le> pow2 b"
  by (simp add: pow2_powi power_int_increasing)

lemma pow2_nat: "pow2 (int n) = 2 ^ n"
  by (simp add: pow2_def)

lemma pow2_nums [simp]: "pow2 0 = 1" "pow2 1 = 2" "pow2 52 = 2 ^ 52" "pow2 53 = 2 ^ 53"
  by (simp_all add: pow2_def)

lemma half_even_error: "\<bar>of_int (half_even x) - x\<bar> \<le> 1 / 2"
proof -
  have "of_int \<lfloor>x\<rfloor> \<le> x" "x < of_int \<lfloor>x\<rfloor> + 1" using floor_correct [of x] by simp_all
  then show ?thesis
    unfolding half_even_def Let_def abs_le_iff
    by (simp only: of_int_add of_int_1 split: if_split) (intro conjI impI; linarith)
qed

lemma half_even_mono: "x \<le> y \<Longrightarrow> half_even x \<le> half_even y"
proof -
  assume le: "x \<le> y"
  then consider "\<lfloor>x\<rfloor> = \<lfloor>y\<rfloor>" | "\<lfloor>x\<rfloor> + 1 \<le> \<lfloor>y\<rfloor>"
    using floor_mono [OF le] by linarith
  then show ?thesis
  proof cases
    case 1
    with le show ?thesis by (auto simp: half_even_def Let_def)
  next
    case 2
    then show ?thesis by (auto simp: half_even_def Let_def)
  qed
qed

lemma half_even_int [simp]: "half_even (of_int n) = n"
  by (simp add: half_even_def)

lemma bitlen_nat:
  assumes "0 < n"
  obtains k where "bitlen n = int k + 1" "2 ^ k \<le> n" "n < 2 ^ (k + 1)"
proof -
  have "1 \<le> bitlen n"
    using assms bitlen_nonneg [of n] bitlen_eq_zero_iff [of n] by linarith
  then have k: "bitlen n = int (nat (bitlen n - 1)) + 1" "nat (bitlen n) = nat (bitlen n - 1) + 1"
    by simp_all
  with bitlen_bounds [OF assms] show thesis by (intro that [of "nat (bitlen n - 1)"]) simp_all
qed

lemma exponent_bounds:
  assumes "0 < x"
  shows "pow2 (exponent x) \<le> x" "x < pow2 (exponent x + 1)"
proof -
  obtain p q where pq: "quotient_of x = (p, q)" by fastforce
  then have x: "x = of_int p / of_int q" and q: "0 < q"
    using quotient_of_div [OF pq] quotient_of_denom_pos [OF pq] by simp_all
  then have p: "0 < p" using assms by (simp add: zero_less_divide_iff)
  obtain a where a: "bitlen p = int a + 1" "2 ^ a \<le> p" "p < 2 ^ (a + 1)" using bitlen_nat [OF p] .
  obtain b where b: "bitlen q = int b + 1" "2 ^ b \<le> q" "q < 2 ^ (b + 1)" using bitlen_nat [OF q] .
  have ab: "(2 :: rat) ^ a \<le> of_int p" "of_int p < (2 :: rat) ^ (a + 1)" "(2 :: rat) ^ b \<le> of_int q" "of_int q < (2 :: rat) ^ (b + 1)"
    using a(2,3) b(2,3) by (metis of_int_le_iff of_int_less_iff of_int_numeral of_int_power)+
  have e: "pow2 (int a - int b) = 2 ^ a / 2 ^ b"
    by (simp add: pow2_powi power_int_diff)
  have up: "x < pow2 (int a - int b + 1)"
  proof -
    have "x \<le> of_int p / 2 ^ b"
      unfolding x using ab(3) p q by (intro divide_left_mono) auto
    also have "\<dots> < 2 ^ (a + 1) / 2 ^ b"
      using ab(2) by (intro divide_strict_right_mono) auto
    finally show ?thesis by (simp add: pow2_add e mult.commute)
  qed
  have low: "pow2 (int a - int b - 1) \<le> x"
  proof -
    have "pow2 (int a - int b - 1) = 2 ^ a / 2 ^ (b + 1)"
      by (simp add: pow2_powi power_int_diff)
    also have "\<dots> \<le> of_int p / 2 ^ (b + 1)"
      using ab(1) by (intro divide_right_mono) auto
    also have "\<dots> \<le> x"
      unfolding x using ab(4) p q by (intro divide_left_mono) auto
    finally show ?thesis .
  qed
  show "pow2 (exponent x) \<le> x" "x < pow2 (exponent x + 1)"
    using up low by (auto simp: exponent_def pq a(1) b(1) Let_def)
qed

lemma exponent_mono:
  assumes "0 < x" "x \<le> y"
  shows "exponent x \<le> exponent y"
proof (rule ccontr)
  assume "\<not> exponent x \<le> exponent y"
  then have "pow2 (exponent y + 1) \<le> pow2 (exponent x)" by (intro pow2_mono) simp
  with exponent_bounds(1) [of x] exponent_bounds(2) [of y] assms show False by simp
qed

text \<open>The relative error of rounding.\<close>

lemma to_double_error: "\<bar>to_double x - x\<bar> \<le> \<bar>x\<bar> / 2 ^ 53"
proof (cases "x = 0")
  case False
  let ?e = "exponent \<bar>x\<bar>" and ?u = "pow2 (exponent \<bar>x\<bar> - 52)"
  have "to_double x - x = (of_int (half_even (x / ?u)) - x / ?u) * ?u"
    using False by (simp add: to_double_def Let_def left_diff_distrib)
  then have "\<bar>to_double x - x\<bar> = \<bar>of_int (half_even (x / ?u)) - x / ?u\<bar> * ?u"
    by (simp add: abs_mult)
  also have "\<dots> \<le> 1 / 2 * ?u"
    by (intro mult_right_mono half_even_error) simp
  also have "\<dots> = pow2 ?e / 2 ^ 53"
    using pow2_add [of "?e - 52" 52] by simp
  also have "\<dots> \<le> \<bar>x\<bar> / 2 ^ 53"
    using exponent_bounds(1) [of "\<bar>x\<bar>"] False by (intro divide_right_mono) simp_all
  finally show ?thesis .
qed (simp add: to_double_def)

lemma to_double_0 [simp]: "to_double 0 = 0"
  by (simp add: to_double_def)

text \<open>A rounded number stays between the powers of two around it.\<close>

lemma to_double_between:
  assumes "0 < x"
  shows "pow2 (exponent x) \<le> to_double x" "to_double x \<le> pow2 (exponent x + 1)"
proof -
  let ?u = "pow2 (exponent x - 52)"
  have e: "pow2 (exponent x) = 2 ^ 52 * ?u" "pow2 (exponent x + 1) = 2 ^ 53 * ?u"
    using pow2_add [of 52 "exponent x - 52"] pow2_add [of 53 "exponent x - 52"] by (simp_all add: add.commute)
  have "2 ^ 52 \<le> x / ?u" "x / ?u \<le> 2 ^ 53"
    using exponent_bounds [OF assms] e by (simp_all add: field_simps)
  then have "half_even (of_int (2 ^ 52)) \<le> half_even (x / ?u)" "half_even (x / ?u) \<le> half_even (of_int (2 ^ 53))"
    by (intro half_even_mono; simp)+
  then have "(2 ^ 52 :: int) \<le> half_even (x / ?u)" "half_even (x / ?u) \<le> (2 ^ 53 :: int)"
    unfolding half_even_int by simp_all
  then have "of_int (2 ^ 52) \<le> (of_int (half_even (x / ?u)) :: rat)" "(of_int (half_even (x / ?u)) :: rat) \<le> of_int (2 ^ 53)"
    by (simp_all only: of_int_le_iff)
  then show "pow2 (exponent x) \<le> to_double x" "to_double x \<le> pow2 (exponent x + 1)"
    using assms by (simp_all add: to_double_def Let_def e)
qed

lemma to_double_nonneg: "0 \<le> x \<Longrightarrow> 0 \<le> to_double x"
  using to_double_between(1) [of x] pow2_nonneg(1) [of "exponent x"] by (cases "x = 0") (simp_all del: pow2_nonneg)

lemma to_double_mono:
  assumes "0 \<le> x" "x \<le> y"
  shows "to_double x \<le> to_double y"
proof (cases "x = 0")
  case False
  with assms have pos: "0 < x" "0 < y" by simp_all
  show ?thesis
  proof (cases "exponent x = exponent y")
    case True
    have "half_even (x / pow2 (exponent y - 52)) \<le> half_even (y / pow2 (exponent y - 52))"
      using assms by (intro half_even_mono divide_right_mono) simp_all
    then show ?thesis using pos True by (simp add: to_double_def Let_def)
  next
    case False
    then have "pow2 (exponent x + 1) \<le> pow2 (exponent y)"
      using exponent_mono [OF pos(1) assms(2)] by (intro pow2_mono) simp
    with to_double_between(2) [OF pos(1)] to_double_between(1) [OF pos(2)] show ?thesis by simp
  qed
qed (use assms to_double_nonneg in simp)

end
