(* ===== verification/Pixie_Timer.thy ===== *)
theory Pixie_Timer
  imports Prelude
begin

text \<open>
  \<^verbatim>\<open>pixie-timer.c\<close>: sleeping and reading the clock, in the variants for POSIX with a monotonic
  clock and for Mach, and the self-test. The variant for Windows is in \<^theory_text>\<open>Win_Clock\<close>.

  \<open>'w clock_os\<close> holds the system calls; they act on the world \<open>'w\<close>. The fields of \<open>struct timespec\<close>
  and the results are kept at their width of 64 bits. A function that may loop returns an option,
  with \<open>None\<close> for a run that does not end.
\<close>

section \<open>The system calls\<close>

record timespec =
  tv_sec :: u64
  tv_nsec :: u64

record 'w clock_os =
  sys_nanosleep :: "timespec \<Rightarrow> 'w \<Rightarrow> (int \<times> int \<times> timespec) \<times> 'w"
  sys_clock :: "'w \<Rightarrow> (int \<times> int \<times> timespec) \<times> 'w"
  sys_mach_time :: "'w \<Rightarrow> u64 \<times> 'w"
  sys_printf :: "string \<Rightarrow> 'w \<Rightarrow> 'w"

definition EINTR :: int where
  "EINTR = 4"

section \<open>POSIX\<close>

text \<open>\<open>again:\<close> the call is repeated with the remaining time while it is interrupted.\<close>

partial_function (option) usleep_again :: "'w clock_os \<Rightarrow> timespec \<Rightarrow> 'w \<Rightarrow> 'w option" where
  "usleep_again os ts w =
     (case sys_nanosleep os ts w of ((err, errno, remaining), w) \<Rightarrow>
        if err = -1 \<and> errno = EINTR then usleep_again os remaining w else Some w)"

declare usleep_again.simps [code]

definition usleep_request :: "u64 \<Rightarrow> timespec" where
  "usleep_request microseconds =
     \<lparr>tv_sec = microseconds div 1000000, tv_nsec = (microseconds mod 1000000) * 1000\<rparr>"

definition pixie_usleep :: "'w clock_os \<Rightarrow> u64 \<Rightarrow> 'w \<Rightarrow> 'w option" where
  "pixie_usleep os microseconds w = usleep_again os (usleep_request microseconds) w"

definition pixie_mssleep :: "'w clock_os \<Rightarrow> u32 \<Rightarrow> 'w \<Rightarrow> 'w option" where
  "pixie_mssleep os milliseconds w = pixie_usleep os (ucast milliseconds * 1000) w"

text \<open>When \<open>clock_gettime\<close> fails the structure is not initialised; \<open>sys_clock\<close> gives what it holds.\<close>

definition pixie_gettime :: "'w clock_os \<Rightarrow> 'w \<Rightarrow> u64 \<times> 'w" where
  "pixie_gettime os w =
     (case sys_clock os w of ((x, errno, tv), w) \<Rightarrow>
        let w = (if x \<noteq> 0 then sys_printf os (''clock_gettime() err '' @ show_int errno @ newline) w else w)
        in (tv_sec tv * 1000000 + tv_nsec tv div 1000, w))"

definition pixie_nanotime :: "'w clock_os \<Rightarrow> 'w \<Rightarrow> u64 \<times> 'w" where
  "pixie_nanotime os w =
     (case sys_clock os w of ((x, errno, tv), w) \<Rightarrow>
        let w = (if x \<noteq> 0 then sys_printf os (''clock_gettime() err '' @ show_int errno @ newline) w else w)
        in (tv_sec tv * 1000000000 + tv_nsec tv, w))"

section \<open>Mach\<close>

definition mach_request :: "u64 \<Rightarrow> timespec" where
  "mach_request microseconds =
     \<lparr>tv_sec = (if microseconds > 1000000 then microseconds div 1000000 else 0),
      tv_nsec = microseconds * 1000\<rparr>"

definition mach_usleep :: "'w clock_os \<Rightarrow> u64 \<Rightarrow> 'w \<Rightarrow> 'w" where
  "mach_usleep os microseconds w = snd (sys_nanosleep os (mach_request microseconds) w)"

definition mach_mssleep :: "'w clock_os \<Rightarrow> u32 \<Rightarrow> 'w \<Rightarrow> 'w" where
  "mach_mssleep os milliseconds w = mach_usleep os (ucast milliseconds * 1000) w"

definition mach_gettime :: "'w clock_os \<Rightarrow> 'w \<Rightarrow> u64 \<times> 'w" where
  "mach_gettime os w = (case sys_mach_time os w of (t, w) \<Rightarrow> (t div 1000, w))"

definition mach_nanotime :: "'w clock_os \<Rightarrow> 'w \<Rightarrow> u64 \<times> 'w" where
  "mach_nanotime os w = sys_mach_time os w"

section \<open>The self-test\<close>

text \<open>
  The comparisons with \<open>0.9*duration\<close> and \<open>1.1*duration\<close> are between floating-point numbers that are
  no integers (111110.4 and 135801.6), so an integer is on the same side of them as of the exact
  bounds.
\<close>

definition duration :: u64 where
  "duration = 123456"

definition pixie_time_selftest :: "'w clock_os \<Rightarrow> 'w \<Rightarrow> (int \<times> 'w) option" where
  "pixie_time_selftest os w =
     (let (start, w) = pixie_gettime os w in
      case pixie_usleep os duration w of None \<Rightarrow> None | Some w \<Rightarrow>
      let (stop, w) = pixie_gettime os w;
          elapsed = stop - start
      in if 10 * unat elapsed < 9 * unat duration \<or> 11 * unat duration < 10 * unat elapsed
         then Some (1, sys_printf os (''timing error, long delay'' @ newline) w)
         else Some (0, w))"

section \<open>Lemmas\<close>

definition ns_of :: "timespec \<Rightarrow> nat" where
  "ns_of ts = unat (tv_sec ts) * 10 ^ 9 + unat (tv_nsec ts)"

definition valid_request :: "timespec \<Rightarrow> bool" where
  "valid_request ts \<longleftrightarrow> unat (tv_nsec ts) < 10 ^ 9"

lemma usleep_request_exact:
  "valid_request (usleep_request us)" "ns_of (usleep_request us) = 1000 * unat us"
proof -
  have "unat (us mod 1000000) < 1000000"
    by (simp add: unat_mod)
  then have r: "unat ((us mod 1000000) * 1000) = unat us mod 1000000 * 1000"
    by (simp add: unat_word_ariths unat_mod)
  then show "valid_request (usleep_request us)"
    by (simp add: valid_request_def usleep_request_def)
  have "unat us div 1000000 * 1000000000 + unat us mod 1000000 * 1000 = 1000 * unat us"
    using mult_div_mod_eq [of 1000000 "unat us"] by linarith
  then show "ns_of (usleep_request us) = 1000 * unat us"
    by (simp add: ns_of_def usleep_request_def r unat_div)
qed

lemma unat_ms: "unat (ucast (ms :: u32) * 1000 :: u64) = 1000 * unat ms"
proof -
  have less: "unat ms < 2 ^ 32"
    using unsigned_less [of ms, where ?'a = nat] by simp
  then have "unat (ucast ms :: u64) = unat ms"
    by (simp add: unsigned_ucast_eq take_bit_nat_eq_self)
  with less show ?thesis
    by (simp add: unat_word_ariths)
qed

text \<open>
  What POSIX promises of \<open>nanosleep\<close> for a valid request: it returns 0 after at least that time, or
  it is interrupted and reports a valid rest that was not slept. \<open>now\<close> is the elapsed time of the
  world in nanoseconds and \<open>pending\<close> the number of signals that are still to come.
\<close>

definition posix_sleep :: "('w \<Rightarrow> nat) \<Rightarrow> ('w \<Rightarrow> nat) \<Rightarrow> 'w clock_os \<Rightarrow> bool" where
  "posix_sleep now pending os \<longleftrightarrow>
     (\<forall>ts w err errno rem w'. valid_request ts \<longrightarrow> sys_nanosleep os ts w = ((err, errno, rem), w') \<longrightarrow>
        (err = 0 \<and> now w + ns_of ts \<le> now w') \<or>
        (err = -1 \<and> errno = EINTR \<and> valid_request rem \<and> now w + ns_of ts \<le> now w' + ns_of rem \<and>
         pending w' < pending w))"

lemma usleep_again_sleeps:
  assumes "posix_sleep now pending os" "valid_request ts"
  shows "\<exists>w'. usleep_again os ts w = Some w' \<and> now w + ns_of ts \<le> now w'"
  using assms(2)
proof (induction "pending w" arbitrary: w ts rule: less_induct)
  case less
  obtain err errno rem w' where c: "sys_nanosleep os ts w = ((err, errno, rem), w')"
    by (metis prod.exhaust)
  with assms(1) less.prems consider "err = 0" "now w + ns_of ts \<le> now w'"
    | "err = -1" "errno = EINTR" "valid_request rem" "now w + ns_of ts \<le> now w' + ns_of rem" "pending w' < pending w"
    unfolding posix_sleep_def by blast
  then show ?case
  proof cases
    case 1
    then show ?thesis by (simp add: usleep_again.simps [of os ts w] c)
  next
    case 2
    then have "usleep_again os ts w = usleep_again os rem w'"
      by (simp add: usleep_again.simps [of os ts w] c)
    with less.hyps [OF 2(5,3)] 2(4) show ?thesis by auto
  qed
qed

end
