(* ===== verification/Win_Clock.thy ===== *)
theory Win_Clock
  imports Floating Pixie_Timer "HOL-Library.Signed_Division"
begin

text \<open>
  \<^verbatim>\<open>pixie-timer.c\<close>, the Windows variant: the performance counter is read and scaled with floating-point
  arithmetic (\<^theory_text>\<open>Floating\<close>). A division by a frequency of zero, or a conversion of a number that does not
  fit, has no defined result and is the fault \<open>Undefined\<close>. \<open>'w win_os\<close> holds the system calls; \<open>w_epoch\<close> is
  what \<open>SystemTimeToFileTime\<close> makes of 1 January 1970, high half first.
\<close>

record 'w win_os =
  w_qpc :: "'w \<Rightarrow> u64 \<times> 'w"
  w_qpf :: "'w \<Rightarrow> (bool \<times> u64) \<times> 'w"
  w_filetime :: "'w \<Rightarrow> (u32 \<times> u32) \<times> 'w"
  w_epoch :: "u32 \<times> u32"
  w_Sleep :: "u32 \<Rightarrow> 'w \<Rightarrow> 'w"
  w_create_timer :: "'w \<Rightarrow> nat \<times> 'w"
  w_set_timer :: "nat \<Rightarrow> u64 \<Rightarrow> 'w \<Rightarrow> int \<times> 'w"
  w_wait_timer :: "nat \<Rightarrow> 'w \<Rightarrow> 'w"
  w_close_handle :: "nat \<Rightarrow> 'w \<Rightarrow> 'w"

section \<open>Conversions\<close>

definition chop :: "rat \<Rightarrow> int" where
  "chop x = (if 0 \<le> x then \<lfloor>x\<rfloor> else \<lceil>x\<rceil>)"

definition to_u64 :: "rat \<Rightarrow> u64 outcome" where
  "to_u64 x = (if 0 \<le> chop x \<and> chop x < 2 ^ 64 then ok (word_of_int (chop x)) else raise Undefined)"

definition to_s64 :: "rat \<Rightarrow> int outcome" where
  "to_s64 x = (if - (2 ^ 63) \<le> chop x \<and> chop x < 2 ^ 63 then ok (chop x) else raise Undefined)"

section \<open>Reading the clock\<close>

definition number :: "u64 \<Rightarrow> rat" where
  "number x = of_nat (unat x)"

text \<open>\<open>(uint64_t)(((double)time1/(double)freq) * k)\<close>\<close>

definition clock_scale :: "rat \<Rightarrow> u64 \<Rightarrow> u64 \<Rightarrow> u64 outcome" where
  "clock_scale k time1 freq =
     (let t = to_double (number time1); f = to_double (number freq) in
      if f = 0 then raise Undefined
      else let seconds = to_double (t / f) in to_u64 (to_double (seconds * k)))"

definition win_gettime :: "'w win_os \<Rightarrow> 'w \<Rightarrow> (u64 \<times> 'w) outcome" where
  "win_gettime os w =
     (let (time1, w) = w_qpc os w; ((x, freq), w) = w_qpf os w
      in obind (clock_scale 1000000 time1 freq) (\<lambda>r. ok (r, w)))"

definition win_nanotime :: "'w win_os \<Rightarrow> 'w \<Rightarrow> (u64 \<times> 'w) outcome" where
  "win_nanotime os w =
     (let (time1, w) = w_qpc os w; ((x, freq), w) = w_qpf os w
      in obind (clock_scale 1000000000 time1 freq) (\<lambda>r. ok (r, w)))"

section \<open>The replacement of \<open>clock_gettime\<close>\<close>

text \<open>\<open>f.dwHighDateTime\<close> shifted by 32, with \<open>f.dwLowDateTime\<close> below.\<close>

definition filetime_quad :: "u32 \<Rightarrow> u32 \<Rightarrow> u64" where
  "filetime_quad high low = or (push_bit 32 (ucast high)) (ucast low)"

definition getFILETIMEoffset :: "'w win_os \<Rightarrow> u64" where
  "getFILETIMEoffset os = (case w_epoch os of (high, low) \<Rightarrow> filetime_quad high low)"

text \<open>The static variables of the function.\<close>

record clock_statics =
  cs_offset :: u64
  cs_frequencyToMicroseconds :: rat
  cs_initialized :: bool
  cs_usePerformanceCounter :: bool

definition initial_statics :: clock_statics where
  "initial_statics = \<lparr>cs_offset = 0, cs_frequencyToMicroseconds = 0, cs_initialized = False, cs_usePerformanceCounter = False\<rparr>"

definition clock_init :: "'w win_os \<Rightarrow> clock_statics \<Rightarrow> 'w \<Rightarrow> clock_statics \<times> 'w" where
  "clock_init os st w =
     (if cs_initialized st then (st, w) else
      let ((use, freq), w) = w_qpf os w in
      if use then
        let (off, w) = w_qpc os w in
        (\<lparr>cs_offset = off, cs_frequencyToMicroseconds = to_double (to_double (of_int (sint freq)) / 1000000),
          cs_initialized = True, cs_usePerformanceCounter = True\<rparr>, w)
      else
        (\<lparr>cs_offset = getFILETIMEoffset os, cs_frequencyToMicroseconds = 10,
          cs_initialized = True, cs_usePerformanceCounter = False\<rparr>, w))"

text \<open>The result is the pair of \<open>tv_sec\<close> and \<open>tv_usec\<close>, of type \<open>long\<close>, which has 32 bits there.\<close>

definition win_clock_gettime :: "'w win_os \<Rightarrow> clock_statics \<Rightarrow> 'w \<Rightarrow> ((u32 \<times> u32) \<times> clock_statics \<times> 'w) outcome" where
  "win_clock_gettime os st w =
     (let (st, w) = clock_init os st w;
          (t, w) = (if cs_usePerformanceCounter st then w_qpc os w
                    else let ((high, low), w) = w_filetime os w in (filetime_quad high low, w));
          t = t - cs_offset st
      in if cs_frequencyToMicroseconds st = 0 then raise Undefined
         else obind (to_s64 (to_double (to_double (of_int (sint t)) / cs_frequencyToMicroseconds st))) (\<lambda>microseconds.
           ok ((word_of_int (microseconds sdiv 1000000), word_of_int (microseconds smod 1000000)), st, w)))"

section \<open>Sleeping\<close>

definition win_nanosleep :: "'w win_os \<Rightarrow> u64 \<Rightarrow> 'w \<Rightarrow> int \<times> 'w" where
  "win_nanosleep os ns w =
     (let (timer, w) = w_create_timer os w in
      if timer = 0 then (0, w) else
      let (x, w) = w_set_timer os timer (- ns) w in
      if x = 0 then (0, w_close_handle os timer w) else
      (1, w_close_handle os timer (w_wait_timer os timer w)))"

definition win_mssleep :: "'w win_os \<Rightarrow> u32 \<Rightarrow> 'w \<Rightarrow> 'w" where
  "win_mssleep os waitTime w = w_Sleep os waitTime w"

partial_function (option) win_spin :: "'w win_os \<Rightarrow> u64 \<Rightarrow> u64 \<Rightarrow> 'w \<Rightarrow> 'w outcome" where
  "win_spin os start waitTime w =
     obind (win_gettime os w) (\<lambda>(now, w).
       if now - start < waitTime then win_spin os start waitTime w else ok w)"

declare win_spin.simps [code]

definition win_usleep :: "'w win_os \<Rightarrow> u64 \<Rightarrow> 'w \<Rightarrow> 'w outcome" where
  "win_usleep os waitTime w =
     obind (win_gettime os w) (\<lambda>(start, w).
     let w = (if waitTime > 1000 then w_Sleep os (ucast (waitTime div 1000)) w else w)
     in win_spin os start waitTime w)"

section \<open>Accuracy\<close>

lemma to_double_factor:
  assumes "0 \<le> x"
  shows "x * (1 - 1 / 2 ^ 53) \<le> to_double x" "to_double x \<le> x * (1 + 1 / 2 ^ 53)"
proof -
  have "\<bar>to_double x - x\<bar> \<le> x * (1 / 2 ^ 53)"
    using to_double_error [of x] assms by simp
  then have "x - x * (1 / 2 ^ 53) \<le> to_double x" "to_double x \<le> x + x * (1 / 2 ^ 53)"
    unfolding abs_le_iff by linarith+
  then show "x * (1 - 1 / 2 ^ 53) \<le> to_double x" "to_double x \<le> x * (1 + 1 / 2 ^ 53)"
    unfolding right_diff_distrib distrib_left mult_1_right .
qed

lemma round_between:
  assumes "0 \<le> x" "x \<le> y" "y \<le> z"
  shows "x * (1 - 1 / 2 ^ 53) \<le> to_double y" "to_double y \<le> z * (1 + 1 / 2 ^ 53)"
proof -
  have "0 \<le> y" using assms by simp
  note y = to_double_factor [OF this]
  have "x * (1 - 1 / 2 ^ 53) \<le> y * (1 - 1 / 2 ^ 53)" "y * (1 + 1 / 2 ^ 53) \<le> z * (1 + 1 / 2 ^ 53)"
    using assms by (intro mult_right_mono; simp)+
  with y show "x * (1 - 1 / 2 ^ 53) \<le> to_double y" "to_double y \<le> z * (1 + 1 / 2 ^ 53)"
    by linarith+
qed

text \<open>The roundings of the scaled counter together stay within a factor of \<open>1 + 2 ^ -50\<close>.\<close>

lemma scaled_bounds:
  assumes "0 \<le> t" "0 < f" "0 < k"
  defines "r \<equiv> to_double (to_double (to_double t / to_double f) * k)"
  shows "t / f * k * (1 - 1 / 2 ^ 50) \<le> r" "r \<le> t / f * k * (1 + 1 / 2 ^ 50)" "0 < to_double f"
proof -
  define l h :: rat where "l = 1 - 1 / 2 ^ 53" and "h = 1 + 1 / 2 ^ 53"
  have lh: "0 < l" "0 < h" by (simp_all add: l_def h_def)
  note b = round_between [folded l_def h_def]
  have f: "f * l \<le> to_double f" "to_double f \<le> f * h" using b [of f f f] assms(2) by simp_all
  have fl: "0 < f * l" using assms(2) lh by simp
  with f(1) show fpos: "0 < to_double f" by linarith
  have t: "t * l \<le> to_double t" "to_double t \<le> t * h" using b [of t t t] assms(1) by simp_all
  have "t * l / (f * h) \<le> to_double t / to_double f"
    using t(1) fpos f(2) assms(1) lh to_double_nonneg [OF assms(1)] by (intro frac_le) auto
  note q1 = this
  have q2: "to_double t / to_double f \<le> t * h / (f * l)"
    using t fl f(1) assms(1) lh by (intro frac_le) auto
  have low: "0 \<le> t * l / (f * h)" using assms(1,2) lh by simp
  have q: "t * l / (f * h) * l \<le> to_double (to_double t / to_double f)"
    "to_double (to_double t / to_double f) \<le> t * h / (f * l) * h" "0 \<le> t * l / (f * h) * l"
    by (rule b(1) [OF low q1 q2], rule b(2) [OF low q1 q2], rule mult_nonneg_nonneg [OF low less_imp_le [OF lh(1)]])
  have "t * l / (f * h) * l * k * l \<le> r" "r \<le> t * h / (f * l) * h * k * h"
    unfolding r_def using assms(3)
    by (intro b(1) [where z = "t * h / (f * l) * h * k"] b(2) [where x = "t * l / (f * h) * l * k"]
      mult_right_mono q mult_nonneg_nonneg; simp)+
  moreover have "t * l / (f * h) * l * k * l = t / f * k * (l ^ 3 / h)" "t * h / (f * l) * h * k * h = t / f * k * (h ^ 3 / l)"
    by (simp_all add: power3_eq_cube)
  moreover have "t / f * k * (1 - 1 / 2 ^ 50) \<le> t / f * k * (l ^ 3 / h)" "t / f * k * (h ^ 3 / l) \<le> t / f * k * (1 + 1 / 2 ^ 50)"
    using assms(1-3) by (intro mult_left_mono; simp add: l_def h_def power3_eq_cube)+
  ultimately show "t / f * k * (1 - 1 / 2 ^ 50) \<le> r" "r \<le> t / f * k * (1 + 1 / 2 ^ 50)"
    by linarith+
qed

lemma number_simps [simp]: "0 \<le> number x" "number x \<le> number y \<longleftrightarrow> unat x \<le> unat y"
  unfolding number_def by (simp_all only: of_nat_0_le_iff of_nat_le_iff)

lemma number_pos: "x \<noteq> 0 \<Longrightarrow> 0 < number x"
  unfolding number_def of_nat_0_less_iff by (simp add: unat_gt_0)

lemma to_u64_value: "to_u64 x = ok n \<Longrightarrow> int (unat n) = chop x"
  by (auto simp: to_u64_def uint_word_of_int_eq take_bit_int_eq_self simp flip: uint_nat split: if_splits)

lemma to_u64_ok:
  assumes "0 \<le> x" "x < 2 ^ 64"
  shows "\<exists>n. to_u64 x = ok n \<and> int (unat n) = \<lfloor>x\<rfloor>"
proof -
  have "0 \<le> \<lfloor>x\<rfloor>" "\<lfloor>x\<rfloor> < 2 ^ 64" using assms by (simp_all add: floor_less_iff)
  then have "to_u64 x = ok (word_of_int \<lfloor>x\<rfloor>)" using assms(1) by (simp add: to_u64_def chop_def)
  with to_u64_value [OF this] assms(1) show ?thesis by (simp only: chop_def) simp
qed

lemma clock_scale_ok:
  assumes "freq \<noteq> 0" "0 < k" "number time1 / number freq * k < 2 ^ 63"
  shows "\<exists>n. clock_scale k time1 freq = ok n \<and>
    \<bar>number n - number time1 / number freq * k\<bar> \<le> 1 + number time1 / number freq * k / 2 ^ 50"
proof -
  let ?t = "number time1" and ?f = "number freq"
  let ?x = "?t / ?f * k" and ?r = "to_double (to_double (to_double ?t / to_double ?f) * k)"
  have f: "0 < ?f" using assms(1) by (rule number_pos)
  note r = scaled_bounds [of ?t ?f k, OF _ f assms(2)]
  have x: "0 \<le> ?x" using assms(2) by simp
  have eq: "x * (1 - 1 / n) = x - x / n" "x * (1 + 1 / n) = x + x / n" for x n :: rat
    by (simp_all add: right_diff_distrib distrib_left)
  have small: "?x / 2 ^ 50 \<le> ?x" using divide_left_mono [of 1 "2 ^ 50" ?x] x by simp
  have bounds: "?x - ?x / 2 ^ 50 \<le> ?r" "?r \<le> ?x + ?x / 2 ^ 50" "0 < to_double ?f"
    using r [unfolded eq] by simp_all
  have "0 \<le> ?r" using bounds(1) small by linarith
  moreover have "?r < 2 ^ 64"
    using order.strict_trans1 [OF bounds(2) add_le_less_mono [OF less_imp_le [OF assms(3)] order.strict_trans1 [OF small assms(3)]]]
    by simp
  ultimately obtain n where n: "to_u64 ?r = ok n" "int (unat n) = \<lfloor>?r\<rfloor>" using to_u64_ok by blast
  have "number n = of_int \<lfloor>?r\<rfloor>" unfolding n(2) [symmetric] by (simp only: number_def of_int_of_nat_eq)
  then have "number n \<le> ?r" "?r < number n + 1" using floor_correct [of ?r] by simp_all
  then have "\<bar>number n - ?x\<bar> \<le> 1 + ?x / 2 ^ 50"
    unfolding abs_le_iff using bounds(1,2) by linarith
  with n(1) bounds(3) show ?thesis by (simp add: clock_scale_def Let_def)
qed

text \<open>The clock does not run backwards.\<close>

lemma clock_scale_mono:
  assumes "unat time0 \<le> unat time1" "0 < k" "clock_scale k time0 freq = ok n0" "clock_scale k time1 freq = ok n1"
  shows "unat n0 \<le> unat n1"
proof -
  let ?f = "to_double (number freq)"
  let ?r = "\<lambda>t. to_double (to_double (to_double (number t) / ?f) * k)"
  have f: "0 \<le> ?f" by (rule to_double_nonneg) simp
  have pos: "0 \<le> to_double (number t) / ?f" for t :: u64
    using f by (intro divide_nonneg_nonneg to_double_nonneg) simp_all
  have r: "0 \<le> ?r t" for t :: u64
    using pos assms(2) by (intro to_double_nonneg mult_nonneg_nonneg) simp_all
  have "to_double (number time0) / ?f \<le> to_double (number time1) / ?f"
    using assms(1) f by (intro divide_right_mono to_double_mono) simp_all
  then have "?r time0 \<le> ?r time1"
    using pos assms(2) by (intro to_double_mono mult_right_mono mult_nonneg_nonneg to_double_nonneg) simp_all
  then have "chop (?r time0) \<le> chop (?r time1)"
    using r by (simp add: chop_def floor_mono)
  moreover have "int (unat n) = chop (?r t)" if "clock_scale k t freq = ok n" for t n
    using that by (intro to_u64_value) (simp add: clock_scale_def Let_def split: if_splits)
  ultimately show ?thesis using assms(3,4) by (simp flip: of_nat_le_iff [where 'a = int])
qed

text \<open>C34: For a counter that runs at a nonzero frequency and has not yet reached \<open>2 ^ 63\<close> nanoseconds,
  \<open>pixie_gettime\<close> and \<open>pixie_nanotime\<close> on Windows have a defined result, off the exact quotient by at
  most one unit and a \<open>2 ^ -50\<close> part, three roundings and the truncation together; a later reading is
  never below an earlier one.\<close>
theorem win_clock_accuracy:
  assumes "w_qpc os w = (time1, w1)" "w_qpf os w1 = ((x, freq), w2)" "freq \<noteq> 0"
    "number time1 / number freq * 1000000000 < 2 ^ 63"
  shows "\<exists>us ns. win_gettime os w = ok (us, w2) \<and> win_nanotime os w = ok (ns, w2) \<and>
    (let t = number time1 / number freq in
      \<bar>number us - t * 1000000\<bar> \<le> 1 + t * 1000000 / 2 ^ 50 \<and>
      \<bar>number ns - t * 1000000000\<bar> \<le> 1 + t * 1000000000 / 2 ^ 50) \<and>
    (\<forall>v time2 v1 y v2 us2. w_qpc os v = (time2, v1) \<longrightarrow> w_qpf os v1 = ((y, freq), v2) \<longrightarrow>
      unat time1 \<le> unat time2 \<longrightarrow> win_gettime os v = ok (us2, v2) \<longrightarrow> unat us \<le> unat us2)"
proof -
  have "number time1 / number freq * 1000000 \<le> number time1 / number freq * 1000000000"
    by (intro mult_left_mono divide_nonneg_nonneg) simp_all
  then have us: "number time1 / number freq * 1000000 < 2 ^ 63" using assms(4) by (rule order.strict_trans1)
  obtain us where 1: "clock_scale 1000000 time1 freq = ok us"
    "\<bar>number us - number time1 / number freq * 1000000\<bar> \<le> 1 + number time1 / number freq * 1000000 / 2 ^ 50"
    using clock_scale_ok [OF assms(3) _ us] by auto
  obtain ns where 2: "clock_scale 1000000000 time1 freq = ok ns"
    "\<bar>number ns - number time1 / number freq * 1000000000\<bar> \<le> 1 + number time1 / number freq * 1000000000 / 2 ^ 50"
    using clock_scale_ok [OF assms(3) _ assms(4)] by auto
  have "unat us \<le> unat us2"
    if "w_qpc os v = (time2, v1)" "w_qpf os v1 = ((y, freq), v2)" "unat time1 \<le> unat time2" "win_gettime os v = ok (us2, v2)"
    for v time2 v1 y v2 us2
    using clock_scale_mono [OF that(3) _ 1(1)] that by (simp add: win_gettime_def obind_eq_ok split: prod.splits)
  moreover have "win_gettime os w = ok (us, w2)" "win_nanotime os w = ok (ns, w2)"
    using assms(1,2) 1(1) 2(1) by (simp_all add: win_gettime_def win_nanotime_def)
  ultimately show ?thesis unfolding Let_def using 1(2) 2(2) by blast
qed

text \<open>A machine whose counter is the world, ten million ticks a second.\<close>

definition ticks_os :: "u64 win_os" where
  "ticks_os = \<lparr>w_qpc = (\<lambda>c. (c, c)), w_qpf = (\<lambda>c. ((True, 10000000), c)), w_filetime = (\<lambda>c. ((0, 0), c)),
     w_epoch = (27111902, 3577643008), w_Sleep = (\<lambda>ms c. c + ucast ms * 10000), w_create_timer = (\<lambda>c. (1, c)),
     w_set_timer = (\<lambda>h t c. (1, c)), w_wait_timer = (\<lambda>h c. c), w_close_handle = (\<lambda>h c. c)\<rparr>"

lemma win_clock_accuracy_witness:
  "\<exists>us ns. win_gettime ticks_os 12345678 = ok (us, 12345678) \<and> win_nanotime ticks_os 12345678 = ok (ns, 12345678) \<and>
    \<bar>number us - 12345678 / 10\<bar> \<le> 1 + 12345678 / 10 / 2 ^ 50 \<and> \<bar>number ns - 1234567800\<bar> \<le> 1 + 1234567800 / 2 ^ 50"
  using win_clock_accuracy [of ticks_os 12345678 12345678 12345678 True 10000000 12345678]
  by (auto simp: ticks_os_def number_def Let_def)

end
