(* ===== verification/Util_Time.thy ===== *)
theory Util_Time
  imports Win_Clock
begin

text \<open>
  \<^verbatim>\<open>util-time.c\<close>, the other copy of the clock functions, over the same system calls. It has no
  \<open>pixie_nanosleep\<close>. The names carry the prefix \<open>util_\<close>.
\<close>

section \<open>POSIX\<close>








section \<open>Mach\<close>





section \<open>Windows\<close>











section \<open>The self-test\<close>


section \<open>The two files agree\<close>














section \<open>Sleeping\<close>








end
