(* ===== verification/Poll_Dispatcher.thy ===== *)
theory Poll_Dispatcher
  imports Dispatch_State Pixie_Timer
begin

text \<open>
  \<^verbatim>\<open>dispatcher.c\<close> and \<^verbatim>\<open>dispatcher.h\<close>: the dispatcher built on \<open>poll\<close> (POSIX variant).

  Its structures live in a heap of their own objects. A cell of an array that \<open>malloc\<close> or \<open>realloc\<close> has
  returned and nobody has written is \<open>None\<close>; using its content is the fault \<open>Uninitialised\<close>. The
  connection's 512-byte buffer, which no function touches, is left out. Handlers are numbered like
  the function pointers of \<^theory_text>\<open>Dispatch_State\<close>; a record gives them their meaning. The functions
  whose names \<^verbatim>\<open>dispatch.c\<close> uses too carry the suffix \<open>_poll\<close>.
\<close>

section \<open>Constants\<close>

definition DISPATCH_TCP :: int where "DISPATCH_TCP = 1"
definition DISPATCH_UDP :: int where "DISPATCH_UDP = 2"
definition DISPATCH_SCTP :: int where "DISPATCH_SCTP = 4"

definition DISPATCH_READABLE :: int where "DISPATCH_READABLE = 0x01"
definition DISPATCH_WRITEABLE :: int where "DISPATCH_WRITEABLE = 0x02"
definition DISPATCH_TIMEOUT :: int where "DISPATCH_TIMEOUT = 0x04"
definition DISPATCH_ERRORED :: int where "DISPATCH_ERRORED = 0x08"
definition DISPATCH_CLOSED :: int where "DISPATCH_CLOSED = 0x10"
definition DISPATCH_CREATED :: int where "DISPATCH_CREATED = 0x20"
definition DISPATCH_SLEEP :: int where "DISPATCH_SLEEP = 0x40"

type_synonym u16 = "16 word"

definition POLLIN :: u16 where "POLLIN = 0x01"
definition POLLOUT :: u16 where "POLLOUT = 0x04"
definition POLLERR :: u16 where "POLLERR = 0x08"
definition POLLHUP :: u16 where "POLLHUP = 0x10"

section \<open>Structures\<close>

record pollfd =
  pf_fd :: int
  pf_events :: u16
  pf_revents :: u16

record my_connection =
  mc_handler :: fnptr
  mc_handledata :: ptr
  mc_is_closing :: bool
  mc_sa :: sockaddr
  mc_sa_addrlen :: u32
  mc_len :: int
  mc_peeraddr :: string
  mc_peerport :: string

record pdispatcher =
  pd_connections :: ptr
  pd_list :: ptr
  pd_count :: u32
  pd_max :: u32

record echo_data =
  e_buf :: "u8 list"
  e_len :: int

datatype pobj =
    PDisp pdispatcher
  | PList "pollfd option list"
  | PConns "ptr option list"
  | PConn my_connection
  | PEcho echo_data

definition zero_my_connection :: my_connection where
  "zero_my_connection = \<lparr>mc_handler = 0, mc_handledata = Null, mc_is_closing = False, mc_sa = 0,
     mc_sa_addrlen = 0, mc_len = 0, mc_peeraddr = [], mc_peerport = []\<rparr>"

datatype pobs =
    Sys obs
  | Handle fnptr u32 int int
  | Send int "u8 list"

record 'w pstate =
  p_heap :: "pobj heap"
  p_world :: 'w
  p_trace :: "pobs list"

text \<open>
  The system calls of the select dispatcher, and those that only this one makes: \<open>poll\<close>, \<open>send\<close>,
  \<open>getaddrinfo\<close> with a host name, the length of an address, the clock, and what an uninitialised
  \<open>struct sockaddr_storage\<close> on the stack holds.
\<close>

record 'w pos = "'w os" +
  p_poll :: "(int \<times> u16) list \<Rightarrow> int \<Rightarrow> 'w \<Rightarrow> (int \<times> u16 list) \<times> 'w"
  p_send :: "int \<Rightarrow> u8 list \<Rightarrow> 'w \<Rightarrow> int \<times> 'w"
  p_getaddrinfo :: "string option \<Rightarrow> string option \<Rightarrow> 'w \<Rightarrow> (int \<times> addrinfo) \<times> 'w"
  p_addrlen :: "sockaddr \<Rightarrow> u32"
  p_clock :: "'w clock_os"
  p_uninit_sa :: "'w \<Rightarrow> sockaddr"

type_synonym 'w phandlers =
  "fnptr \<Rightarrow> ptr \<Rightarrow> u32 \<Rightarrow> int \<Rightarrow> int \<Rightarrow> ptr \<Rightarrow> 'w pstate \<Rightarrow> (int \<times> 'w pstate) outcome"

section \<open>Access\<close>

definition p_emit :: "pobs \<Rightarrow> 'w pstate \<Rightarrow> 'w pstate" where
  "p_emit a s = s\<lparr>p_trace := p_trace s @ [a]\<rparr>"

definition p_sys :: "('w \<Rightarrow> 'a \<times> 'w) \<Rightarrow> 'w pstate \<Rightarrow> 'a \<times> 'w pstate" where
  "p_sys f s = (case f (p_world s) of (r, w) \<Rightarrow> (r, s\<lparr>p_world := w\<rparr>))"

definition p_close :: "('w, 'm) pos_scheme \<Rightarrow> int \<Rightarrow> 'w pstate \<Rightarrow> 'w pstate" where
  "p_close os fd s = p_emit (Sys (Close fd)) (s\<lparr>p_world := os_close os fd (p_world s)\<rparr>)"

definition p_errstr :: "('w, 'm) pos_scheme \<Rightarrow> 'w pstate \<Rightarrow> string" where
  "p_errstr os s = strerror os (os_errno os (p_world s))"

definition p_err :: "string list \<Rightarrow> pobs" where
  "p_err parts = Sys (Err (concat parts @ newline))"

text \<open>
  The text of an error on Windows. \<open>FormatMessage\<close> allocates it and stores its address in \<open>buf\<close>, which it
  leaves alone when it fails. \<open>1 << 10\<close> is \<open>MAKELANGID(LANG_NEUTRAL, SUBLANG_DEFAULT)\<close>.
\<close>

definition sockets_strerror ::
  "(u32 \<Rightarrow> int \<Rightarrow> u32 \<Rightarrow> string option \<Rightarrow> 'w \<Rightarrow> string option \<times> 'w) \<Rightarrow> (string option \<Rightarrow> 'w \<Rightarrow> 'w) \<Rightarrow>
    int \<Rightarrow> 'w \<Rightarrow> string option \<times> 'w" where
  "sockets_strerror FormatMessage LocalFree err w =
     (let buf = None;
          w = (if buf \<noteq> None then LocalFree buf w else w);
          ALLOCATE_BUFFER = 0x100; FROM_SYSTEM = 0x1000; IGNORE_INSERTS = 0x200
      in FormatMessage (or (or ALLOCATE_BUFFER FROM_SYSTEM) IGNORE_INSERTS) err (push_bit 10 1) buf w)"

definition heap_at :: "ptr \<Rightarrow> 'w pstate \<Rightarrow> pobj outcome" where
  "heap_at p s =
     (case p of Null \<Rightarrow> raise Null_deref
      | Ptr b o' \<Rightarrow> (case live (p_heap s) b of None \<Rightarrow> raise Dangling
          | Some ob \<Rightarrow> if o' = 0 then ok ob else raise Dangling))"

definition heap_put :: "ptr \<Rightarrow> pobj \<Rightarrow> 'w pstate \<Rightarrow> 'w pstate" where
  "heap_put p ob s = s\<lparr>p_heap := (p_heap s)\<lparr>live := (live (p_heap s))(blk p \<mapsto> ob)\<rparr>\<rparr>"

definition pd_get :: "ptr \<Rightarrow> 'w pstate \<Rightarrow> pdispatcher outcome" where
  "pd_get d s = obind (heap_at d s) (\<lambda>ob. case ob of PDisp D \<Rightarrow> ok D | _ \<Rightarrow> raise Dangling)"

definition mc_get :: "ptr \<Rightarrow> 'w pstate \<Rightarrow> my_connection outcome" where
  "mc_get p s = obind (heap_at p s) (\<lambda>ob. case ob of PConn c \<Rightarrow> ok c | _ \<Rightarrow> raise Dangling)"

definition mc_upd :: "ptr \<Rightarrow> (my_connection \<Rightarrow> my_connection) \<Rightarrow> 'w pstate \<Rightarrow> 'w pstate outcome" where
  "mc_upd p f s = obind (mc_get p s) (\<lambda>c. ok (heap_put p (PConn (f c)) s))"

text \<open>The content of a cell, and a cell as it is (\<open>memcpy\<close> moves cells that nobody has written).\<close>

definition used :: "'a option \<Rightarrow> 'a outcome" where
  "used x = (case x of None \<Rightarrow> raise Uninitialised | Some y \<Rightarrow> ok y)"

definition poll_cell :: "ptr \<Rightarrow> nat \<Rightarrow> 'w pstate \<Rightarrow> pollfd option outcome" where
  "poll_cell p i s = obind (heap_at p s) (\<lambda>ob. case ob of
     PList xs \<Rightarrow> if i < length xs then ok (xs ! i) else raise Out_of_bounds | _ \<Rightarrow> raise Dangling)"

definition poll_put :: "ptr \<Rightarrow> nat \<Rightarrow> pollfd option \<Rightarrow> 'w pstate \<Rightarrow> 'w pstate outcome" where
  "poll_put p i x s = obind (heap_at p s) (\<lambda>ob. case ob of
     PList xs \<Rightarrow> if i < length xs then ok (heap_put p (PList (xs[i := x])) s) else raise Out_of_bounds
   | _ \<Rightarrow> raise Dangling)"

definition conn_cell :: "ptr \<Rightarrow> nat \<Rightarrow> 'w pstate \<Rightarrow> ptr option outcome" where
  "conn_cell p i s = obind (heap_at p s) (\<lambda>ob. case ob of
     PConns xs \<Rightarrow> if i < length xs then ok (xs ! i) else raise Out_of_bounds | _ \<Rightarrow> raise Dangling)"

definition conn_put :: "ptr \<Rightarrow> nat \<Rightarrow> ptr option \<Rightarrow> 'w pstate \<Rightarrow> 'w pstate outcome" where
  "conn_put p i x s = obind (heap_at p s) (\<lambda>ob. case ob of
     PConns xs \<Rightarrow> if i < length xs then ok (heap_put p (PConns (xs[i := x])) s) else raise Out_of_bounds
   | _ \<Rightarrow> raise Dangling)"

definition p_malloc :: "('w, 'm) pos_scheme \<Rightarrow> u64 \<Rightarrow> pobj \<Rightarrow> 'w pstate \<Rightarrow> ptr \<times> 'w pstate" where
  "p_malloc os n ob s = (case c_malloc (os_alloc os) n ob (p_heap s) of (p, h) \<Rightarrow> (p, s\<lparr>p_heap := h\<rparr>))"

definition p_free :: "ptr \<Rightarrow> 'w pstate \<Rightarrow> 'w pstate outcome" where
  "p_free p s = obind (c_free p (p_heap s)) (\<lambda>h. ok (s\<lparr>p_heap := h\<rparr>))"

definition grow :: "nat \<Rightarrow> pobj \<Rightarrow> pobj" where
  "grow n ob = (case ob of
     PList xs \<Rightarrow> PList (take n xs @ replicate (n - length xs) None)
   | PConns xs \<Rightarrow> PConns (take n xs @ replicate (n - length xs) None)
   | _ \<Rightarrow> ob)"

definition p_realloc :: "('w, 'm) pos_scheme \<Rightarrow> ptr \<Rightarrow> u32 \<Rightarrow> pobj \<Rightarrow> 'w pstate \<Rightarrow> (ptr \<times> 'w pstate) outcome" where
  "p_realloc os p n ob s =
     obind (c_realloc (os_alloc os) p (ucast n * 8) (grow (unat n)) ob (p_heap s)) (\<lambda>(p, h).
       ok (p, s\<lparr>p_heap := h\<rparr>))"

section \<open>Creation\<close>

definition dispatcher_create_poll :: "('w, 'm) pos_scheme \<Rightarrow> 'w pstate \<Rightarrow> (ptr \<times> 'w pstate) outcome" where
  "dispatcher_create_poll os s =
     (let (d, s) = p_malloc os 24 (PDisp \<lparr>pd_connections = Null, pd_list = Null, pd_count = 0, pd_max = 1\<rparr>) s in
      if d = Null then raise Null_deref else
      let (list, s) = p_malloc os 8 (PList [None]) s;
          (conns, s) = p_malloc os 8 (PConns [None]) s;
          s = heap_put d (PDisp \<lparr>pd_connections = conns, pd_list = list, pd_count = 0, pd_max = 1\<rparr>) s;
          (c, s) = p_malloc os 752 (PConn zero_my_connection) s in
      obind (conn_put conns 0 (Some c) s) (\<lambda>s.
      if c = Null then raise Null_deref else ok (d, s)))"

section \<open>Removal\<close>

definition dispatcher_close_connection :: "ptr \<Rightarrow> u32 \<Rightarrow> 'w pstate \<Rightarrow> 'w pstate outcome" where
  "dispatcher_close_connection d index s =
     obind (pd_get d s) (\<lambda>D.
     obind (conn_cell (pd_connections D) (unat index) s) (\<lambda>x. obind (used x) (\<lambda>c.
     mc_upd c (\<lambda>c. c\<lparr>mc_is_closing := True\<rparr>) s)))"

definition dispatcher_remove_at :: "('w, 'm) pos_scheme \<Rightarrow> ptr \<Rightarrow> u64 \<Rightarrow> 'w pstate \<Rightarrow> 'w pstate outcome" where
  "dispatcher_remove_at os d index s =
     obind (pd_get d s) (\<lambda>D.
     obind (conn_cell (pd_connections D) (unat index) s) (\<lambda>x. obind (used x) (\<lambda>c.
     obind (poll_cell (pd_list D) (unat index) s) (\<lambda>y. obind (used y) (\<lambda>p.
     obind (if pf_fd p > 0
            then poll_put (pd_list D) (unat index) (Some (p\<lparr>pf_fd := -1\<rparr>)) (p_close os (pf_fd p) s)
            else ok s) (\<lambda>s.
     obind (p_free c s) (\<lambda>s.
     let last = ucast (pd_count D - 1) :: u64 in
     obind (if last > index
            then obind (poll_cell (pd_list D) (unat last) s) (\<lambda>y.
                 obind (poll_put (pd_list D) (unat index) y s) (\<lambda>s.
                 obind (conn_cell (pd_connections D) (unat last) s) (\<lambda>x.
                 conn_put (pd_connections D) (unat index) x s)))
            else ok s) (\<lambda>s.
     ok (heap_put d (PDisp (D\<lparr>pd_count := pd_count D - 1\<rparr>)) s)))))))))"

partial_function (option) destroy_loop :: "('w, 'm) pos_scheme \<Rightarrow> ptr \<Rightarrow> 'w pstate \<Rightarrow> 'w pstate outcome" where
  "destroy_loop os d s =
     obind (pd_get d s) (\<lambda>D.
     if pd_count D \<noteq> 0
     then obind (dispatcher_remove_at os d (ucast (pd_count D - 1)) s) (\<lambda>s. destroy_loop os d s)
     else ok s)"

declare destroy_loop.simps [code]

text \<open>The dispatcher's own structure is not freed.\<close>

definition dispatcher_destroy_poll :: "('w, 'm) pos_scheme \<Rightarrow> ptr \<Rightarrow> 'w pstate \<Rightarrow> 'w pstate outcome" where
  "dispatcher_destroy_poll os d s =
     obind (destroy_loop os d s) (\<lambda>s.
     obind (pd_get d s) (\<lambda>D.
     obind (p_free (pd_list D) s) (\<lambda>s.
     p_free (pd_connections D) s)))"

section \<open>Dispatching\<close>

definition call_handler ::
  "'w phandlers \<Rightarrow> fnptr \<Rightarrow> ptr \<Rightarrow> u32 \<Rightarrow> int \<Rightarrow> int \<Rightarrow> ptr \<Rightarrow> 'w pstate \<Rightarrow> 'w pstate outcome" where
  "call_handler hs f d i fd event handledata s =
     (if f = 0 then raise Null_deref
      else obind (hs f d i fd event handledata (p_emit (Handle f i fd event) s)) (\<lambda>(r, s). ok s))"

text \<open>\<open>c->handler(d, i, d->list[i].fd, event, c->handledata)\<close>\<close>

definition poll_notify :: "'w phandlers \<Rightarrow> ptr \<Rightarrow> u32 \<Rightarrow> ptr \<Rightarrow> int \<Rightarrow> 'w pstate \<Rightarrow> 'w pstate outcome" where
  "poll_notify hs d i c event s =
     obind (mc_get c s) (\<lambda>C.
     obind (pd_get d s) (\<lambda>D.
     obind (poll_cell (pd_list D) (unat i) s) (\<lambda>y. obind (used y) (\<lambda>p.
     call_handler hs (mc_handler C) d i (pf_fd p) event (mc_handledata C) s))))"

definition remove_and_stay :: "('w, 'm) pos_scheme \<Rightarrow> ptr \<Rightarrow> u32 \<Rightarrow> 'w pstate \<Rightarrow> (u32 \<times> 'w pstate) outcome" where
  "remove_and_stay os d i s = obind (dispatcher_remove_at os d (ucast i) s) (\<lambda>s. ok (i - 1 + 1, s))"

definition remove_if_closing :: "('w, 'm) pos_scheme \<Rightarrow> ptr \<Rightarrow> u32 \<Rightarrow> ptr \<Rightarrow> 'w pstate \<Rightarrow> (u32 \<times> 'w pstate) outcome" where
  "remove_if_closing os d i c s =
     obind (mc_get c s) (\<lambda>C. if mc_is_closing C then remove_and_stay os d i s else ok (i + 1, s))"

fun show_hex :: "nat \<Rightarrow> string" where
  "show_hex n = (let c = (if n mod 16 < 10 then digit_char (n mod 16) else char_of (87 + n mod 16))
                 in if n < 16 then [c] else show_hex (n div 16) @ [c])"

declare show_hex.simps [simp del]

text \<open>One round of the loop. It returns the index of the next round.\<close>

definition poll_one :: "('w, 'm) pos_scheme \<Rightarrow> 'w phandlers \<Rightarrow> ptr \<Rightarrow> u32 \<Rightarrow> 'w pstate \<Rightarrow> (u32 \<times> 'w pstate) outcome" where
  "poll_one os hs d i s =
     obind (pd_get d s) (\<lambda>D.
     obind (conn_cell (pd_connections D) (unat i) s) (\<lambda>x. obind (used x) (\<lambda>c.
     obind (poll_cell (pd_list D) (unat i) s) (\<lambda>y. obind (used y) (\<lambda>p.
     let revents = pf_revents p in
     if revents = 0 then ok (i + 1, s)
     else if and revents POLLHUP \<noteq> 0 then
       obind (poll_notify hs d i c DISPATCH_CLOSED s) (\<lambda>s. remove_and_stay os d i s)
     else if and revents POLLERR \<noteq> 0 then
       obind (poll_notify hs d i c DISPATCH_ERRORED s) (\<lambda>s.
       obind (poll_notify hs d i c DISPATCH_CLOSED s) (\<lambda>s. remove_and_stay os d i s))
     else if and revents POLLIN \<noteq> 0 then
       obind (poll_notify hs d i c DISPATCH_READABLE s) (\<lambda>s. remove_if_closing os d i c s)
     else if and revents POLLOUT \<noteq> 0 then
       obind (poll_notify hs d i c DISPATCH_WRITEABLE s) (\<lambda>s. remove_if_closing os d i c s)
     else
       obind (mc_get c s) (\<lambda>C.
       let s = p_emit (p_err [''[-] poll(['', mc_peeraddr C, '']:'', mc_peerport C, ''): unknown event['',
             show_int (sint i), ''] 0x'', show_hex (unat (scast revents :: u32))]) s in
       obind (poll_notify hs d i c DISPATCH_CLOSED s) (\<lambda>s. remove_and_stay os d i s)))))))"

partial_function (option) poll_loop ::
  "('w, 'm) pos_scheme \<Rightarrow> 'w phandlers \<Rightarrow> ptr \<Rightarrow> u32 \<Rightarrow> 'w pstate \<Rightarrow> 'w pstate outcome" where
  "poll_loop os hs d i s =
     obind (pd_get d s) (\<lambda>D.
     if i < pd_count D then obind (poll_one os hs d i s) (\<lambda>(j, s). poll_loop os hs d j s) else ok s)"

declare poll_loop.simps [code]

text \<open>The system reads the first \<open>count\<close> cells of the list and writes \<open>revents\<close> into them.\<close>

definition poll_read :: "ptr \<Rightarrow> nat \<Rightarrow> 'w pstate \<Rightarrow> pollfd list outcome" where
  "poll_read p n s = obind (heap_at p s) (\<lambda>ob. case ob of
     PList xs \<Rightarrow> if length xs < n then raise Out_of_bounds
       else if None \<in> set (take n xs) then raise Uninitialised else ok (map the (take n xs))
   | _ \<Rightarrow> raise Dangling)"

definition poll_write :: "ptr \<Rightarrow> pollfd list \<Rightarrow> u16 list \<Rightarrow> 'w pstate \<Rightarrow> 'w pstate outcome" where
  "poll_write p fds rs s = obind (heap_at p s) (\<lambda>ob. case ob of
     PList xs \<Rightarrow> ok (heap_put p (PList (map (\<lambda>(x, r). Some (x\<lparr>pf_revents := r\<rparr>))
         (zip fds (rs @ replicate (length fds - length rs) 0)) @ drop (length fds) xs)) s)
   | _ \<Rightarrow> raise Dangling)"

definition dispatcher_dispatch_poll ::
  "('w, 'm) pos_scheme \<Rightarrow> 'w phandlers \<Rightarrow> ptr \<Rightarrow> int \<Rightarrow> 'w pstate \<Rightarrow> (int \<times> 'w pstate) outcome" where
  "dispatcher_dispatch_poll os hs d wait_milliseconds s =
     obind (if d = Null then ok True else obind (pd_get d s) (\<lambda>D. ok (pd_count D = 0))) (\<lambda>nothing.
     if nothing
     then (case pixie_mssleep (p_clock os) (word_of_int wait_milliseconds) (p_world s) of
             None \<Rightarrow> None | Some w \<Rightarrow> ok (-1, s\<lparr>p_world := w\<rparr>))
     else
     obind (pd_get d s) (\<lambda>D.
     obind (poll_read (pd_list D) (unat (pd_count D)) s) (\<lambda>fds.
     let ((err, rs), s) = p_sys (p_poll os (map (\<lambda>p. (pf_fd p, pf_events p)) fds) wait_milliseconds) s in
     obind (poll_write (pd_list D) fds rs s) (\<lambda>s.
     if err = -1 then
       (if os_errno os (p_world s) = EINTR then ok (0, s)
        else ok (-1, p_emit (p_err [''[-] poll(): '', p_errstr os s]) s))
     else if err = 0 then ok (0, s)
     else obind (poll_loop os hs d 0 s) (\<lambda>s. ok (0, s))))))"

definition dispatcher_set_event :: "ptr \<Rightarrow> u32 \<Rightarrow> int \<Rightarrow> 'w pstate \<Rightarrow> 'w pstate outcome" where
  "dispatcher_set_event d index state s =
     (if state = DISPATCH_READABLE \<or> state = DISPATCH_WRITEABLE then
        obind (pd_get d s) (\<lambda>D.
        obind (poll_cell (pd_list D) (unat index) s) (\<lambda>y. obind (used y) (\<lambda>p.
        poll_put (pd_list D) (unat index) (Some (p\<lparr>pf_events := (if state = DISPATCH_READABLE then POLLIN else POLLOUT),
          pf_revents := 0\<rparr>)) s)))
      else raise (Exited 1))"

definition dispatcher_set_userdata :: "ptr \<Rightarrow> u32 \<Rightarrow> ptr \<Rightarrow> 'w pstate \<Rightarrow> 'w pstate outcome" where
  "dispatcher_set_userdata d index handledata s =
     obind (pd_get d s) (\<lambda>D.
     obind (conn_cell (pd_connections D) (unat index) s) (\<lambda>x. obind (used x) (\<lambda>c.
     mc_upd c (\<lambda>c. c\<lparr>mc_handledata := handledata\<rparr>) s)))"

section \<open>Adding a connection\<close>

text \<open>
  The arguments \<open>handler\<close> and \<open>handlerdata\<close> are not used. \<open>getnameinfo\<close> fails rather than write more than
  the two buffers hold.
\<close>

definition conn_fill :: "('w, 'm) pos_scheme \<Rightarrow> ptr \<Rightarrow> sockaddr \<Rightarrow> u64 \<Rightarrow> 'w pstate \<Rightarrow> 'w pstate outcome" where
  "conn_fill os c sa sa_addrlen s =
     obind (mc_upd c (\<lambda>c. c\<lparr>mc_len := 0, mc_sa_addrlen := ucast sa_addrlen\<rparr>) s) (\<lambda>s.
     if sa_addrlen > 128 then raise Out_of_bounds else
     obind (mc_upd c (\<lambda>c. c\<lparr>mc_sa := sa\<rparr>) s) (\<lambda>s.
     let ((err, host, port), s) = p_sys (os_getnameinfo os sa) s in
     if err = 0 then mc_upd c (\<lambda>c. c\<lparr>mc_peeraddr := host, mc_peerport := port\<rparr>) s
     else mc_upd c (\<lambda>c. c\<lparr>mc_peeraddr := ''err'', mc_peerport := ''err''\<rparr>)
            (p_emit (p_err [''[-] getnameinfo(): '', gai_strerror os err]) s)))"

definition dispatcher_add_connection ::
  "('w, 'm) pos_scheme \<Rightarrow> ptr \<Rightarrow> int \<Rightarrow> sockaddr \<Rightarrow> u64 \<Rightarrow> fnptr \<Rightarrow> ptr \<Rightarrow> 'w pstate \<Rightarrow> 'w pstate outcome" where
  "dispatcher_add_connection os d fd sa sa_addrlen handler handlerdata s =
     obind (pd_get d s) (\<lambda>D.
     obind (poll_put (pd_list D) (unat (pd_count D)) (Some \<lparr>pf_fd = fd, pf_events = POLLIN, pf_revents = 0\<rparr>) s) (\<lambda>s.
     obind (conn_cell (pd_connections D) (unat (pd_count D)) s) (\<lambda>x. obind (used x) (\<lambda>c.
     obind (conn_fill os c sa sa_addrlen s) (\<lambda>s.
     let D = D\<lparr>pd_count := pd_count D + 1\<rparr>; s = heap_put d (PDisp D) s in
     if pd_count D \<ge> pd_max D then
       let D = D\<lparr>pd_max := pd_max D + 1\<rparr> in
       obind (p_realloc os (pd_list D) (pd_max D) (PList (replicate (unat (pd_max D)) None)) s) (\<lambda>(list, s).
       obind (p_realloc os (pd_connections D) (pd_max D) (PConns (replicate (unat (pd_max D)) None)) s) (\<lambda>(conns, s).
       ok (heap_put d (PDisp (D\<lparr>pd_list := list, pd_connections := conns\<rparr>)) s)))
     else ok s)))))"

section \<open>Servers\<close>

definition server_cleanup :: "('w, 'm) pos_scheme \<Rightarrow> int \<Rightarrow> addrinfo option \<Rightarrow> 'w pstate \<Rightarrow> (int \<times> 'w pstate) outcome" where
  "server_cleanup os fd ai s =
     (let s = (if fd \<noteq> -1 then p_close os fd s else s) in
      ok (-1, case ai of None \<Rightarrow> s | Some ai \<Rightarrow> p_emit (Sys (Freeaddrinfo ai)) s))"

definition host_port :: "string \<Rightarrow> string \<Rightarrow> string" where
  "host_port host port = ''(['' @ host @ '']:'' @ port @ ''): ''"

definition dispatcher_register_server ::
  "('w, 'm) pos_scheme \<Rightarrow> ptr \<Rightarrow> string option \<Rightarrow> string option \<Rightarrow> fnptr \<Rightarrow> ptr \<Rightarrow> 'w pstate \<Rightarrow> (int \<times> 'w pstate) outcome" where
  "dispatcher_register_server os d addrname portname handler handledata s =
     (let ((err, ai), s) = p_sys (p_getaddrinfo os addrname portname) s in
      if err \<noteq> 0
      then server_cleanup os (-1) None (p_emit (p_err [''[-] getaddrinfo(): '', gai_strerror os err]) s) else
      let s = p_emit (Sys (Getaddrinfo ai)) s;
          ((err, hostaddr, hostport), s) = p_sys (os_getnameinfo os (ai_addr ai)) s in
      if err \<noteq> 0
      then server_cleanup os (-1) (Some ai) (p_emit (p_err [''[-] getnameinfo(): '', gai_strerror os err]) s) else
      let (fd, s) = p_sys (os_socket os (ai_family ai)) s in
      if fd = -1
      then server_cleanup os fd (Some ai) (p_emit (p_err [''[-] socket(): '', p_errstr os s]) s) else
      let s = p_emit (Sys (Socket fd)) s;
          (err, s) = p_sys (os_reuseaddr os fd) s;
          s = (if err \<noteq> 0
               then p_emit (p_err [''[-] SO_REUSEADDR'', host_port hostaddr hostport, p_errstr os s]) s else s);
          (err, s) = p_sys (os_reuseport os fd) s in
      if err \<noteq> 0
      then server_cleanup os fd (Some ai)
             (p_emit (p_err [''[-] SO_REUSEPORT'', host_port hostaddr hostport, p_errstr os s]) s) else
      let (err, s) = p_sys (os_bind os fd (ai_addr ai)) s in
      if err \<noteq> 0
      then server_cleanup os fd (Some ai)
             (p_emit (p_err [''[-] bind'', host_port hostaddr hostport, p_errstr os s]) s) else
      let (err, s) = p_sys (os_listen os fd 10) s in
      if err \<noteq> 0
      then server_cleanup os fd (Some ai)
             (p_emit (p_err [''[-] listen'', host_port hostaddr hostport, p_errstr os s]) s) else
      let s = p_emit (p_err [''[+] listening on ['', hostaddr, '']:'', hostport]) s in
      obind (dispatcher_add_connection os d fd (ai_addr ai) (ucast (p_addrlen os (ai_addr ai))) handler handledata s)
        (\<lambda>s. ok (0, s)))"

text \<open>The two functions that print have empty bodies.\<close>

definition dispatcher_print_error :: "ptr \<Rightarrow> u32 \<Rightarrow> int \<Rightarrow> string \<Rightarrow> 'w pstate \<Rightarrow> 'w pstate" where
  "dispatcher_print_error d index err msg s = s"

definition dispatcher_print_info :: "ptr \<Rightarrow> u32 \<Rightarrow> int \<Rightarrow> string \<Rightarrow> 'w pstate \<Rightarrow> 'w pstate" where
  "dispatcher_print_info d index level msg s = s"

end
