(* ===== verification/Echo_Service.thy ===== *)
theory Echo_Service
  imports Poll_Dispatcher
begin

text \<open>
  \<^verbatim>\<open>builtin-echo.c\<close>: the two handlers of the echo service over the poll dispatcher. As function
  pointers they are numbered 1 (connection) and 2 (listener). The buffer of a new \<open>struct echo_data\<close>
  holds zeros here; the code never reads a byte of it that \<open>recv\<close> has not written.
\<close>

definition echo_get :: "ptr \<Rightarrow> 'w pstate \<Rightarrow> echo_data outcome" where
  "echo_get p s = obind (heap_at p s) (\<lambda>ob. case ob of PEcho e \<Rightarrow> ok e | _ \<Rightarrow> raise Dangling)"

definition ECHO_SIZE :: nat where
  "ECHO_SIZE = 2048"

text \<open>\<open>recv\<close> overwrites the front of the buffer; \<open>memmove\<close> moves the unsent rest to the front.\<close>

definition buf_recv :: "u8 list \<Rightarrow> u8 list \<Rightarrow> u8 list" where
  "buf_recv bytes buf = bytes @ drop (length bytes) buf"

definition buf_shift :: "nat \<Rightarrow> nat \<Rightarrow> u8 list \<Rightarrow> u8 list" where
  "buf_shift count len buf = take (len - count) (drop count buf) @ drop (len - count) buf"

definition echo_created :: "('w, 'm) pos_scheme \<Rightarrow> ptr \<Rightarrow> u32 \<Rightarrow> ptr \<Rightarrow> 'w pstate \<Rightarrow> 'w pstate outcome" where
  "echo_created os d index data s =
     (if data = Null then
        let (data, s) = p_malloc os 2056 (PEcho \<lparr>e_buf = replicate ECHO_SIZE 0, e_len = 0\<rparr>) s in
        if data = Null then raise Null_deref else dispatcher_set_userdata d index data s
      else ok s)"

definition echo_writeable :: "('w, 'm) pos_scheme \<Rightarrow> ptr \<Rightarrow> u32 \<Rightarrow> int \<Rightarrow> ptr \<Rightarrow> 'w pstate \<Rightarrow> 'w pstate outcome" where
  "echo_writeable os d index fd data s =
     obind (echo_get data s) (\<lambda>e.
     if e_len e < 0 \<or> int ECHO_SIZE < e_len e then raise Out_of_bounds else
     let n = nat (e_len e);
         (count, s) = p_sys (p_send os fd (take n (e_buf e))) s;
         s = p_emit (Send fd (take (nat count) (take n (e_buf e)))) s in
     if count < 0 then
       dispatcher_close_connection d index
         (dispatcher_print_error d index (os_errno os (p_world s)) ''send(-1)'' s)
     else if count < e_len e then
       dispatcher_set_event d index DISPATCH_WRITEABLE
         (heap_put data (PEcho \<lparr>e_buf = buf_shift (nat count) n (e_buf e), e_len = e_len e - count\<rparr>) s)
     else
       dispatcher_set_event d index DISPATCH_READABLE (heap_put data (PEcho (e\<lparr>e_len := 0\<rparr>)) s))"

definition echo_readable :: "('w, 'm) pos_scheme \<Rightarrow> ptr \<Rightarrow> u32 \<Rightarrow> int \<Rightarrow> ptr \<Rightarrow> 'w pstate \<Rightarrow> 'w pstate outcome" where
  "echo_readable os d index fd data s =
     obind (echo_get data s) (\<lambda>e.
     let (r, s) = p_sys (os_recv os fd ECHO_SIZE) s in
     case r of
       None \<Rightarrow>
         dispatcher_close_connection d index
           (dispatcher_print_error d index (os_errno os (p_world s)) ''recv(-1)''
             (heap_put data (PEcho (e\<lparr>e_len := -1\<rparr>)) s))
     | Some [] \<Rightarrow>
         dispatcher_close_connection d index
           (dispatcher_print_info d index 0 ''RECV(0)'' (heap_put data (PEcho (e\<lparr>e_len := 0\<rparr>)) s))
     | Some bytes \<Rightarrow>
         echo_writeable os d index fd data
           (heap_put data (PEcho \<lparr>e_buf = buf_recv bytes (e_buf e), e_len = int (length bytes)\<rparr>) s))"

definition echo_errored :: "('w, 'm) pos_scheme \<Rightarrow> ptr \<Rightarrow> u32 \<Rightarrow> int \<Rightarrow> 'w pstate \<Rightarrow> 'w pstate" where
  "echo_errored os d index fd s =
     (let (r, s) = p_sys (os_so_error os fd) s in
      case r of
        None \<Rightarrow> dispatcher_print_error d index (os_errno os (p_world s)) ''getsockopt(impossible)'' s
      | Some opt \<Rightarrow> dispatcher_print_error d index opt ''error'' s)"

definition builtin_handler_echo_connection ::
  "('w, 'm) pos_scheme \<Rightarrow> ptr \<Rightarrow> u32 \<Rightarrow> int \<Rightarrow> int \<Rightarrow> ptr \<Rightarrow> 'w pstate \<Rightarrow> (int \<times> 'w pstate) outcome" where
  "builtin_handler_echo_connection os d index fd event data s =
     obind
       (if event = DISPATCH_CREATED then echo_created os d index data s
        else if event = DISPATCH_CLOSED then
          p_free data (dispatcher_print_info d (word_of_int fd) 0 ''connection closed gracefully'' s)
        else if event = DISPATCH_ERRORED then ok (echo_errored os d index fd s)
        else if event = DISPATCH_READABLE then echo_readable os d index fd data s
        else if event = DISPATCH_WRITEABLE then echo_writeable os d index fd data s
        else ok s)
       (\<lambda>s. ok (0, s))"

definition EMFILE :: int where
  "EMFILE = 24"

text \<open>The descriptor that goes to the dispatcher is the listener's own, not the accepted one.\<close>

definition builtin_echo_listen ::
  "('w, 'm) pos_scheme \<Rightarrow> ptr \<Rightarrow> u32 \<Rightarrow> int \<Rightarrow> int \<Rightarrow> ptr \<Rightarrow> 'w pstate \<Rightarrow> (int \<times> 'w pstate) outcome" where
  "builtin_echo_listen os d index fd event data s =
     (if event = DISPATCH_READABLE \<or> event = DISPATCH_WRITEABLE then
        let ((fd2, sa), s) = p_sys (os_accept os fd) s in
        if fd2 = -1 then
          let s = dispatcher_print_error d (word_of_int fd) (os_errno os (p_world s)) ''accept(echo)'' s in
          ok (0, if os_errno os (p_world s) = EMFILE
                 then p_emit (p_err [''[-] HINT: use '', [CHR 0x27], ''ulimit -n <n>'', [CHR 0x27], '' to raise limits'']) s else s)
        else
          obind (dispatcher_add_connection os d fd sa (ucast (p_addrlen os sa)) 1 Null (p_emit (Sys (Accept fd2)) s))
            (\<lambda>s. ok (0, s))
      else
        obind (dispatcher_add_connection os d fd (p_uninit_sa os (p_world s)) 128 1 Null s) (\<lambda>s. ok (0, s)))"

definition echo_handlers :: "('w, 'm) pos_scheme \<Rightarrow> 'w phandlers" where
  "echo_handlers os f d index fd event data s =
     (if f = 1 then builtin_handler_echo_connection os d index fd event data s
      else if f = 2 then builtin_echo_listen os d index fd event data s
      else raise Dangling)"

end
