(* ===== verification/Poll_Lists.thy ===== *)
theory Poll_Lists
  imports Echo_Service
begin

text \<open>
  What a poll dispatcher stands for: the list of its descriptors with the blocks of their
  connections. \<open>polled d xs s\<close> says that the two parallel arrays of the dispatcher in block \<open>d\<close> hold
  \<open>xs\<close> in their first \<open>count\<close> cells.
\<close>

definition polled :: "nat \<Rightarrow> (pollfd \<times> nat) list \<Rightarrow> 'w pstate \<Rightarrow> bool" where
  "polled d xs s \<longleftrightarrow> (\<exists>D a b ys zs. live (p_heap s) d = Some (PDisp D) \<and>
     pd_list D = Ptr a 0 \<and> live (p_heap s) a = Some (PList ys) \<and>
     pd_connections D = Ptr b 0 \<and> live (p_heap s) b = Some (PConns zs) \<and>
     unat (pd_count D) = length xs \<and> length xs \<le> length ys \<and> length xs \<le> length zs \<and>
     (\<forall>i < length xs. ys ! i = Some (fst (xs ! i)) \<and> zs ! i = Some (Ptr (snd (xs ! i)) 0))) \<and>
   distinct (map snd xs) \<and> (\<forall>x \<in> set xs. \<exists>C. live (p_heap s) (snd x) = Some (PConn C))"

lemma polledE:
  assumes "polled d xs s"
  obtains D a b ys zs where "live (p_heap s) d = Some (PDisp D)"
    "pd_list D = Ptr a 0" "live (p_heap s) a = Some (PList ys)"
    "pd_connections D = Ptr b 0" "live (p_heap s) b = Some (PConns zs)"
    "unat (pd_count D) = length xs" "length xs \<le> length ys" "length xs \<le> length zs"
    "\<And>i. i < length xs \<Longrightarrow> ys ! i = Some (fst (xs ! i))"
    "\<And>i. i < length xs \<Longrightarrow> zs ! i = Some (Ptr (snd (xs ! i)) 0)"
    "distinct (map snd xs)" "\<And>x. x \<in> set xs \<Longrightarrow> \<exists>C. live (p_heap s) (snd x) = Some (PConn C)"
  using assms unfolding polled_def by blast

lemma polledI:
  assumes "live (p_heap s) d = Some (PDisp D)"
    "pd_list D = Ptr a 0" "live (p_heap s) a = Some (PList ys)"
    "pd_connections D = Ptr b 0" "live (p_heap s) b = Some (PConns zs)"
    "unat (pd_count D) = length xs" "length xs \<le> length ys" "length xs \<le> length zs"
    "\<And>i. i < length xs \<Longrightarrow> ys ! i = Some (fst (xs ! i))"
    "\<And>i. i < length xs \<Longrightarrow> zs ! i = Some (Ptr (snd (xs ! i)) 0)"
    "distinct (map snd xs)" "\<And>x. x \<in> set xs \<Longrightarrow> \<exists>C. live (p_heap s) (snd x) = Some (PConn C)"
  shows "polled d xs s"
  using assms unfolding polled_def by blast

section \<open>Access\<close>

lemma heap_at_ok [simp]: "live (p_heap s) b = Some ob \<Longrightarrow> heap_at (Ptr b 0) s = ok ob"
  by (simp add: heap_at_def)

lemma pd_get_ok [simp]: "live (p_heap s) b = Some (PDisp D) \<Longrightarrow> pd_get (Ptr b 0) s = ok D"
  by (simp add: pd_get_def)

lemma mc_get_ok [simp]: "live (p_heap s) b = Some (PConn C) \<Longrightarrow> mc_get (Ptr b 0) s = ok C"
  by (simp add: mc_get_def)

lemma mc_upd_ok [simp]:
  "live (p_heap s) b = Some (PConn C) \<Longrightarrow> mc_upd (Ptr b 0) f s = ok (heap_put (Ptr b 0) (PConn (f C)) s)"
  by (simp add: mc_upd_def)

lemma poll_cell_ok [simp]:
  "live (p_heap s) b = Some (PList ys) \<Longrightarrow> i < length ys \<Longrightarrow> poll_cell (Ptr b 0) i s = ok (ys ! i)"
  "live (p_heap s) b = Some (PList ys) \<Longrightarrow> i < length ys \<Longrightarrow>
     poll_put (Ptr b 0) i x s = ok (heap_put (Ptr b 0) (PList (ys[i := x])) s)"
  by (simp_all add: poll_cell_def poll_put_def)

lemma conn_cell_ok [simp]:
  "live (p_heap s) b = Some (PConns zs) \<Longrightarrow> i < length zs \<Longrightarrow> conn_cell (Ptr b 0) i s = ok (zs ! i)"
  "live (p_heap s) b = Some (PConns zs) \<Longrightarrow> i < length zs \<Longrightarrow>
     conn_put (Ptr b 0) i y s = ok (heap_put (Ptr b 0) (PConns (zs[i := y])) s)"
  by (simp_all add: conn_cell_def conn_put_def)

lemma used_simps [simp]: "used (Some x) = ok x" "used None = raise Uninitialised"
  by (simp_all add: used_def)

lemma p_free_ok [simp]:
  "live (p_heap s) b = Some ob \<Longrightarrow> p_free (Ptr b 0) s = ok (s\<lparr>p_heap := (p_heap s)\<lparr>live := (live (p_heap s))(b := None)\<rparr>\<rparr>)"
  by (simp add: p_free_def c_free_def)

lemma heap_put_simps [simp]:
  "p_heap (heap_put p ob s) = (p_heap s)\<lparr>live := (live (p_heap s))(blk p \<mapsto> ob)\<rparr>"
  "p_trace (heap_put p ob s) = p_trace s" "p_world (heap_put p ob s) = p_world s"
  by (simp_all add: heap_put_def)

lemma p_close_simps [simp]:
  "p_heap (p_close os fd s) = p_heap s" "p_trace (p_close os fd s) = p_trace s @ [Sys (Close fd)]"
  by (simp_all add: p_close_def p_emit_def)

lemma p_emit_simps [simp]:
  "p_heap (p_emit a s) = p_heap s" "p_trace (p_emit a s) = p_trace s @ [a]" "p_world (p_emit a s) = p_world s"
  by (simp_all add: p_emit_def)

section \<open>Removal\<close>

definition closes :: "pollfd \<Rightarrow> pobs list" where
  "closes p = (if 0 < pf_fd p then [Sys (Close (pf_fd p))] else [])"

text \<open>Closing the descriptor leaves a list that differs in cell \<open>i\<close> at most.\<close>

lemma close_cell:
  assumes "live (p_heap s) a = Some (PList ys)" "i < length ys"
  shows "\<exists>s' ys'. (if 0 < pf_fd p then poll_put (Ptr a 0) i (Some (p\<lparr>pf_fd := -1\<rparr>)) (p_close os (pf_fd p) s) else ok s) = ok s' \<and>
    live (p_heap s') = (live (p_heap s))(a \<mapsto> PList ys') \<and> length ys' = length ys \<and>
    (\<forall>j. j \<noteq> i \<longrightarrow> ys' ! j = ys ! j) \<and> p_trace s' = p_trace s @ closes p"
proof (cases "0 < pf_fd p")
  case True
  then show ?thesis
    using assms
    by (intro exI [of _ "heap_put (Ptr a 0) (PList (ys[i := Some (p\<lparr>pf_fd := -1\<rparr>)])) (p_close os (pf_fd p) s)"]
        exI [of _ "ys[i := Some (p\<lparr>pf_fd := -1\<rparr>)]"]) (simp add: closes_def)
next
  case False
  then show ?thesis
    using assms by (intro exI [of _ s] exI [of _ ys]) (simp add: closes_def fun_upd_idem)
qed

text \<open>Moving the last of \<open>n\<close> cells into cell \<open>i\<close>.\<close>

definition fill_gap :: "nat \<Rightarrow> nat \<Rightarrow> 'a list \<Rightarrow> 'a list" where
  "fill_gap i n xs = (if i < n - 1 then xs[i := xs ! (n - 1)] else xs)"

lemma length_fill_gap [simp]: "length (fill_gap i n xs) = length xs"
  by (simp add: fill_gap_def)

lemma fill_gap_swap_remove:
  assumes "length xs \<le> length ys" "\<And>j. j < length xs \<Longrightarrow> j \<noteq> i \<Longrightarrow> ys ! j = f (xs ! j)" "i < length xs"
    and "j < length (swap_remove i xs)"
  shows "fill_gap i (length xs) ys ! j = f (swap_remove i xs ! j)"
proof -
  have j: "j < length xs - 1" using assms(4) by simp
  have "last xs = xs ! (length xs - 1)"
    using assms(3) by (intro last_conv_nth) auto
  then show ?thesis
    using assms(1,3) j assms(2) [of j] assms(2) [of "length xs - 1"]
    by (auto simp: fill_gap_def nth_swap_remove nth_list_update)
qed

text \<open>\<open>kept K s s'\<close>: the connections and the handlers' data outside the blocks \<open>K\<close> stay as they are.\<close>

definition payload :: "pobj \<Rightarrow> bool" where
  "payload ob = (case ob of PConn _ \<Rightarrow> True | PEcho _ \<Rightarrow> True | _ \<Rightarrow> False)"

lemma payload_simps [simp]:
  "payload (PConn C)" "payload (PEcho e)" "\<not> payload (PDisp D)" "\<not> payload (PList ys)" "\<not> payload (PConns zs)"
  by (simp_all add: payload_def)

definition kept :: "nat set \<Rightarrow> 'w pstate \<Rightarrow> 'w pstate \<Rightarrow> bool" where
  "kept K s s' \<longleftrightarrow> (\<forall>b ob. b \<notin> K \<longrightarrow> payload ob \<longrightarrow> live (p_heap s) b = Some ob \<longrightarrow> live (p_heap s') b = Some ob)"

lemma keptD: "kept K s s' \<Longrightarrow> b \<notin> K \<Longrightarrow> live (p_heap s) b = Some ob \<Longrightarrow> payload ob \<Longrightarrow> live (p_heap s') b = Some ob"
  by (simp add: kept_def)

lemma kept_heap: "p_heap s' = p_heap s \<Longrightarrow> kept K s s'"
  by (simp add: kept_def)

lemma kept_trans: "kept K s s' \<Longrightarrow> kept K s' s'' \<Longrightarrow> kept K s s''"
  by (simp add: kept_def)

lemma kept_mono: "kept K s s' \<Longrightarrow> K \<subseteq> L \<Longrightarrow> kept L s s'"
  by (auto simp: kept_def)

text \<open>What a removal does to the heap, in terms of the two arrays.\<close>

lemma remove_at_steps:
  assumes P: "live (p_heap s) d = Some (PDisp D)" "pd_list D = Ptr a 0" "live (p_heap s) a = Some (PList ys)"
      "pd_connections D = Ptr b 0" "live (p_heap s) b = Some (PConns zs)"
    and n: "unat (pd_count D) = n" "n \<le> length ys" "n \<le> length zs" "i < n"
    and at: "ys ! i = Some p" "zs ! i = Some (Ptr c 0)" "live (p_heap s) c = Some (PConn C)"
  shows "\<exists>s' ys1. dispatcher_remove_at os (Ptr d 0) (of_nat i) s = ok s' \<and>
    live (p_heap s') = (live (p_heap s))(a \<mapsto> PList (fill_gap i n ys1), c := None,
      b \<mapsto> PConns (fill_gap i n zs), d \<mapsto> PDisp (D\<lparr>pd_count := pd_count D - 1\<rparr>)) \<and>
    length ys1 = length ys \<and> (\<forall>j. j \<noteq> i \<longrightarrow> ys1 ! j = ys ! j) \<and> p_trace s' = p_trace s @ closes p"
proof -
  have small: "n < 2 ^ 32" using n(1) unsigned_less [of "pd_count D", where ?'a = nat] by simp
  let ?last = "ucast (pd_count D - 1) :: u64"
  have ui: "unat (of_nat i :: u64) = i"
    using small n(4) by (simp add: unsigned_of_nat take_bit_nat_eq_self)
  have "unat (pd_count D - 1) = n - 1"
    using n(1,4) by (simp add: unat_sub word_le_nat_alt)
  with small have last: "unat ?last = n - 1"
    by (simp add: unsigned_ucast_eq take_bit_nat_eq_self)
  have gt: "of_nat i < ?last \<longleftrightarrow> i < n - 1"
    by (simp add: word_less_nat_alt last ui)
  have len: "i < length ys" "i < length zs" "n - 1 < length ys" "n - 1 < length zs"
    using n by simp_all
  have apart: "c \<noteq> a" "c \<noteq> b" "c \<noteq> d" "a \<noteq> b" "a \<noteq> d" "b \<noteq> d"
    using at(3) P by auto
  obtain s1 ys1 where s1: "(if 0 < pf_fd p then poll_put (Ptr a 0) i (Some (p\<lparr>pf_fd := -1\<rparr>)) (p_close os (pf_fd p) s) else ok s) = ok s1"
      "live (p_heap s1) = (live (p_heap s))(a \<mapsto> PList ys1)" "length ys1 = length ys" "\<And>j. j \<noteq> i \<Longrightarrow> ys1 ! j = ys ! j"
      "p_trace s1 = p_trace s @ closes p"
    using close_cell [OF P(3) len(1), of p os] by blast
  let ?s2 = "s1\<lparr>p_heap := (p_heap s1)\<lparr>live := (live (p_heap s1))(c := None)\<rparr>\<rparr>"
  let ?s3 = "if i < n - 1 then heap_put (Ptr b 0) (PConns (fill_gap i n zs)) (heap_put (Ptr a 0) (PList (fill_gap i n ys1)) ?s2) else ?s2"
  let ?s4 = "heap_put (Ptr d 0) (PDisp (D\<lparr>pd_count := pd_count D - 1\<rparr>)) ?s3"
  have free: "p_free (Ptr c 0) s1 = ok ?s2"
    using at(3) apart by (simp add: s1(2))
  have move: "(if of_nat i < ?last
      then obind (poll_cell (Ptr a 0) (unat ?last) ?s2) (\<lambda>y. obind (poll_put (Ptr a 0) i y ?s2) (\<lambda>s.
           obind (conn_cell (Ptr b 0) (unat ?last) s) (\<lambda>x. conn_put (Ptr b 0) i x s)))
      else ok ?s2) = ok ?s3"
    using apart P(5) len s1(3) by (simp add: gt last s1(2) fill_gap_def)
  have "pd_get (Ptr d 0) s = ok D" "conn_cell (Ptr b 0) i s = ok (Some (Ptr c 0))" "poll_cell (Ptr a 0) i s = ok (Some p)"
    using P len at(1,2) by simp_all
  then have "dispatcher_remove_at os (Ptr d 0) (of_nat i) s = ok ?s4"
    unfolding dispatcher_remove_at_def ui by (simp only: obind_ok P(2,4) used_simps s1(1) free Let_def move)
  moreover have "live (p_heap ?s4) = (live (p_heap s))(a \<mapsto> PList (fill_gap i n ys1), c := None,
      b \<mapsto> PConns (fill_gap i n zs), d \<mapsto> PDisp (D\<lparr>pd_count := pd_count D - 1\<rparr>))"
    using apart P(5) by (auto simp: s1(2) fill_gap_def fun_eq_iff)
  ultimately show ?thesis
    using s1(3-5) by (intro exI [of _ ?s4] exI [of _ ys1]) simp
qed

lemma polled_snd_swap_remove:
  assumes "distinct (map snd xs)" "i < length xs"
  shows "set (map snd (swap_remove i xs)) = set (map snd xs) - {snd (xs ! i)}" "distinct (map snd (swap_remove i xs))"
proof -
  have eq: "map snd (swap_remove i xs) = swap_remove i (map snd xs)"
    using assms(2) by (intro map_swap_remove) auto
  show "set (map snd (swap_remove i xs)) = set (map snd xs) - {snd (xs ! i)}" "distinct (map snd (swap_remove i xs))"
    unfolding eq using set_swap_remove [OF assms(1), of i] assms(2) by simp_all
qed

lemma remove_at_ok:
  assumes P: "polled d xs s" and i: "i < length xs"
  shows "\<exists>s'. dispatcher_remove_at os (Ptr d 0) (of_nat i) s = ok s' \<and> polled d (swap_remove i xs) s' \<and>
    live (p_heap s') (snd (xs ! i)) = None \<and> p_trace s' = p_trace s @ closes (fst (xs ! i)) \<and>
    kept {snd (xs ! i)} s s' \<and> kept {} s' s \<and> (\<forall>b. live (p_heap s) b = None \<longrightarrow> live (p_heap s') b = None)"
  using P
proof (cases rule: polledE)
  case (1 D a b ys zs)
  let ?n = "length xs" and ?c = "snd (xs ! i)"
  obtain C where C: "live (p_heap s) ?c = Some (PConn C)"
    using 1(12) [of "xs ! i"] i by auto
  obtain s' ys1 where s': "dispatcher_remove_at os (Ptr d 0) (of_nat i) s = ok s'"
      "live (p_heap s') = (live (p_heap s))(a \<mapsto> PList (fill_gap i ?n ys1), ?c := None,
        b \<mapsto> PConns (fill_gap i ?n zs), d \<mapsto> PDisp (D\<lparr>pd_count := pd_count D - 1\<rparr>))"
      "length ys1 = length ys" "\<And>j. j \<noteq> i \<Longrightarrow> ys1 ! j = ys ! j" "p_trace s' = p_trace s @ closes (fst (xs ! i))"
    using remove_at_steps [OF 1(1-8) i 1(9) [OF i] 1(10) [OF i] C] by blast
  have apart: "?c \<noteq> a" "?c \<noteq> b" "?c \<noteq> d" "a \<noteq> b" "a \<noteq> d" "b \<noteq> d"
    using C 1(1,3,5) by auto
  have kept: "kept {?c} s s'" "kept {} s' s"
    using 1(1,3,5) by (auto simp: kept_def s'(2) split: if_splits)
  note snds = polled_snd_swap_remove [OF 1(11) i]
  have "unat (pd_count D - 1) = ?n - 1"
    using 1(6) i by (simp add: unat_sub word_le_nat_alt)
  moreover have "\<exists>C. live (p_heap s') (snd x) = Some (PConn C)" if "x \<in> set (swap_remove i xs)" for x
  proof -
    have "snd x \<in> set (map snd xs) - {?c}" using that snds(1) by auto
    then obtain y where "y \<in> set xs" "snd y = snd x" "snd x \<noteq> ?c" by auto
    with 1(12) [of y] keptD [OF kept(1)] show ?thesis by fastforce
  qed
  ultimately have "polled d (swap_remove i xs) s'"
    using apart 1(2,4,7-10) i s'(3,4) snds(2)
    by (intro polledI [where D = "D\<lparr>pd_count := pd_count D - 1\<rparr>" and a = a and b = b and ys = "fill_gap i ?n ys1" and
          zs = "fill_gap i ?n zs"])
      (simp_all add: s'(2) fill_gap_swap_remove [where f = "\<lambda>x. Some (fst x)"]
        fill_gap_swap_remove [where f = "\<lambda>x. Some (Ptr (snd x) 0)"])
  moreover have "live (p_heap s') x = None" if "live (p_heap s) x = None" for x
    unfolding s'(2) using that 1(1,3,5) by auto
  moreover have "live (p_heap s') ?c = None"
    unfolding s'(2) using apart by simp
  ultimately show ?thesis
    using s'(1,5) kept by blast
qed

section \<open>Destruction\<close>

lemma swap_remove_last: "xs \<noteq> [] \<Longrightarrow> swap_remove (length xs - 1) xs = butlast xs"
  by (simp add: swap_remove_def butlast_list_update)

lemma ucast_pred:
  assumes "unat (c :: u32) = n" "n \<noteq> 0"
  shows "ucast (c - 1) = (of_nat (n - 1) :: u64)"
proof -
  have "1 \<le> c" using assms by (simp add: word_le_nat_alt)
  then have "unat (c - 1) = n - 1"
    using assms by (simp add: unat_sub)
  moreover have "n - 1 < 2 ^ 64"
    using assms(1) unsigned_less [of c, where ?'a = nat] by simp
  ultimately show ?thesis
    by (intro word_unat_eq_iff [THEN iffD2]) (simp add: unsigned_ucast_eq unsigned_of_nat take_bit_nat_eq_self)
qed

text \<open>The loop closes the descriptors from the last to the first and frees the connections.\<close>

lemma destroy_loop_ok:
  assumes "polled d xs s"
  shows "\<exists>s'. destroy_loop os (Ptr d 0) s = ok s' \<and> polled d [] s' \<and>
    p_trace s' = p_trace s @ concat (map (\<lambda>x. closes (fst x)) (rev xs)) \<and> (\<forall>x \<in> set xs. live (p_heap s') (snd x) = None) \<and>
    (\<forall>b. live (p_heap s) b = None \<longrightarrow> live (p_heap s') b = None)"
  using assms
proof (induction xs arbitrary: s rule: rev_induct)
  case Nil
  then show ?case
  proof (cases rule: polledE)
    case (1 D a b ys zs)
    then have "pd_count D = 0" by (simp add: unat_eq_0)
    with 1(1) Nil show ?thesis
      by (intro exI [of _ s]) (simp add: destroy_loop.simps [of os "Ptr d 0" s])
  qed
next
  case (snoc x xs)
  from snoc.prems show ?case
  proof (cases rule: polledE)
    case (1 D a b ys zs)
    have c: "pd_count D \<noteq> 0" using 1(6) by auto
    have idx: "ucast (pd_count D - 1) = (of_nat (length xs) :: u64)"
      using ucast_pred [OF 1(6)] by simp
    obtain s1 where s1: "dispatcher_remove_at os (Ptr d 0) (of_nat (length xs)) s = ok s1"
        "polled d (swap_remove (length xs) (xs @ [x])) s1" "live (p_heap s1) (snd x) = None"
        "p_trace s1 = p_trace s @ closes (fst x)" "\<forall>b. live (p_heap s) b = None \<longrightarrow> live (p_heap s1) b = None"
      using remove_at_ok [OF snoc.prems, of "length xs" os] by auto
    have P1: "polled d xs s1"
      using s1(2) swap_remove_last [of "xs @ [x]"] by simp
    obtain s2 where s2: "destroy_loop os (Ptr d 0) s1 = ok s2" "polled d [] s2"
        "p_trace s2 = p_trace s1 @ concat (map (\<lambda>x. closes (fst x)) (rev xs))" "\<forall>y \<in> set xs. live (p_heap s2) (snd y) = None"
        "\<forall>b. live (p_heap s1) b = None \<longrightarrow> live (p_heap s2) b = None"
      using snoc.IH [OF P1] by blast
    have run: "destroy_loop os (Ptr d 0) s = ok s2"
      using 1(1) c idx s1(1) s2(1) by (simp add: destroy_loop.simps [of os "Ptr d 0" s])
    have "live (p_heap s2) (snd x) = None"
      using s2(5) s1(3) by blast
    with run s2 s1(4,5) show ?thesis by auto
  qed
qed

end
