(* ===== verification/Poll_Handler.thy ===== *)
theory Poll_Handler
  imports Poll_Lists
begin

text \<open>
  The contract between the poll dispatcher and the handlers it calls, as a locale, and what the
  dispatcher guarantees for handlers that keep it: every call of \<open>dispatcher_dispatch\<close> returns, and it
  removes the connections that hung up or failed and keeps those without an event.
\<close>

section \<open>Views\<close>

lemma polled_emit [simp]: "polled d xs (p_emit a s) = polled d xs s"
  by (simp add: polled_def)

lemma polled_world [simp]: "polled d xs (s\<lparr>p_world := w\<rparr>) = polled d xs s"
  by (simp add: polled_def)

lemma polled_distinct: "polled d xs s \<Longrightarrow> distinct (map snd xs)"
  by (erule polledE)

lemma polled_conn: "polled d xs s \<Longrightarrow> x \<in> set xs \<Longrightarrow> \<exists>C. live (p_heap s) (snd x) = Some (PConn C)"
  by (erule polledE) blast

lemma polled_small:
  assumes "polled d xs s"
  shows "length xs < 2 ^ 32"
  using assms
proof (cases rule: polledE)
  case (1 D a b ys zs)
  then show ?thesis using unsigned_less [of "pd_count D", where ?'a = nat] by simp
qed

lemma polled_unat:
  assumes "polled d xs s" "i \<le> length xs"
  shows "unat (of_nat i :: u32) = i"
  using polled_small [OF assms(1)] assms(2) by (simp add: unsigned_of_nat take_bit_nat_eq_self)

lemma polled_index:
  assumes "polled d xs s" "i < length xs"
  shows "unat (of_nat i :: u32) = i" "ucast (of_nat i :: u32) = (of_nat i :: u64)"
proof -
  show u: "unat (of_nat i :: u32) = i"
    by (rule polled_unat [OF assms(1)]) (use assms(2) in simp)
  show "ucast (of_nat i :: u32) = (of_nat i :: u64)"
    using u assms(2) polled_small [OF assms(1)]
    by (intro word_unat_eq_iff [THEN iffD2]) (simp add: unsigned_ucast_eq unsigned_of_nat take_bit_nat_eq_self)
qed

text \<open>Only a change of the dispatcher's own objects changes the view.\<close>

lemma polled_frame:
  assumes "polled d xs s"
    and "\<And>b ob. live (p_heap s) b = Some ob \<Longrightarrow> \<not> payload ob \<Longrightarrow> live (p_heap s') b = Some ob"
    and "\<And>b C. live (p_heap s) b = Some (PConn C) \<Longrightarrow> \<exists>C'. live (p_heap s') b = Some (PConn C')"
  shows "polled d xs s'"
  using assms(1)
proof (cases rule: polledE)
  case (1 D a b ys zs)
  have "\<exists>C. live (p_heap s') (snd x) = Some (PConn C)" if "x \<in> set xs" for x
    using 1(12) [OF that] assms(3) by blast
  with 1 assms(2) show ?thesis
    by (intro polledI [OF _ 1(2) _ 1(4)]) simp_all
qed

section \<open>One round\<close>

lemma remove_and_stay_ok:
  assumes "polled d xs s" "i < length xs"
  shows "\<exists>s'. remove_and_stay os (Ptr d 0) (of_nat i) s = ok (of_nat i, s') \<and> polled d (swap_remove i xs) s' \<and>
    p_trace s' = p_trace s @ closes (fst (xs ! i)) \<and> kept {snd (xs ! i)} s s'"
  using remove_at_ok [OF assms, of os] polled_index(2) [OF assms] by (auto simp: remove_and_stay_def)

lemma remove_if_closing_ok:
  "live (p_heap s) c = Some (PConn C) \<Longrightarrow> remove_if_closing os d i (Ptr c 0) s =
     (if mc_is_closing C then remove_and_stay os d i s else ok (i + 1, s))"
  by (simp add: remove_if_closing_def)

text \<open>A notification is a call of the handler, with the event in the trace.\<close>

definition handler_call ::
  "'w phandlers \<Rightarrow> nat \<Rightarrow> (pollfd \<times> nat) list \<Rightarrow> nat \<Rightarrow> my_connection \<Rightarrow> int \<Rightarrow> 'w pstate \<Rightarrow> (int \<times> 'w pstate) outcome" where
  "handler_call hs d xs i C e s =
     hs (mc_handler C) (Ptr d 0) (of_nat i) (pf_fd (fst (xs ! i))) e (mc_handledata C) s"

lemma notify_call:
  assumes P: "polled d xs s" and i: "i < length xs" and C: "live (p_heap s) (snd (xs ! i)) = Some (PConn C)"
    and h: "mc_handler C \<noteq> 0"
  shows "poll_notify hs (Ptr d 0) (of_nat i) (Ptr (snd (xs ! i)) 0) e s =
    obind (handler_call hs d xs i C e (p_emit (Handle (mc_handler C) (of_nat i) (pf_fd (fst (xs ! i))) e) s)) (\<lambda>(r, s). ok s)"
  using P
proof (cases rule: polledE)
  case (1 D a b ys zs)
  have "poll_cell (Ptr a 0) i s = ok (Some (fst (xs ! i)))"
    using 1(3,7,9) i by simp
  then show ?thesis
    using 1(1,2) C h by (simp add: poll_notify_def polled_index(1) [OF P i] call_handler_def handler_call_def)
qed

text \<open>A round with the accesses to the arrays resolved.\<close>

lemma poll_one_eq:
  assumes P: "polled d xs s" and i: "i < length xs" and C: "live (p_heap s) (snd (xs ! i)) = Some (PConn C)"
  shows "poll_one os hs (Ptr d 0) (of_nat i) s =
    (let c = Ptr (snd (xs ! i)) 0; r = pf_revents (fst (xs ! i)); tell = poll_notify hs (Ptr d 0) (of_nat i) c;
         strange = p_err [''[-] poll(['', mc_peeraddr C, '']:'', mc_peerport C, ''): unknown event['',
             show_int (sint (of_nat i :: u32)), ''] 0x'', show_hex (unat (scast r :: u32))]
     in if r = 0 then ok (of_nat i + 1, s)
     else if and r POLLHUP \<noteq> 0 then obind (tell DISPATCH_CLOSED s) (remove_and_stay os (Ptr d 0) (of_nat i))
     else if and r POLLERR \<noteq> 0 then
       obind (tell DISPATCH_ERRORED s) (\<lambda>s. obind (tell DISPATCH_CLOSED s) (remove_and_stay os (Ptr d 0) (of_nat i)))
     else if and r POLLIN \<noteq> 0 then
       obind (tell DISPATCH_READABLE s) (remove_if_closing os (Ptr d 0) (of_nat i) c)
     else if and r POLLOUT \<noteq> 0 then
       obind (tell DISPATCH_WRITEABLE s) (remove_if_closing os (Ptr d 0) (of_nat i) c)
     else obind (tell DISPATCH_CLOSED (p_emit strange s)) (remove_and_stay os (Ptr d 0) (of_nat i)))"
  using P
proof (cases rule: polledE)
  case (1 D a b ys zs)
  have "pd_get (Ptr d 0) s = ok D" "conn_cell (Ptr b 0) i s = ok (Some (Ptr (snd (xs ! i)) 0))"
    "poll_cell (Ptr a 0) i s = ok (Some (fst (xs ! i)))" "mc_get (Ptr (snd (xs ! i)) 0) s = ok C"
    using 1(1-5,7,8) 1(9,10) [OF i] i C by simp_all
  then show ?thesis
    unfolding poll_one_def polled_index(1) [OF P i] by (simp only: obind_ok used_simps 1(2,4) Let_def)
qed

section \<open>Rounds and loops on lists\<close>

definition hung :: "u16 \<Rightarrow> bool" where
  "hung r \<longleftrightarrow> and r POLLHUP \<noteq> 0 \<or> and r POLLERR \<noteq> 0"

lemma hung_0 [simp]: "\<not> hung 0"
  by (simp add: hung_def)

text \<open>\<open>round_ok\<close>: entry \<open>i\<close> stays, at most its \<open>events\<close> changed, or it is removed and the index stays.
  \<open>loop_ok\<close>: the entries before \<open>i\<close> stay; those from \<open>i\<close> on stay when they have no event and go when they
  hung up or failed.\<close>

definition round_ok :: "nat \<Rightarrow> (pollfd \<times> nat) list \<Rightarrow> (pollfd \<times> nat) list \<Rightarrow> nat \<Rightarrow> bool" where
  "round_ok i xs xs' j \<longleftrightarrow>
     (j = i + 1 \<and> \<not> hung (pf_revents (fst (xs ! i))) \<and> (\<exists>p. xs' = xs[i := (p, snd (xs ! i))] \<and>
        pf_fd p = pf_fd (fst (xs ! i)) \<and> (pf_revents (fst (xs ! i)) = 0 \<longrightarrow> p = fst (xs ! i)))) \<or>
     (j = i \<and> xs' = swap_remove i xs \<and> pf_revents (fst (xs ! i)) \<noteq> 0)"

definition from_list :: "(pollfd \<times> nat) list \<Rightarrow> (pollfd \<times> nat) list \<Rightarrow> bool" where
  "from_list xs xs' \<longleftrightarrow> (\<forall>x \<in> set xs'. \<exists>y \<in> set xs. snd y = snd x \<and> pf_fd (fst y) = pf_fd (fst x))"

definition loop_ok :: "nat \<Rightarrow> (pollfd \<times> nat) list \<Rightarrow> (pollfd \<times> nat) list \<Rightarrow> bool" where
  "loop_ok i xs xs' \<longleftrightarrow> set (take i xs) \<subseteq> set xs' \<and> from_list xs xs' \<and>
     (\<forall>x \<in> set (drop i xs). (pf_revents (fst x) = 0 \<longrightarrow> x \<in> set xs') \<and>
        (hung (pf_revents (fst x)) \<longrightarrow> snd x \<notin> snd ` set xs'))"

lemma loop_ok_start:
  "loop_ok 0 xs xs' \<longleftrightarrow> (\<forall>x \<in> set xs. (pf_revents (fst x) = 0 \<longrightarrow> x \<in> set xs') \<and>
     (hung (pf_revents (fst x)) \<longrightarrow> snd x \<notin> snd ` set xs')) \<and> from_list xs xs'"
  by (auto simp: loop_ok_def)

lemma from_list_trans: "from_list xs ys \<Longrightarrow> from_list ys zs \<Longrightarrow> from_list xs zs"
  unfolding from_list_def by metis

lemma loop_round:
  assumes R: "round_ok i xs ys j" and L: "loop_ok j ys zs" and D: "distinct (map snd xs)" and i: "i < length xs"
  shows "loop_ok i xs zs"
proof -
  have d: "drop i xs = xs ! i # drop (Suc i) xs"
    using i by (simp add: Cons_nth_drop_Suc)
  from R consider p where "j = i + 1" "\<not> hung (pf_revents (fst (xs ! i)))" "ys = xs[i := (p, snd (xs ! i))]"
      "pf_fd p = pf_fd (fst (xs ! i))" "pf_revents (fst (xs ! i)) = 0 \<longrightarrow> p = fst (xs ! i)"
    | "j = i" "ys = swap_remove i xs" "pf_revents (fst (xs ! i)) \<noteq> 0"
    unfolding round_ok_def by blast
  then show ?thesis
  proof cases
    case 1
    have "take j ys = take i xs @ [(p, snd (xs ! i))]" "drop j ys = drop (Suc i) xs"
      using i by (simp_all add: 1(1,3) take_Suc_conv_app_nth)
    moreover have "from_list xs ys"
      using i 1(4) unfolding from_list_def 1(3)
      by (auto dest!: set_update_subset_insert [THEN subsetD] intro: bexI [of _ "xs ! i"])
    ultimately show ?thesis
      using L 1(2,5) from_list_trans [of xs ys zs] unfolding loop_ok_def d by (auto simp: prod_eq_iff)
  next
    case 2
    have "distinct xs" using D by (simp add: distinct_map)
    then have fl: "from_list xs ys"
      using set_swap_remove(1) [of xs i] i by (auto simp: from_list_def 2(2))
    note L = L [unfolded loop_ok_def]
    have "snd ` set zs \<subseteq> snd ` set ys"
    proof
      fix c assume "c \<in> snd ` set zs"
      then obtain x where "x \<in> set zs" "c = snd x" by blast
      with L show "c \<in> snd ` set ys" unfolding from_list_def by (metis imageI)
    qed
    then have gone: "snd (xs ! i) \<notin> snd ` set zs"
      using polled_snd_swap_remove(1) [OF D i] by (auto simp: 2(2))
    have split: "y = xs ! i \<or> y \<in> set (drop j ys)" if "y \<in> set (drop i xs)" for y
      using drop_swap_remove [OF i] that by (auto simp: 2(1,2))
    show ?thesis
      unfolding loop_ok_def
    proof (intro conjI ballI)
      show "set (take i xs) \<subseteq> set zs" using L by (simp add: 2(1,2) take_swap_remove [OF i])
      show "from_list xs zs" using L from_list_trans [OF fl] by blast
      show "pf_revents (fst y) = 0 \<longrightarrow> y \<in> set zs" "hung (pf_revents (fst y)) \<longrightarrow> snd y \<notin> snd ` set zs"
        if "y \<in> set (drop i xs)" for y
        using split [OF that] L gone 2(3) by auto
    qed
  qed
qed

section \<open>The contract\<close>

text \<open>
  \<open>own C h\<close> is what a handler needs of its connection \<open>C\<close>, and \<open>foot C\<close> the blocks of its data. Told that
  a descriptor is ready, it may change its own entry of the list, its connection and its data, and
  must keep what it owns or ask to be closed. An error changes nothing. When the connection is closed
  it may release its data. \<open>env\<close> is what the contract asks of the operating system.
\<close>

locale poll_handler =
  fixes hs :: "'w phandlers" and own :: "my_connection \<Rightarrow> pobj heap \<Rightarrow> bool" and foot :: "my_connection \<Rightarrow> nat set" and env :: bool
  assumes has_handler: "own C h \<Longrightarrow> mc_handler C \<noteq> 0"
    and own_data: "own C h \<Longrightarrow> k \<in> foot C \<Longrightarrow> \<exists>e. live h k = Some (PEcho e)"
    and own_frame: "own C h \<Longrightarrow> (\<And>k. k \<in> foot C \<Longrightarrow> live h' k = live h k) \<Longrightarrow> own C h'"
    and on_ready: "env \<Longrightarrow> polled d xs s \<Longrightarrow> i < length xs \<Longrightarrow> live (p_heap s) (snd (xs ! i)) = Some (PConn C) \<Longrightarrow>
      own C (p_heap s) \<Longrightarrow> e \<in> {DISPATCH_READABLE, DISPATCH_WRITEABLE} \<Longrightarrow>
      \<exists>r s' p C'. handler_call hs d xs i C e s = ok (r, s') \<and> polled d (xs[i := (p, snd (xs ! i))]) s' \<and>
        pf_fd p = pf_fd (fst (xs ! i)) \<and> live (p_heap s') (snd (xs ! i)) = Some (PConn C') \<and>
        (mc_is_closing C' \<or> own C' (p_heap s') \<and> foot C' = foot C) \<and> kept (insert (snd (xs ! i)) (foot C)) s s'"
    and on_errored: "env \<Longrightarrow> polled d xs s \<Longrightarrow> i < length xs \<Longrightarrow> own C (p_heap s) \<Longrightarrow>
      \<exists>r s'. handler_call hs d xs i C DISPATCH_ERRORED s = ok (r, s') \<and> p_heap s' = p_heap s"
    and on_closed: "env \<Longrightarrow> polled d xs s \<Longrightarrow> i < length xs \<Longrightarrow> own C (p_heap s) \<Longrightarrow>
      \<exists>r s'. handler_call hs d xs i C DISPATCH_CLOSED s = ok (r, s') \<and> polled d xs s' \<and> kept (foot C) s s'"
begin

text \<open>Every listed connection has what it needs, and no data is shared.\<close>

definition good :: "nat set \<Rightarrow> 'w pstate \<Rightarrow> bool" where
  "good B s \<longleftrightarrow> (\<forall>b \<in> B. \<exists>C. live (p_heap s) b = Some (PConn C) \<and> own C (p_heap s)) \<and>
     (\<forall>b \<in> B. \<forall>b' \<in> B. \<forall>C C'. b \<noteq> b' \<longrightarrow> live (p_heap s) b = Some (PConn C) \<longrightarrow>
        live (p_heap s) b' = Some (PConn C') \<longrightarrow> foot C \<inter> foot C' = {})"

lemma good_heap: "p_heap s' = p_heap s \<Longrightarrow> good B s' = good B s"
  by (simp add: good_def)

lemma good_own: "good B s \<Longrightarrow> b \<in> B \<Longrightarrow> live (p_heap s) b = Some (PConn C) \<Longrightarrow> own C (p_heap s)"
  unfolding good_def by fastforce

lemma good_kept:
  assumes G: "good B s" and b: "b \<in> B" "b \<noteq> c" "c \<in> B" and C: "live (p_heap s) c = Some (PConn C)"
    and K: "kept (insert c (foot C)) s s'"
  obtains Cb where "live (p_heap s) b = Some (PConn Cb)" "live (p_heap s') b = Some (PConn Cb)" "own Cb (p_heap s')"
proof -
  obtain Cb where Cb: "live (p_heap s) b = Some (PConn Cb)" "own Cb (p_heap s)"
    using G b(1) unfolding good_def by blast
  have disj: "foot Cb \<inter> foot C = {}"
    using G b Cb(1) C unfolding good_def by blast
  have "b \<notin> foot C"
    using own_data [OF good_own [OF G b(3) C]] Cb(1) by fastforce
  then have "live (p_heap s') b = Some (PConn Cb)"
    using keptD [OF K _ Cb(1)] b(2) by simp
  moreover have "live (p_heap s') k = live (p_heap s) k" if k: "k \<in> foot Cb" for k
  proof -
    obtain e where e: "live (p_heap s) k = Some (PEcho e)" using own_data [OF Cb(2) k] by blast
    moreover have "k \<notin> insert c (foot C)" using e C k disj by auto
    ultimately show ?thesis using keptD [OF K _ e] by simp
  qed
  then have "own Cb (p_heap s')"
    by (rule own_frame [OF Cb(2)])
  ultimately show thesis using that Cb(1) by blast
qed

lemma good_smaller:
  assumes G: "good B s" "c \<in> B" "live (p_heap s) c = Some (PConn C)" "kept (insert c (foot C)) s s'" and sub: "B' \<subseteq> B - {c}"
  shows "good B' s'"
  unfolding good_def
proof (intro conjI ballI allI impI)
  note keep = good_kept [OF G(1) _ _ G(2-4)]
  show "\<exists>C. live (p_heap s') b = Some (PConn C) \<and> own C (p_heap s')" if "b \<in> B'" for b
    using keep [of b] that sub by blast
  show "foot C1 \<inter> foot C2 = {}" if "b1 \<in> B'" "b2 \<in> B'" "b1 \<noteq> b2" "live (p_heap s') b1 = Some (PConn C1)"
      "live (p_heap s') b2 = Some (PConn C2)" for b1 b2 C1 C2
  proof -
    have in': "b1 \<in> B" "b1 \<noteq> c" "b2 \<in> B" "b2 \<noteq> c" using that(1,2) sub by auto
    have "live (p_heap s) b1 = Some (PConn C1)" using keep [OF in'(1,2)] that(4) by fastforce
    moreover have "live (p_heap s) b2 = Some (PConn C2)" using keep [OF in'(3,4)] that(5) by fastforce
    ultimately show ?thesis using G(1) in'(1,3) that(3) unfolding good_def by blast
  qed
qed

lemma good_same:
  assumes G: "good B s" "c \<in> B" "live (p_heap s) c = Some (PConn C)" "kept (insert c (foot C)) s s'"
    and C': "live (p_heap s') c = Some (PConn C')" "own C' (p_heap s')" "foot C' = foot C"
  shows "good B s'"
proof -
  have rest: "good (B - {c}) s'"
    by (rule good_smaller [OF G]) simp
  have apart: "foot Cb \<inter> foot C' = {}" if b: "b \<in> B" "b \<noteq> c" "live (p_heap s') b = Some (PConn Cb)" for b Cb
  proof -
    have "live (p_heap s) b = Some (PConn Cb)" using good_kept [OF G(1) b(1,2) G(2-4)] b(3) by fastforce
    then show ?thesis using G(1-3) b(1,2) C'(3) unfolding good_def by blast
  qed
  show ?thesis
    unfolding good_def
  proof (intro conjI ballI allI impI)
    show "\<exists>C. live (p_heap s') b = Some (PConn C) \<and> own C (p_heap s')" if "b \<in> B" for b
      using that rest C'(1,2) unfolding good_def by (cases "b = c") auto
    show "foot C1 \<inter> foot C2 = {}" if "b1 \<in> B" "b2 \<in> B" "b1 \<noteq> b2" "live (p_heap s') b1 = Some (PConn C1)"
        "live (p_heap s') b2 = Some (PConn C2)" for b1 b2 C1 C2
      using apart [of b1 C1] apart [of b2 C2] that C'(1) rest unfolding good_def
      by (cases "b1 = c"; cases "b2 = c") (auto simp: Int_commute)
  qed
qed

end

section \<open>Rounds under the contract\<close>

lemma swap_remove_update: "i < length xs \<Longrightarrow> swap_remove i (xs[i := y]) = swap_remove i xs"
  using last_list_update [of xs i y]
  by (cases "i = length xs - 1"; cases "xs = []") (simp_all add: swap_remove_def butlast_list_update)

lemma snd_update: "i < length xs \<Longrightarrow> snd ` set (xs[i := (p, snd (xs ! i))]) = snd ` set xs"
proof -
  assume i: "i < length xs"
  have "map snd (xs[i := (p, snd (xs ! i))]) = map snd xs"
    using i by (simp add: map_update list_update_same_conv)
  then show ?thesis by (metis set_map)
qed

context poll_handler
begin

lemma good_gone:
  assumes P: "polled d xs s2" and i: "i < length xs" and G: "good (snd ` set xs) s"
    and C: "live (p_heap s) (snd (xs ! i)) = Some (PConn C)" and K: "kept (insert (snd (xs ! i)) (foot C)) s s2"
  shows "\<exists>s'. remove_and_stay os (Ptr d 0) (of_nat i) s2 = ok (of_nat i, s') \<and> polled d (swap_remove i xs) s' \<and>
    good (snd ` set (swap_remove i xs)) s'"
proof -
  let ?c = "snd (xs ! i)"
  obtain s' where s': "remove_and_stay os (Ptr d 0) (of_nat i) s2 = ok (of_nat i, s')" "polled d (swap_remove i xs) s'"
      "kept {?c} s2 s'"
    using remove_and_stay_ok [OF P i] by blast
  have K': "kept (insert ?c (foot C)) s s'"
    by (rule kept_trans [OF K kept_mono [OF s'(3)]]) simp
  have "snd ` set (swap_remove i xs) \<subseteq> snd ` set xs - {?c}"
    using polled_snd_swap_remove(1) [OF polled_distinct [OF P] i] by simp
  then have "good (snd ` set (swap_remove i xs)) s'"
    using good_smaller [OF G _ C K'] i by simp
  with s'(1,2) show ?thesis by blast
qed

lemma close_round:
  assumes env and P: "polled d xs s" and G: "good (snd ` set xs) s" and i: "i < length xs"
  shows "\<exists>s'. obind (poll_notify hs (Ptr d 0) (of_nat i) (Ptr (snd (xs ! i)) 0) DISPATCH_CLOSED s)
      (remove_and_stay os (Ptr d 0) (of_nat i)) = ok (of_nat i, s') \<and>
    polled d (swap_remove i xs) s' \<and> good (snd ` set (swap_remove i xs)) s'"
proof -
  obtain C where C: "live (p_heap s) (snd (xs ! i)) = Some (PConn C)" using polled_conn [OF P nth_mem [OF i]] by blast
  have own: "own C (p_heap s)" by (rule good_own [OF G _ C]) (use i in simp)
  let ?s = "p_emit (Handle (mc_handler C) (of_nat i) (pf_fd (fst (xs ! i))) DISPATCH_CLOSED) s"
  obtain r s2 where s2: "handler_call hs d xs i C DISPATCH_CLOSED ?s = ok (r, s2)" "polled d xs s2" "kept (foot C) ?s s2"
    using on_closed [OF \<open>env\<close>, of d xs ?s i C] P i own by auto
  have "kept (insert (snd (xs ! i)) (foot C)) s s2"
    by (rule kept_trans [OF kept_heap kept_mono [OF s2(3)]]) auto
  from good_gone [OF s2(2) i G C this] show ?thesis
    by (simp add: notify_call [OF P i C has_handler [OF own]] s2(1))
qed

lemma error_round:
  assumes env and P: "polled d xs s" and G: "good (snd ` set xs) s" and i: "i < length xs"
  shows "\<exists>s'. poll_notify hs (Ptr d 0) (of_nat i) (Ptr (snd (xs ! i)) 0) DISPATCH_ERRORED s = ok s' \<and>
    polled d xs s' \<and> good (snd ` set xs) s'"
proof -
  obtain C where C: "live (p_heap s) (snd (xs ! i)) = Some (PConn C)" using polled_conn [OF P nth_mem [OF i]] by blast
  have own: "own C (p_heap s)" by (rule good_own [OF G _ C]) (use i in simp)
  let ?s = "p_emit (Handle (mc_handler C) (of_nat i) (pf_fd (fst (xs ! i))) DISPATCH_ERRORED) s"
  obtain r s2 where s2: "handler_call hs d xs i C DISPATCH_ERRORED ?s = ok (r, s2)" "p_heap s2 = p_heap s"
    using on_errored [OF \<open>env\<close>, of d xs ?s i C] P i own by auto
  have "polled d xs s2" by (rule polled_frame [OF P]) (simp_all add: s2(2))
  with s2 G show ?thesis
    by (simp add: notify_call [OF P i C has_handler [OF own]] good_heap [OF s2(2)])
qed

lemma ready_round:
  assumes env and P: "polled d xs s" and G: "good (snd ` set xs) s" and i: "i < length xs"
    and e: "e \<in> {DISPATCH_READABLE, DISPATCH_WRITEABLE}"
  shows "\<exists>s' xs' j. obind (poll_notify hs (Ptr d 0) (of_nat i) (Ptr (snd (xs ! i)) 0) e s)
      (remove_if_closing os (Ptr d 0) (of_nat i) (Ptr (snd (xs ! i)) 0)) = ok (of_nat j, s') \<and>
    polled d xs' s' \<and> good (snd ` set xs') s' \<and>
    ((j = i + 1 \<and> (\<exists>p. xs' = xs[i := (p, snd (xs ! i))] \<and> pf_fd p = pf_fd (fst (xs ! i)))) \<or> (j = i \<and> xs' = swap_remove i xs))"
proof -
  let ?c = "snd (xs ! i)"
  obtain C where C: "live (p_heap s) ?c = Some (PConn C)" using polled_conn [OF P nth_mem [OF i]] by blast
  have own: "own C (p_heap s)" by (rule good_own [OF G _ C]) (use i in simp)
  let ?s = "p_emit (Handle (mc_handler C) (of_nat i) (pf_fd (fst (xs ! i))) e) s"
  obtain r s2 p C' where s2: "handler_call hs d xs i C e ?s = ok (r, s2)" "polled d (xs[i := (p, ?c)]) s2"
      "pf_fd p = pf_fd (fst (xs ! i))" "live (p_heap s2) ?c = Some (PConn C')"
      "mc_is_closing C' \<or> own C' (p_heap s2) \<and> foot C' = foot C" "kept (insert ?c (foot C)) ?s s2"
    using on_ready [OF \<open>env\<close> _ i, of d ?s C e] P C own e by auto
  have K: "kept (insert ?c (foot C)) s s2"
    by (rule kept_trans [OF kept_heap s2(6)]) simp
  have run: "obind (poll_notify hs (Ptr d 0) (of_nat i) (Ptr ?c 0) e s) (remove_if_closing os (Ptr d 0) (of_nat i) (Ptr ?c 0)) =
      (if mc_is_closing C' then remove_and_stay os (Ptr d 0) (of_nat i) s2 else ok (of_nat i + 1, s2))"
    using remove_if_closing_ok [OF s2(4), of os "Ptr d 0" "of_nat i"] by (simp add: notify_call [OF P i C has_handler [OF own]] s2(1))
  show ?thesis
  proof (cases "mc_is_closing C'")
    case True
    have "\<exists>s'. remove_and_stay os (Ptr d 0) (of_nat i) s2 = ok (of_nat i, s') \<and> polled d (swap_remove i xs) s' \<and>
        good (snd ` set (swap_remove i xs)) s'"
      using good_gone [OF s2(2), of i s C os] i G C K snd_update [OF i, of p] swap_remove_update [OF i, of "(p, ?c)"] by simp
    then show ?thesis unfolding run using True by auto
  next
    case False
    then have "good (snd ` set xs) s2"
      using good_same [OF G _ C K s2(4)] s2(5) i by simp
    then show ?thesis
      using run False s2(2,3) snd_update [OF i, of p]
      by (intro exI [of _ s2] exI [of _ "xs[i := (p, ?c)]"] exI [of _ "i + 1"]) (auto simp: add.commute)
  qed
qed

text \<open>The branches of a round: nothing to do, the entry goes, or the entry is ready.\<close>

lemma poll_one_cases:
  assumes env and P: "polled d xs s" and G: "good (snd ` set xs) s" and i: "i < length xs"
  obtains (none) "pf_revents (fst (xs ! i)) = 0" "poll_one os hs (Ptr d 0) (of_nat i) s = ok (of_nat i + 1, s)"
    | (gone) s1 where "pf_revents (fst (xs ! i)) \<noteq> 0" "polled d xs s1" "good (snd ` set xs) s1"
        "poll_one os hs (Ptr d 0) (of_nat i) s =
          obind (poll_notify hs (Ptr d 0) (of_nat i) (Ptr (snd (xs ! i)) 0) DISPATCH_CLOSED s1)
            (remove_and_stay os (Ptr d 0) (of_nat i))"
    | (ready) e where "pf_revents (fst (xs ! i)) \<noteq> 0" "\<not> hung (pf_revents (fst (xs ! i)))"
        "e \<in> {DISPATCH_READABLE, DISPATCH_WRITEABLE}"
        "poll_one os hs (Ptr d 0) (of_nat i) s =
          obind (poll_notify hs (Ptr d 0) (of_nat i) (Ptr (snd (xs ! i)) 0) e s)
            (remove_if_closing os (Ptr d 0) (of_nat i) (Ptr (snd (xs ! i)) 0))"
proof -
  obtain C where C: "live (p_heap s) (snd (xs ! i)) = Some (PConn C)" using polled_conn [OF P nth_mem [OF i]] by blast
  note eq = poll_one_eq [OF P i C, unfolded Let_def, where os = os and hs = hs]
  let ?r = "pf_revents (fst (xs ! i))"
  have emit: "good (snd ` set xs) (p_emit a s)" for a using G good_heap [of "p_emit a s" s] by simp
  obtain s1 where s1: "poll_notify hs (Ptr d 0) (of_nat i) (Ptr (snd (xs ! i)) 0) DISPATCH_ERRORED s = ok s1"
      "polled d xs s1" "good (snd ` set xs) s1"
    using error_round [OF assms] by blast
  consider "?r = 0" | "?r \<noteq> 0" "and ?r POLLHUP \<noteq> 0" | "?r \<noteq> 0" "and ?r POLLHUP = 0" "and ?r POLLERR \<noteq> 0"
    | "?r \<noteq> 0" "and ?r POLLHUP = 0" "and ?r POLLERR = 0" "and ?r POLLIN \<noteq> 0"
    | "?r \<noteq> 0" "and ?r POLLHUP = 0" "and ?r POLLERR = 0" "and ?r POLLIN = 0" "and ?r POLLOUT \<noteq> 0"
    | "?r \<noteq> 0" "and ?r POLLHUP = 0" "and ?r POLLERR = 0" "and ?r POLLIN = 0" "and ?r POLLOUT = 0"
    by blast
  then show thesis
  proof cases
    case 1 then show ?thesis by (intro none) (simp_all add: eq)
  next
    case 2 then show ?thesis by (intro gone [OF _ P G]) (simp_all add: eq)
  next
    case 3 then show ?thesis by (intro gone [OF _ s1(2,3)]) (simp_all add: eq s1(1))
  next
    case 4 then show ?thesis by (intro ready [of DISPATCH_READABLE]) (simp_all add: eq hung_def)
  next
    case 5 then show ?thesis by (intro ready [of DISPATCH_WRITEABLE]) (simp_all add: eq hung_def)
  next
    case 6 then show ?thesis by (intro gone [OF _ _ emit]) (simp_all add: eq P)
  qed
qed

lemma poll_one_ok:
  assumes env and P: "polled d xs s" and G: "good (snd ` set xs) s" and i: "i < length xs"
  shows "\<exists>s' xs' j. poll_one os hs (Ptr d 0) (of_nat i) s = ok (of_nat j, s') \<and> polled d xs' s' \<and>
    good (snd ` set xs') s' \<and> round_ok i xs xs' j"
proof (cases rule: poll_one_cases [OF assms, where os = os, case_names none gone ready])
  case none
  then show ?thesis
    using P G
    by (intro exI [of _ s] exI [of _ xs] exI [of _ "i + 1"]) (auto simp: round_ok_def add.commute intro!: exI [of _ "fst (xs ! i)"])
next
  case gone
  from close_round [OF \<open>env\<close> gone(2,3) i] gone(1) show ?thesis
    unfolding gone(4) round_ok_def by blast
next
  case ready
  from ready_round [OF assms ready(3)] ready(1,2) show ?thesis
    unfolding ready(4) round_ok_def by blast
qed

lemma poll_loop_ok:
  assumes env "polled d xs s" "good (snd ` set xs) s" "i \<le> length xs"
  shows "\<exists>s' xs'. poll_loop os hs (Ptr d 0) (of_nat i) s = ok s' \<and> polled d xs' s' \<and>
    good (snd ` set xs') s' \<and> loop_ok i xs xs'"
  using assms(2-4)
proof (induction "length xs - i" arbitrary: xs i s rule: less_induct)
  case less
  obtain D where D: "pd_get (Ptr d 0) s = ok D" "unat (pd_count D) = length xs"
    using less.prems(1) by (cases rule: polledE) auto
  have more: "of_nat i < pd_count D \<longleftrightarrow> i < length xs"
    by (simp add: word_less_nat_alt D(2) polled_unat [OF less.prems(1,3)])
  show ?case
  proof (cases "i < length xs")
    case False
    then show ?thesis
      using less.prems D more
      by (intro exI [of _ s] exI [of _ xs]) (auto simp: poll_loop.simps [of os hs "Ptr d 0" _ s] loop_ok_def from_list_def)
  next
    case True
    obtain s1 ys j where s1: "poll_one os hs (Ptr d 0) (of_nat i) s = ok (of_nat j, s1)" "polled d ys s1"
        "good (snd ` set ys) s1" "round_ok i xs ys j"
      using poll_one_ok [OF assms(1) less.prems(1,2) True] by blast
    have "length ys - j < length xs - i" "j \<le> length ys"
      using s1(4) True by (auto simp: round_ok_def)
    from less.hyps [OF this(1) s1(2,3) this(2)]
    obtain s' xs' where s': "poll_loop os hs (Ptr d 0) (of_nat j) s1 = ok s'" "polled d xs' s'"
        "good (snd ` set xs') s'" "loop_ok j ys xs'"
      by blast
    have "loop_ok i xs xs'"
      by (rule loop_round [OF s1(4) s'(4) polled_distinct [OF less.prems(1)] True])
    with s' show ?thesis
      using D(1) more True s1(1) by (auto simp: poll_loop.simps [of os hs "Ptr d 0" _ s])
  qed
qed

end

section \<open>The whole call\<close>

text \<open>The list after the system has filled in \<open>revents\<close>.\<close>

definition with_revents :: "u16 list \<Rightarrow> (pollfd \<times> nat) list \<Rightarrow> (pollfd \<times> nat) list" where
  "with_revents rs xs = map (\<lambda>((p, c), r). (p\<lparr>pf_revents := r\<rparr>, c)) (zip xs (rs @ replicate (length xs - length rs) 0))"

lemma with_revents_simps [simp]:
  "length (with_revents rs xs) = length xs" "map snd (with_revents rs xs) = map snd xs"
  "i < length xs \<Longrightarrow> with_revents rs xs ! i =
     ((fst (xs ! i))\<lparr>pf_revents := (rs @ replicate (length xs - length rs) 0) ! i\<rparr>, snd (xs ! i))"
  by (auto simp: with_revents_def split_def intro!: nth_equalityI)

lemma snd_with_revents [simp]: "snd ` set (with_revents rs xs) = snd ` set xs"
  by (metis set_map with_revents_simps(2))

lemma polled_poll:
  assumes P: "polled d xs s"
  obtains D s' where "pd_get (Ptr d 0) s = ok D" "poll_read (pd_list D) (unat (pd_count D)) s = ok (map fst xs)"
    "unat (pd_count D) = length xs"
    "\<And>w. poll_write (pd_list D) (map fst xs) rs (s\<lparr>p_world := w\<rparr>) = ok (s'\<lparr>p_world := w\<rparr>)"
    "polled d (with_revents rs xs) s'" "kept {} s s'" "kept {} s' s"
  using P
proof (cases rule: polledE)
  case (1 D a b ys zs)
  let ?n = "length xs"
  have front: "take ?n ys = map (\<lambda>x. Some (fst x)) xs"
    using 1(7,9) by (intro nth_equalityI) simp_all
  let ?new = "map (\<lambda>(x, r). Some (x\<lparr>pf_revents := r\<rparr>)) (zip (map fst xs) (rs @ replicate (?n - length rs) 0)) @ drop ?n ys"
  let ?s = "heap_put (Ptr a 0) (PList ?new) s"
  show thesis
  proof (rule that [of D ?s])
    show "pd_get (Ptr d 0) s = ok D" "unat (pd_count D) = ?n" using 1(1,6) by simp_all
    show "poll_read (pd_list D) (unat (pd_count D)) s = ok (map fst xs)"
      using 1(2,3,6,7) by (auto simp: poll_read_def front)
    show "poll_write (pd_list D) (map fst xs) rs (s\<lparr>p_world := w\<rparr>) = ok (?s\<lparr>p_world := w\<rparr>)" for w
      using 1(2,3) by (simp add: poll_write_def heap_put_def)
    show "kept {} s ?s" "kept {} ?s s" using 1(3) by (auto simp: kept_def split: if_splits)
    have ap: "a \<noteq> b" "a \<noteq> d" using 1(1,3,5) by auto
    show "polled d (with_revents rs xs) ?s"
    proof (rule polledI [of _ _ D a ?new b zs])
      show "\<exists>C. live (p_heap ?s) (snd x) = Some (PConn C)" if "x \<in> set (with_revents rs xs)" for x
      proof -
        have "snd x \<in> snd ` set xs" using that by (metis imageI snd_with_revents)
        then obtain C where "live (p_heap s) (snd x) = Some (PConn C)" using 1(12) by force
        then show ?thesis using 1(3) by auto
      qed
    qed (use 1 ap in \<open>simp_all add: nth_append\<close>)
  qed
qed

context poll_handler
begin

lemma good_equal:
  assumes G: "good B s" and K: "kept {} s s'" "kept {} s' s"
  shows "good B s'"
proof -
  have same: "live (p_heap s') b = Some ob \<longleftrightarrow> live (p_heap s) b = Some ob" if "payload ob" for b ob
    using K that unfolding kept_def by blast
  have "own C (p_heap s')" if o: "own C (p_heap s)" for C
  proof (rule own_frame [OF o])
    fix k assume "k \<in> foot C"
    then obtain e where "live (p_heap s) k = Some (PEcho e)" using own_data [OF o] by blast
    with same [of "PEcho e" k] show "live (p_heap s') k = live (p_heap s) k" by simp
  qed
  with G show ?thesis
    unfolding good_def same [OF payload_simps(1)] by blast
qed

text \<open>What a call of \<open>dispatcher_dispatch\<close> returns and leaves of the list \<open>xs\<close>.\<close>

lemma dispatch_ok:
  assumes env and P: "polled d xs s" and G: "good (snd ` set xs) s" and ne: "xs \<noteq> []"
    and poll: "p_poll os (map (\<lambda>x. (pf_fd (fst x), pf_events (fst x))) xs) ms (p_world s) = ((err, rs), w)"
  shows "\<exists>r s' xs'. dispatcher_dispatch_poll os hs (Ptr d 0) ms s = ok (r, s') \<and> polled d xs' s' \<and>
    good (snd ` set xs') s' \<and> r \<in> {0, -1} \<and> (r = -1 \<longrightarrow> err = -1) \<and>
    (if err = -1 \<or> err = 0 then xs' = with_revents rs xs else loop_ok 0 (with_revents rs xs) xs')"
proof -
  obtain D s1 where s1: "pd_get (Ptr d 0) s = ok D" "poll_read (pd_list D) (unat (pd_count D)) s = ok (map fst xs)"
      "unat (pd_count D) = length xs"
      "\<And>w. poll_write (pd_list D) (map fst xs) rs (s\<lparr>p_world := w\<rparr>) = ok (s1\<lparr>p_world := w\<rparr>)"
      "polled d (with_revents rs xs) s1" "kept {} s s1" "kept {} s1 s"
    using polled_poll [OF P, of rs] by blast
  let ?s = "s1\<lparr>p_world := w\<rparr>" and ?xs = "with_revents rs xs"
  have P1: "polled d ?xs ?s" using s1(5) by simp
  have G1: "good (snd ` set ?xs) ?s"
    using good_equal [OF G s1(6,7)] good_heap [of ?s s1] by simp
  have G2: "good (snd ` set ?xs) (p_emit a ?s)" for a
    using G1 good_heap [of "p_emit a ?s" ?s] by simp
  have "pd_count D \<noteq> 0" using s1(3) ne by auto
  then have run: "dispatcher_dispatch_poll os hs (Ptr d 0) ms s =
      (if err = -1 then (if os_errno os w = EINTR then ok (0, ?s) else ok (-1, p_emit (p_err [''[-] poll(): '', p_errstr os ?s]) ?s))
       else if err = 0 then ok (0, ?s) else obind (poll_loop os hs (Ptr d 0) 0 ?s) (\<lambda>s. ok (0, s)))"
    using s1(1,2,4) poll by (simp add: dispatcher_dispatch_poll_def p_sys_def comp_def Let_def)
  consider "err = -1" | "err = 0" | "err \<noteq> -1" "err \<noteq> 0" by blast
  then show ?thesis
  proof cases
    case 3
    obtain s' xs' where "poll_loop os hs (Ptr d 0) 0 ?s = ok s'" "polled d xs' s'" "good (snd ` set xs') s'" "loop_ok 0 ?xs xs'"
      using poll_loop_ok [OF assms(1) P1 G1, of 0 os] by auto
    with 3 show ?thesis unfolding run by (intro exI [of _ 0] exI [of _ s'] exI [of _ xs']) simp
  qed (use P1 G1 G2 in \<open>unfold run, auto intro!: exI [of _ ?xs]\<close>)
qed

end

end
