(* ===== verification/Echo_Handler.thy ===== *)
theory Echo_Handler
  imports Poll_Handler
begin

text \<open>
  The echo service keeps the contract of the poll dispatcher: what its handlers do to the list, to the
  buffer and to the connection, and the interpretation of the locale.
\<close>

section \<open>The operations the handlers call\<close>

lemma kept_put: "b \<in> K \<Longrightarrow> kept K s (heap_put (Ptr b 0) ob s)"
  by (auto simp: kept_def)

lemma set_event_ok:
  assumes P: "polled d xs s" and i: "i < length xs" and e: "state = DISPATCH_READABLE \<or> state = DISPATCH_WRITEABLE"
    and bits: "bits = (if state = DISPATCH_READABLE then POLLIN else POLLOUT)"
  shows "\<exists>s'. dispatcher_set_event (Ptr d 0) (of_nat i) state s = ok s' \<and>
    polled d (xs[i := ((fst (xs ! i))\<lparr>pf_events := bits, pf_revents := 0\<rparr>, snd (xs ! i))]) s' \<and>
    kept {} s s' \<and> p_trace s' = p_trace s"
  using P
proof (cases rule: polledE)
  case (1 D a b ys zs)
  let ?p = "(fst (xs ! i))\<lparr>pf_events := bits, pf_revents := 0\<rparr>"
  let ?xs = "xs[i := (?p, snd (xs ! i))]" and ?s = "heap_put (Ptr a 0) (PList (ys[i := Some ?p])) s"
  note u = polled_index(1) [OF P i]
  have "poll_cell (Ptr a 0) i s = ok (Some (fst (xs ! i)))"
    using 1(3,7,9) i by simp
  then have run: "dispatcher_set_event (Ptr d 0) (of_nat i) state s = ok ?s"
    using 1(1-3,7) e i by (simp add: dispatcher_set_event_def u bits)
  have snd: "map snd ?xs = map snd xs"
    using i by (simp add: map_update list_update_same_conv)
  have kept: "kept {} s ?s" using 1(3) by (auto simp: kept_def)
  have "polled d ?xs ?s"
  proof (rule polledI [where D = D and a = a and b = b])
    show "live (p_heap ?s) a = Some (PList (ys[i := Some ?p]))" by simp
    show "live (p_heap ?s) d = Some (PDisp D)" "live (p_heap ?s) b = Some (PConns zs)"
      using 1(1,3,5) by auto
    show "distinct (map snd ?xs)" unfolding snd by (rule 1(11))
    show "\<exists>C. live (p_heap ?s) (snd x) = Some (PConn C)" if "x \<in> set ?xs" for x
    proof -
      have "snd x \<in> snd ` set xs" using that snd_update [OF i, of ?p] by (metis imageI)
      then obtain C where "live (p_heap s) (snd x) = Some (PConn C)" using 1(12) by force
      from keptD [OF kept _ this] show ?thesis by auto
    qed
  qed (use 1(2,4,6-10) i in \<open>simp_all add: nth_list_update\<close>)
  with run kept show ?thesis by (intro exI [of _ ?s]) simp
qed

lemma close_connection_ok:
  assumes P: "polled d xs s" and i: "i < length xs" and C: "live (p_heap s) (snd (xs ! i)) = Some (PConn C)"
  shows "dispatcher_close_connection (Ptr d 0) (of_nat i) s =
      ok (heap_put (Ptr (snd (xs ! i)) 0) (PConn (C\<lparr>mc_is_closing := True\<rparr>)) s)"
    and "polled d xs (heap_put (Ptr (snd (xs ! i)) 0) (PConn (C\<lparr>mc_is_closing := True\<rparr>)) s)"
proof -
  show "dispatcher_close_connection (Ptr d 0) (of_nat i) s =
      ok (heap_put (Ptr (snd (xs ! i)) 0) (PConn (C\<lparr>mc_is_closing := True\<rparr>)) s)"
    using P
  proof (cases rule: polledE)
    case (1 D a b ys zs)
    have "conn_cell (Ptr b 0) i s = ok (Some (Ptr (snd (xs ! i)) 0))"
      using 1(5,8,10) i by simp
    then show ?thesis
      using 1(1,4) C by (simp add: dispatcher_close_connection_def polled_index(1) [OF P i])
  qed
  show "polled d xs (heap_put (Ptr (snd (xs ! i)) 0) (PConn (C\<lparr>mc_is_closing := True\<rparr>)) s)"
    by (rule polled_frame [OF P]) (use C in auto)
qed

lemma polled_echo:
  assumes "polled d xs s" "live (p_heap s) k = Some (PEcho e)"
  shows "polled d xs (heap_put (Ptr k 0) (PEcho e') s)"
  by (rule polled_frame [OF assms(1)]) (use assms(2) in auto)

lemma echo_get_ok [simp]: "live (p_heap s) k = Some (PEcho e) \<Longrightarrow> echo_get (Ptr k 0) s = ok e"
  by (simp add: echo_get_def)

section \<open>The buffer\<close>

text \<open>What is to be sent next.\<close>

definition unsent :: "echo_data \<Rightarrow> u8 list" where
  "unsent e = take (nat (e_len e)) (e_buf e)"

definition echo_ok :: "echo_data \<Rightarrow> bool" where
  "echo_ok e \<longleftrightarrow> length (e_buf e) = ECHO_SIZE \<and> 0 \<le> e_len e \<and> e_len e \<le> int ECHO_SIZE"

lemma unsent_shift:
  assumes "c \<le> n" "n \<le> length buf"
  shows "take c (take n buf) @ take (n - c) (buf_shift c n buf) = take n buf" "length (buf_shift c n buf) = length buf"
proof -
  have "take (n - c) (buf_shift c n buf) = take (n - c) (drop c buf)"
    using assms by (simp add: buf_shift_def)
  also have "\<dots> = drop c (take n buf)"
    using assms by (simp add: drop_take)
  finally show "take c (take n buf) @ take (n - c) (buf_shift c n buf) = take n buf"
    by (metis append_take_drop_id)
  show "length (buf_shift c n buf) = length buf"
    using assms by (simp add: buf_shift_def)
qed

text \<open>Data that has been received, and the rest after \<open>count\<close> bytes have been sent.\<close>

lemma echo_received:
  assumes "echo_ok e" "length bytes \<le> ECHO_SIZE"
  shows "echo_ok \<lparr>e_buf = buf_recv bytes (e_buf e), e_len = int (length bytes)\<rparr>"
    and "unsent \<lparr>e_buf = buf_recv bytes (e_buf e), e_len = int (length bytes)\<rparr> = bytes"
  using assms by (simp_all add: echo_ok_def unsent_def buf_recv_def)

definition echo_rest :: "int \<Rightarrow> echo_data \<Rightarrow> echo_data" where
  "echo_rest count e = (if count < e_len e
     then \<lparr>e_buf = buf_shift (nat count) (nat (e_len e)) (e_buf e), e_len = e_len e - count\<rparr> else e\<lparr>e_len := 0\<rparr>)"

lemma echo_rest_ok:
  assumes "echo_ok e" "0 \<le> count" "count \<le> e_len e"
  shows "echo_ok (echo_rest count e)" "take (nat count) (unsent e) @ unsent (echo_rest count e) = unsent e"
    "unsent (echo_rest count e) = [] \<longleftrightarrow> count = e_len e" "length (take (nat count) (unsent e)) = nat count"
proof -
  let ?n = "nat (e_len e)" and ?c = "nat count"
  have n: "?n \<le> length (e_buf e)" and c: "?c \<le> ?n" using assms by (auto simp: echo_ok_def)
  show "length (take ?c (unsent e)) = ?c" using n c by (simp add: unsent_def)
  have all: "count = e_len e" if "\<not> count < e_len e" using assms(3) that by simp
  have lt: "unsent (echo_rest count e) = take (?n - ?c) (buf_shift ?c ?n (e_buf e))" if "count < e_len e"
    using assms(2) that by (simp add: unsent_def echo_rest_def nat_diff_distrib)
  show "echo_ok (echo_rest count e)"
    using assms unsent_shift(2) [OF c n] by (auto simp: echo_ok_def echo_rest_def)
  show "take ?c (unsent e) @ unsent (echo_rest count e) = unsent e"
    using lt all unsent_shift(1) [OF c n] n by (cases "count < e_len e") (simp_all add: unsent_def echo_rest_def)
  have "length (unsent (echo_rest count e)) = ?n - ?c" if "count < e_len e"
    using lt [OF that] unsent_shift(2) [OF c n] n by simp
  then show "unsent (echo_rest count e) = [] \<longleftrightarrow> count = e_len e"
    using assms(2) all by (cases "count < e_len e") (auto simp: unsent_def echo_rest_def simp flip: length_0_conv)
qed

section \<open>Sending\<close>

lemma echo_writeable_ok:
  assumes P: "polled d xs s" and i: "i < length xs" and e: "live (p_heap s) k = Some (PEcho e)" "echo_ok e"
    and sent: "p_send os fd (unsent e) (p_world s) = (count, w)" "0 \<le> count" "count \<le> e_len e"
  shows "\<exists>s'. echo_writeable os (Ptr d 0) (of_nat i) fd (Ptr k 0) s = ok s' \<and>
    live (p_heap s') k = Some (PEcho (echo_rest count e)) \<and>
    p_trace s' = p_trace s @ [Send fd (take (nat count) (unsent e))] \<and> kept {k} s s' \<and>
    polled d (xs[i := ((fst (xs ! i))\<lparr>pf_events := (if count < e_len e then POLLOUT else POLLIN), pf_revents := 0\<rparr>,
      snd (xs ! i))]) s'"
proof -
  let ?e = "echo_rest count e" and ?state = "if count < e_len e then DISPATCH_WRITEABLE else DISPATCH_READABLE"
  let ?s1 = "heap_put (Ptr k 0) (PEcho ?e) (p_emit (Send fd (take (nat count) (unsent e))) (s\<lparr>p_world := w\<rparr>))"
  have "\<not> e_len e < 0" "\<not> int ECHO_SIZE < e_len e" "\<not> count < 0" using e(2) sent by (auto simp: echo_ok_def)
  then have run: "echo_writeable os (Ptr d 0) (of_nat i) fd (Ptr k 0) s = dispatcher_set_event (Ptr d 0) (of_nat i) ?state ?s1"
    using e(1) sent(1) by (simp add: echo_writeable_def unsent_def p_sys_def echo_rest_def Let_def)
  have P1: "polled d xs ?s1"
    by (rule polled_echo [where e = e]) (use P e in simp_all)
  have bits: "(if count < e_len e then POLLOUT else POLLIN) = (if ?state = DISPATCH_READABLE then POLLIN else POLLOUT)"
    by (simp add: DISPATCH_READABLE_def DISPATCH_WRITEABLE_def)
  have st: "?state = DISPATCH_READABLE \<or> ?state = DISPATCH_WRITEABLE" by simp
  obtain s' where s': "dispatcher_set_event (Ptr d 0) (of_nat i) ?state ?s1 = ok s'" "kept {} ?s1 s'" "p_trace s' = p_trace ?s1"
      "polled d (xs[i := ((fst (xs ! i))\<lparr>pf_events := (if count < e_len e then POLLOUT else POLLIN), pf_revents := 0\<rparr>,
        snd (xs ! i))]) s'"
    using set_event_ok [OF P1 i st bits] by blast
  have "kept {k} s ?s1" by (auto simp: kept_def)
  then have "kept {k} s s'" by (rule kept_trans) (rule kept_mono [OF s'(2)], simp)
  moreover have "live (p_heap s') k = Some (PEcho ?e)"
    using keptD [OF s'(2), of k "PEcho ?e"] by simp
  ultimately show ?thesis
    using s'(1,3,4) unfolding run by simp
qed

text \<open>When \<open>send\<close> fails the connection asks to be closed.\<close>

lemma echo_writeable_fails:
  assumes P: "polled d xs s" and i: "i < length xs" and C: "live (p_heap s) (snd (xs ! i)) = Some (PConn C)"
    and e: "live (p_heap s) k = Some (PEcho e)" "echo_ok e" and sent: "p_send os fd (unsent e) (p_world s) = (count, w)" "count < 0"
  shows "\<exists>s'. echo_writeable os (Ptr d 0) (of_nat i) fd (Ptr k 0) s = ok s' \<and> polled d xs s' \<and>
    live (p_heap s') (snd (xs ! i)) = Some (PConn (C\<lparr>mc_is_closing := True\<rparr>)) \<and> kept {snd (xs ! i)} s s'"
proof -
  let ?s1 = "p_emit (Send fd (take (nat count) (unsent e))) (s\<lparr>p_world := w\<rparr>)"
  have "\<not> e_len e < 0" "\<not> int ECHO_SIZE < e_len e" using e(2) by (auto simp: echo_ok_def)
  then have "echo_writeable os (Ptr d 0) (of_nat i) fd (Ptr k 0) s = dispatcher_close_connection (Ptr d 0) (of_nat i) ?s1"
    using e(1) sent by (simp add: echo_writeable_def unsent_def p_sys_def dispatcher_print_error_def Let_def)
  moreover have "polled d xs ?s1" "live (p_heap ?s1) (snd (xs ! i)) = Some (PConn C)" using P C by simp_all
  note close = close_connection_ok [OF this(1) i this(2)]
  moreover have "kept {snd (xs ! i)} s (heap_put (Ptr (snd (xs ! i)) 0) (PConn (C\<lparr>mc_is_closing := True\<rparr>)) ?s1)"
    by (auto simp: kept_def)
  ultimately show ?thesis
    by (intro exI [of _ "heap_put (Ptr (snd (xs ! i)) 0) (PConn (C\<lparr>mc_is_closing := True\<rparr>)) ?s1"]) simp
qed

section \<open>The contract\<close>

text \<open>
  The echo handler needs data of its own for its connection. Of the system it relies on what POSIX says
  of \<open>recv\<close> and \<open>send\<close>: neither transfers more bytes than it was asked for.
\<close>

definition echo_own :: "my_connection \<Rightarrow> pobj heap \<Rightarrow> bool" where
  "echo_own C h \<longleftrightarrow> mc_handler C = 1 \<and>
     (\<exists>k e. mc_handledata C = Ptr k 0 \<and> live h k = Some (PEcho e) \<and> echo_ok e)"

definition echo_foot :: "my_connection \<Rightarrow> nat set" where
  "echo_foot C = (case mc_handledata C of Null \<Rightarrow> {} | Ptr k _ \<Rightarrow> {k})"

definition transfers :: "('w, 'm) pos_scheme \<Rightarrow> bool" where
  "transfers os \<longleftrightarrow> (\<forall>fd n w bytes w'. os_recv os fd n w = (Some bytes, w') \<longrightarrow> length bytes \<le> n) \<and>
     (\<forall>fd bytes w c w'. p_send os fd bytes w = (c, w') \<longrightarrow> c \<le> int (length bytes))"

lemma transfersD:
  "transfers os \<Longrightarrow> os_recv os fd n w = (Some bytes, w') \<Longrightarrow> length bytes \<le> n"
  "transfers os \<Longrightarrow> p_send os fd bytes w = (c, w') \<Longrightarrow> c \<le> int (length bytes)"
  unfolding transfers_def by blast+

text \<open>What a ready connection may become.\<close>

definition echo_result :: "nat \<Rightarrow> (pollfd \<times> nat) list \<Rightarrow> nat \<Rightarrow> my_connection \<Rightarrow> 'w pstate \<Rightarrow> 'w pstate \<Rightarrow> bool" where
  "echo_result d xs i C s s' \<longleftrightarrow> (\<exists>p C'. polled d (xs[i := (p, snd (xs ! i))]) s' \<and>
     pf_fd p = pf_fd (fst (xs ! i)) \<and> live (p_heap s') (snd (xs ! i)) = Some (PConn C') \<and>
     (mc_is_closing C' \<or> echo_own C' (p_heap s') \<and> echo_foot C' = echo_foot C) \<and>
     kept (insert (snd (xs ! i)) (echo_foot C)) s s')"

lemma echo_result_closing:
  assumes "polled d xs s'" "live (p_heap s') (snd (xs ! i)) = Some (PConn C')" "mc_is_closing C'"
    and "kept (insert (snd (xs ! i)) (echo_foot C)) s s'"
  shows "echo_result d xs i C s s'"
  using assms unfolding echo_result_def by (intro exI [of _ "fst (xs ! i)"] exI [of _ C']) simp

lemma echo_writeable_result:
  assumes T: "transfers os" and P: "polled d xs s" and i: "i < length xs"
    and C: "live (p_heap s) (snd (xs ! i)) = Some (PConn C)" "mc_handler C = 1" "mc_handledata C = Ptr k 0"
    and e: "live (p_heap s) k = Some (PEcho e)" "echo_ok e"
  shows "\<exists>s'. echo_writeable os (Ptr d 0) (of_nat i) fd (Ptr k 0) s = ok s' \<and> echo_result d xs i C s s'"
proof -
  obtain count w where sent: "p_send os fd (unsent e) (p_world s) = (count, w)" by (metis prod.exhaust)
  have "count \<le> int (length (unsent e))" by (rule transfersD(2) [OF T sent])
  then have le: "count \<le> e_len e" using e(2) by (auto simp: unsent_def echo_ok_def)
  have foot: "echo_foot C = {k}" by (simp add: echo_foot_def C(3))
  show ?thesis
  proof (cases "count < 0")
    case True
    obtain s' where s': "echo_writeable os (Ptr d 0) (of_nat i) fd (Ptr k 0) s = ok s'" "polled d xs s'"
        "live (p_heap s') (snd (xs ! i)) = Some (PConn (C\<lparr>mc_is_closing := True\<rparr>))" "kept {snd (xs ! i)} s s'"
      using echo_writeable_fails [OF P i C(1) e sent True] by blast
    then show ?thesis
      using echo_result_closing [OF s'(2,3), of C s] kept_mono [OF s'(4)] by auto
  next
    case False
    obtain s' where s': "echo_writeable os (Ptr d 0) (of_nat i) fd (Ptr k 0) s = ok s'"
        "live (p_heap s') k = Some (PEcho (echo_rest count e))" "kept {k} s s'"
        "polled d (xs[i := ((fst (xs ! i))\<lparr>pf_events := (if count < e_len e then POLLOUT else POLLIN), pf_revents := 0\<rparr>,
          snd (xs ! i))]) s'"
      using echo_writeable_ok [OF P i e sent _ le] False by auto
    have "snd (xs ! i) \<noteq> k" using C(1) e(1) by auto
    then have "live (p_heap s') (snd (xs ! i)) = Some (PConn C)"
      using keptD [OF s'(3) _ C(1)] by simp
    moreover have "echo_own C (p_heap s')"
      using C(2,3) s'(2) echo_rest_ok(1) [OF e(2) _ le] False by (simp add: echo_own_def)
    moreover have "kept (insert (snd (xs ! i)) (echo_foot C)) s s'"
      by (rule kept_mono [OF s'(3)]) (simp add: foot)
    ultimately have "echo_result d xs i C s s'"
      using s'(4) unfolding echo_result_def by fastforce
    with s'(1) show ?thesis by blast
  qed
qed

lemma echo_readable_result:
  assumes T: "transfers os" and P: "polled d xs s" and i: "i < length xs"
    and C: "live (p_heap s) (snd (xs ! i)) = Some (PConn C)" "mc_handler C = 1" "mc_handledata C = Ptr k 0"
    and e: "live (p_heap s) k = Some (PEcho e)" "echo_ok e"
  shows "\<exists>s'. echo_readable os (Ptr d 0) (of_nat i) fd (Ptr k 0) s = ok s' \<and> echo_result d xs i C s s'"
proof -
  let ?c = "snd (xs ! i)"
  obtain r w where recv: "os_recv os fd ECHO_SIZE (p_world s) = (r, w)" by (metis prod.exhaust)
  have foot: "echo_foot C = {k}" by (simp add: echo_foot_def C(3))
  have apart: "?c \<noteq> k" using C(1) e(1) by auto
  let ?put = "\<lambda>e'. heap_put (Ptr k 0) (PEcho e') (s\<lparr>p_world := w\<rparr>)"
  have P1: "polled d xs (?put e')" for e'
    by (rule polled_echo [where e = e]) (use P e in simp_all)
  have C1: "live (p_heap (?put e')) ?c = Some (PConn C)" for e'
    using C(1) apart by simp
  have K: "kept (insert ?c (echo_foot C)) s (?put e')" for e'
    by (auto simp: kept_def foot)
  have closing: "\<exists>s'. dispatcher_close_connection (Ptr d 0) (of_nat i) (?put e') = ok s' \<and> echo_result d xs i C s s'" for e'
  proof -
    let ?s' = "heap_put (Ptr ?c 0) (PConn (C\<lparr>mc_is_closing := True\<rparr>)) (?put e')"
    have "kept (insert ?c (echo_foot C)) s ?s'"
      by (rule kept_trans [OF K [of e'] kept_put]) simp
    with close_connection_ok [OF P1 i C1, of e'] show ?thesis
      by (intro exI [of _ ?s']) (simp add: echo_result_closing [where C' = "C\<lparr>mc_is_closing := True\<rparr>"])
  qed
  have run: "echo_readable os (Ptr d 0) (of_nat i) fd (Ptr k 0) s =
      (case r of None \<Rightarrow> dispatcher_close_connection (Ptr d 0) (of_nat i) (?put (e\<lparr>e_len := -1\<rparr>))
       | Some [] \<Rightarrow> dispatcher_close_connection (Ptr d 0) (of_nat i) (?put (e\<lparr>e_len := 0\<rparr>))
       | Some bytes \<Rightarrow> echo_writeable os (Ptr d 0) (of_nat i) fd (Ptr k 0)
           (?put \<lparr>e_buf = buf_recv bytes (e_buf e), e_len = int (length bytes)\<rparr>))"
    using e(1) recv
    by (simp add: echo_readable_def p_sys_def dispatcher_print_error_def dispatcher_print_info_def Let_def
        split: option.split list.split)
  consider "r = None" | "r = Some []" | bytes where "r = Some bytes" "bytes \<noteq> []"
    by (cases r) auto
  then show ?thesis
  proof cases
    case 3
    let ?e = "\<lparr>e_buf = buf_recv bytes (e_buf e), e_len = int (length bytes)\<rparr>"
    have "length bytes \<le> ECHO_SIZE" using transfersD(1) [OF T] recv 3(1) by blast
    then have e': "live (p_heap (?put ?e)) k = Some (PEcho ?e)" "echo_ok ?e"
      using echo_received(1) [OF e(2)] by simp_all
    obtain s' where s': "echo_writeable os (Ptr d 0) (of_nat i) fd (Ptr k 0) (?put ?e) = ok s'" "echo_result d xs i C (?put ?e) s'"
      using echo_writeable_result [OF T P1 i C1 C(2,3) e'] by blast
    then have "echo_result d xs i C s s'"
      using kept_trans [OF K [of ?e]] unfolding echo_result_def by blast
    with s'(1) 3 show ?thesis unfolding run by (cases bytes) auto
  qed (use closing in \<open>simp_all add: run\<close>)
qed

lemmas event_codes = DISPATCH_CREATED_def DISPATCH_CLOSED_def DISPATCH_ERRORED_def DISPATCH_READABLE_def DISPATCH_WRITEABLE_def

interpretation echo: poll_handler "echo_handlers os" echo_own echo_foot "transfers os"
  for os :: "('w, 'm) pos_scheme"
proof (unfold_locales, goal_cases)
  case (1 C h)
  then show ?case by (simp add: echo_own_def)
next
  case (2 C h k)
  then show ?case by (auto simp: echo_own_def echo_foot_def)
next
  case (3 C h h')
  then show ?case by (auto simp: echo_own_def echo_foot_def)
next
  case (4 d xs s i C e)
  obtain k e' where k: "mc_handler C = 1" "mc_handledata C = Ptr k 0" "live (p_heap s) k = Some (PEcho e')" "echo_ok e'"
    using 4(5) by (auto simp: echo_own_def)
  let ?fd = "pf_fd (fst (xs ! i))"
  obtain s1 where s1: "echo_writeable os (Ptr d 0) (of_nat i) ?fd (Ptr k 0) s = ok s1" "echo_result d xs i C s s1"
    using echo_writeable_result [OF 4(1-4) k] by blast
  obtain s2 where s2: "echo_readable os (Ptr d 0) (of_nat i) ?fd (Ptr k 0) s = ok s2" "echo_result d xs i C s s2"
    using echo_readable_result [OF 4(1-4) k] by blast
  have "\<exists>s'. handler_call (echo_handlers os) d xs i C e s = ok (0, s') \<and> echo_result d xs i C s s'"
    using s1 s2 4(6)
    by (auto simp: handler_call_def echo_handlers_def builtin_handler_echo_connection_def k(1,2) event_codes)
  then show ?case unfolding echo_result_def by blast
next
  case (5 d xs s i C)
  then have "mc_handler C = 1" by (simp add: echo_own_def)
  then show ?case
    by (auto simp: handler_call_def echo_handlers_def builtin_handler_echo_connection_def event_codes echo_errored_def
        p_sys_def dispatcher_print_error_def split: prod.split option.split)
next
  case (6 d xs s i C)
  obtain k e' where k: "mc_handler C = 1" "mc_handledata C = Ptr k 0" "live (p_heap s) k = Some (PEcho e')"
    using 6(4) by (auto simp: echo_own_def)
  let ?s = "s\<lparr>p_heap := (p_heap s)\<lparr>live := (live (p_heap s))(k := None)\<rparr>\<rparr>"
  have "handler_call (echo_handlers os) d xs i C DISPATCH_CLOSED s = ok (0, ?s)"
    using k by (simp add: handler_call_def echo_handlers_def builtin_handler_echo_connection_def event_codes
        dispatcher_print_info_def)
  moreover have "polled d xs ?s"
    by (rule polled_frame [OF 6(2)]) (use k(3) in auto)
  moreover have "kept (echo_foot C) s ?s"
    by (auto simp: kept_def echo_foot_def k(2))
  ultimately show ?case by blast
qed

text \<open>Every listed connection is an echo connection with data of its own.\<close>

definition echo_conns :: "nat set \<Rightarrow> 'w pstate \<Rightarrow> bool" where
  "echo_conns B s \<longleftrightarrow> (\<forall>b \<in> B. \<exists>C. live (p_heap s) b = Some (PConn C) \<and> echo_own C (p_heap s)) \<and>
     (\<forall>b \<in> B. \<forall>b' \<in> B. \<forall>C C'. b \<noteq> b' \<longrightarrow> live (p_heap s) b = Some (PConn C) \<longrightarrow>
        live (p_heap s) b' = Some (PConn C') \<longrightarrow> echo_foot C \<inter> echo_foot C' = {})"

lemma echo_conns_good: "echo.good B s = echo_conns B s"
  by (simp add: echo.good_def echo_conns_def)

end
