(* ===== verification/Poll_Types.thy ===== *)
theory Poll_Types
  imports Echo_Service Poll_Lists
begin

text \<open>
  The types of the blocks of the poll dispatcher. C casts between \<open>void *\<close> and the types of objects freely
  (\<open>handledata\<close>, the results of \<open>malloc\<close> and \<open>realloc\<close>); here every pointer stored in a live block has the
  type that the code uses it with, and every operation keeps it so: a block keeps its type for its whole
  life and is not used again after it has been freed.
\<close>

section \<open>Types of blocks and pointers\<close>

datatype kind = KDisp | KList | KConns | KConn | KEcho

fun kind_of :: "pobj \<Rightarrow> kind" where
  "kind_of (PDisp D) = KDisp"
| "kind_of (PList xs) = KList"
| "kind_of (PConns xs) = KConns"
| "kind_of (PConn C) = KConn"
| "kind_of (PEcho e) = KEcho"

text \<open>A pointer of a type is null, or points to a block that has the type or has been freed.\<close>

definition typed :: "pobj heap \<Rightarrow> kind \<Rightarrow> ptr \<Rightarrow> bool" where
  "typed h k p \<longleftrightarrow> (case p of Null \<Rightarrow> True
     | Ptr b o' \<Rightarrow> o' = 0 \<and> b < next_block h \<and> (\<forall>ob. live h b = Some ob \<longrightarrow> kind_of ob = k))"

fun typed_obj :: "pobj heap \<Rightarrow> pobj \<Rightarrow> bool" where
  "typed_obj h (PDisp D) \<longleftrightarrow> typed h KConns (pd_connections D) \<and> typed h KList (pd_list D)"
| "typed_obj h (PConns xs) \<longleftrightarrow> (\<forall>p. Some p \<in> set xs \<longrightarrow> typed h KConn p)"
| "typed_obj h (PConn C) \<longleftrightarrow> typed h KEcho (mc_handledata C)"
| "typed_obj h (PList xs) \<longleftrightarrow> True"
| "typed_obj h (PEcho e) \<longleftrightarrow> True"

definition well_typed :: "pobj heap \<Rightarrow> bool" where
  "well_typed h \<longleftrightarrow> (\<forall>b ob. live h b = Some ob \<longrightarrow> b < next_block h \<and> typed_obj h ob)"

definition evolves :: "pobj heap \<Rightarrow> pobj heap \<Rightarrow> bool" where
  "evolves h h' \<longleftrightarrow> next_block h \<le> next_block h' \<and>
     (\<forall>b ob'. b < next_block h \<longrightarrow> live h' b = Some ob' \<longrightarrow> (\<exists>ob. live h b = Some ob \<and> kind_of ob = kind_of ob'))"

lemma typed_simps [simp]:
  "typed h k Null"
  "typed h k (Ptr b o') \<longleftrightarrow> o' = 0 \<and> b < next_block h \<and> (\<forall>ob. live h b = Some ob \<longrightarrow> kind_of ob = k)"
  by (simp_all add: typed_def)

lemma evolves_refl [simp]: "evolves h h"
  by (simp add: evolves_def)

lemma evolves_trans [trans]: "evolves h h' \<Longrightarrow> evolves h' h'' \<Longrightarrow> evolves h h''"
  unfolding evolves_def by (metis order.strict_trans2 order_trans)

lemma typed_evolves: "typed h k p \<Longrightarrow> evolves h h' \<Longrightarrow> typed h' k p"
  by (cases p) (fastforce simp: evolves_def)+

lemma typed_obj_evolves: "typed_obj h ob \<Longrightarrow> evolves h h' \<Longrightarrow> typed_obj h' ob"
  by (cases ob) (auto intro: typed_evolves)

text \<open>The three ways in which a heap changes.\<close>

lemma well_typed_put:
  assumes "well_typed h" "live h b = Some ob" "kind_of ob' = kind_of ob" "typed_obj h ob'"
  shows "well_typed (h\<lparr>live := (live h)(b \<mapsto> ob')\<rparr>)" "evolves h (h\<lparr>live := (live h)(b \<mapsto> ob')\<rparr>)"
proof -
  show e: "evolves h (h\<lparr>live := (live h)(b \<mapsto> ob')\<rparr>)"
    using assms(2,3) by (simp add: evolves_def)
  show "well_typed (h\<lparr>live := (live h)(b \<mapsto> ob')\<rparr>)"
    using assms by (auto simp: well_typed_def intro: typed_obj_evolves [OF _ e])
qed

lemma well_typed_free:
  assumes "well_typed h"
  shows "well_typed (h\<lparr>live := (live h)(b := None)\<rparr>)" "evolves h (h\<lparr>live := (live h)(b := None)\<rparr>)"
proof -
  show e: "evolves h (h\<lparr>live := (live h)(b := None)\<rparr>)"
    by (simp add: evolves_def)
  show "well_typed (h\<lparr>live := (live h)(b := None)\<rparr>)"
    using assms by (auto simp: well_typed_def intro: typed_obj_evolves [OF _ e])
qed

lemma well_typed_malloc:
  assumes "well_typed h" "typed_obj h ob" "c_malloc al n ob h = (p, h')"
  shows "well_typed h'" "evolves h h'" "typed h' (kind_of ob) p"
    "p \<noteq> Null \<Longrightarrow> live h' (blk p) = Some ob \<and> live h (blk p) = None"
proof -
  have new: "live h (next_block h) = None"
    using assms(1) by (cases "live h (next_block h)") (auto simp: well_typed_def)
  show e: "evolves h h'" and "typed h' (kind_of ob) p" "p \<noteq> Null \<Longrightarrow> live h' (blk p) = Some ob \<and> live h (blk p) = None"
    using assms(3) new by (auto simp: c_malloc_def Let_def evolves_def split: if_splits)
  show "well_typed h'"
    unfolding well_typed_def
  proof (intro allI impI)
    fix b x assume "live h' b = Some x"
    then have "typed_obj h x \<and> b < next_block h'"
      using assms by (auto simp: well_typed_def c_malloc_def Let_def less_Suc_eq split: if_splits)
    then show "b < next_block h' \<and> typed_obj h' x" using typed_obj_evolves [OF _ e] by blast
  qed
qed

section \<open>Operations on states\<close>

text \<open>\<open>gives P m\<close>: if \<open>m\<close> returns, then with a result that satisfies \<open>P\<close>.\<close>

definition gives :: "('a \<Rightarrow> bool) \<Rightarrow> 'a outcome \<Rightarrow> bool" where
  "gives P m \<longleftrightarrow> (\<forall>x. m = ok x \<longrightarrow> P x)"

lemma gives_simps [simp]:
  "gives P (ok x) \<longleftrightarrow> P x" "gives P (raise e)" "gives P None" "gives P (obind m f) \<longleftrightarrow> gives (\<lambda>x. gives P (f x)) m"
  by (auto simp: gives_def obind_eq_ok)

lemma givesD: "gives P m \<Longrightarrow> m = ok x \<Longrightarrow> P x"
  by (simp add: gives_def)

lemma gives_mono: "gives P m \<Longrightarrow> (\<And>x. P x \<Longrightarrow> Q x) \<Longrightarrow> gives Q m"
  by (simp add: gives_def)

abbreviation wt :: "'w pstate \<Rightarrow> bool" where
  "wt s \<equiv> well_typed (p_heap s)"

abbreviation has_type :: "'w pstate \<Rightarrow> kind \<Rightarrow> ptr \<Rightarrow> bool" where
  "has_type s \<equiv> typed (p_heap s)"

text \<open>What follows \<open>s\<close>: well typed, and every pointer keeps its type.\<close>

definition follows :: "'w pstate \<Rightarrow> 'w pstate \<Rightarrow> bool" where
  "follows s s' \<longleftrightarrow> well_typed (p_heap s') \<and> evolves (p_heap s) (p_heap s')"

lemma follows_wt: "follows s s' \<Longrightarrow> wt s'"
  by (simp add: follows_def)

lemma follows_typed: "follows s s' \<Longrightarrow> has_type s k p \<Longrightarrow> has_type s' k p"
  by (auto simp: follows_def intro: typed_evolves)

lemma follows_trans: "follows s s' \<Longrightarrow> follows s' s'' \<Longrightarrow> follows s s''"
  by (auto simp: follows_def intro: evolves_trans)

lemma follows_heap: "wt s \<Longrightarrow> p_heap s' = p_heap s \<Longrightarrow> follows s s'"
  by (simp add: follows_def)

lemma follows_cong: "p_heap s' = p_heap t' \<Longrightarrow> p_heap s = p_heap t \<Longrightarrow> follows s s' = follows t t'"
  by (simp add: follows_def)

lemma heap_at_eq: "heap_at p s = ok ob \<longleftrightarrow> (\<exists>b. p = Ptr b 0 \<and> live (p_heap s) b = Some ob)"
  by (auto simp: heap_at_def split: ptr.splits option.splits if_splits)

lemma put_follows:
  assumes "wt s" "heap_at p s = ok ob" "kind_of ob' = kind_of ob" "typed_obj (p_heap s) ob'"
  shows "follows s (heap_put p ob' s)"
  using assms by (auto simp: follows_def heap_put_def heap_at_eq intro: well_typed_put)

lemma at_typed: "wt s \<Longrightarrow> heap_at p s = ok ob \<Longrightarrow> typed_obj (p_heap s) ob"
  by (auto simp: heap_at_eq well_typed_def)

lemma pd_get_eq: "pd_get d s = ok D \<longleftrightarrow> heap_at d s = ok (PDisp D)"
  by (auto simp: pd_get_def obind_eq_ok split: pobj.split_asm)

lemma mc_get_eq: "mc_get c s = ok C \<longleftrightarrow> heap_at c s = ok (PConn C)"
  by (auto simp: mc_get_def obind_eq_ok split: pobj.split_asm)

lemma echo_get_eq: "echo_get p s = ok e \<longleftrightarrow> heap_at p s = ok (PEcho e)"
  by (auto simp: echo_get_def obind_eq_ok split: pobj.split_asm)

text \<open>A step that leaves the dispatcher itself alone.\<close>

definition steady :: "'w pstate \<Rightarrow> 'w pstate \<Rightarrow> bool" where
  "steady s s' \<longleftrightarrow> follows s s' \<and> (\<forall>b D. live (p_heap s) b = Some (PDisp D) \<longrightarrow> live (p_heap s') b = Some (PDisp D))"

lemma steadyD: "steady s s' \<Longrightarrow> wt s'" "steady s s' \<Longrightarrow> follows s s'" "steady s s' \<Longrightarrow> has_type s k p \<Longrightarrow> has_type s' k p"
  "steady s s' \<Longrightarrow> heap_at d s = ok (PDisp D) \<Longrightarrow> heap_at d s' = ok (PDisp D)"
  by (auto simp: steady_def follows_wt heap_at_eq intro: follows_typed)

lemma steady_trans: "steady s s' \<Longrightarrow> steady s' s'' \<Longrightarrow> steady s s''"
  by (auto simp: steady_def intro: follows_trans)

lemma steady_heap: "wt s \<Longrightarrow> p_heap s' = p_heap s \<Longrightarrow> steady s s'"
  by (simp add: steady_def follows_heap)

lemma put_steady:
  assumes "wt s" "heap_at p s = ok ob" "kind_of ob' = kind_of ob" "typed_obj (p_heap s) ob'" "kind_of ob \<noteq> KDisp"
  shows "steady s (heap_put p ob' s)"
  using put_follows [OF assms(1-4)] assms(2,5) by (auto simp: steady_def heap_at_eq heap_put_def)

text \<open>Access.\<close>

lemma pd_get_gives:
  "wt s \<Longrightarrow> gives (\<lambda>D. heap_at d s = ok (PDisp D) \<and> has_type s KConns (pd_connections D) \<and> has_type s KList (pd_list D)) (pd_get d s)"
  using at_typed [of s d] by (fastforce simp: gives_def pd_get_eq)

lemma mc_get_gives: "wt s \<Longrightarrow> gives (\<lambda>C. has_type s KEcho (mc_handledata C)) (mc_get c s)"
  using at_typed [of s c] by (fastforce simp: gives_def mc_get_eq)

lemma echo_get_gives: "gives (\<lambda>e. heap_at p s = ok (PEcho e)) (echo_get p s)"
  by (simp add: gives_def echo_get_eq)

lemma gives_all: "(\<And>x. P x) \<Longrightarrow> gives P m"
  by (simp add: gives_def)

lemma conn_cell_gives: "wt s \<Longrightarrow> gives (\<lambda>x. \<forall>p. x = Some p \<longrightarrow> has_type s KConn p) (conn_cell p i s)"
  using at_typed [of s p]
  by (auto simp: gives_def conn_cell_def obind_eq_ok split: pobj.split_asm if_splits) (metis nth_mem typed_obj.simps(2))

lemma used_gives: "gives (\<lambda>y. x = Some y) (used x)"
  by (simp add: gives_def used_def split: option.split)

lemma poll_put_gives: "wt s \<Longrightarrow> gives (steady s) (poll_put p i x s)"
  by (auto simp: gives_def poll_put_def obind_eq_ok split: pobj.split_asm if_splits intro!: put_steady)

lemma conn_put_gives:
  "wt s \<Longrightarrow> \<forall>p. x = Some p \<longrightarrow> has_type s KConn p \<Longrightarrow> gives (steady s) (conn_put p i x s)"
  using at_typed [of s p]
  by (fastforce simp: gives_def conn_put_def obind_eq_ok split: pobj.split_asm if_splits intro!: put_steady
      dest!: set_update_subset_insert [THEN subsetD])

lemma mc_upd_gives:
  "wt s \<Longrightarrow> (\<And>C. has_type s KEcho (mc_handledata C) \<Longrightarrow> has_type s KEcho (mc_handledata (f C))) \<Longrightarrow> gives (steady s) (mc_upd p f s)"
  using at_typed [of s p]
  by (fastforce simp: gives_def mc_upd_def mc_get_eq obind_eq_ok intro!: put_steady)

lemma p_free_gives: "wt s \<Longrightarrow> has_type s k p \<Longrightarrow> k \<noteq> KDisp \<Longrightarrow> gives (steady s) (p_free p s)"
proof (cases p)
  case (Ptr b o')
  assume s: "wt s" "has_type s k p" "k \<noteq> KDisp"
  show ?thesis
    unfolding gives_def
  proof (intro allI impI)
    fix s' assume "p_free p s = ok s'"
    then have s': "s' = s\<lparr>p_heap := (p_heap s)\<lparr>live := (live (p_heap s))(b := None)\<rparr>\<rparr>"
      by (auto simp: p_free_def c_free_def obind_eq_ok Ptr split: if_splits)
    have "b \<noteq> b'" if "live (p_heap s) b' = Some (PDisp D)" for b' D
      using s(2,3) that by (auto simp: Ptr)
    with s(1) show "steady s s'"
      by (auto simp: s' steady_def follows_def intro: well_typed_free)
  qed
qed (simp_all add: p_free_def c_free_def steady_heap)

lemma p_malloc_gives:
  assumes "wt s" "p_malloc os n ob s = (p, s')" "typed_obj (p_heap s) ob"
  shows "steady s s'" "has_type s' (kind_of ob) p" "p \<noteq> Null \<Longrightarrow> heap_at p s' = ok ob"
proof -
  obtain h' where m: "c_malloc (os_alloc os) n ob (p_heap s) = (p, h')" "s' = s\<lparr>p_heap := h'\<rparr>"
    using assms(2) by (auto simp: p_malloc_def split: prod.splits)
  note w = well_typed_malloc [OF assms(1) assms(3) m(1)]
  show "has_type s' (kind_of ob) p" using w(3) m(2) by simp
  have other: "live h' b = Some ob'" if "live (p_heap s) b = Some ob'" for b ob'
  proof -
    have "b < next_block (p_heap s)" using assms(1) that by (simp add: well_typed_def)
    with m(1) that show ?thesis by (auto simp: c_malloc_def Let_def split: if_splits)
  qed
  then show "steady s s'" using w(1,2) m(2) by (auto simp: steady_def follows_def)
  show "heap_at p s' = ok ob" if "p \<noteq> Null"
    using w(4) [OF that] m by (auto simp: heap_at_eq c_malloc_def Let_def split: if_splits)
qed

lemma p_realloc_gives:
  assumes "wt s" "has_type s k p" "kind_of ob = k" "typed_obj (p_heap s) ob" "k \<in> {KList, KConns}"
  shows "gives (\<lambda>(q, s'). steady s s' \<and> has_type s' k q) (p_realloc os p n ob s)"
  unfolding gives_def
proof (clarify, intro conjI)
  fix q s' assume run: "p_realloc os p n ob s = ok (q, s')"
  have shape: "kind_of (grow m x) = kind_of x" "typed_obj h x \<Longrightarrow> typed_obj h (grow m x)" for m x h
    by (cases x; auto simp: grow_def dest: in_set_takeD)+
  obtain h' where c: "c_realloc (os_alloc os) p (ucast n * 8) (grow (unat n)) ob (p_heap s) = ok (q, h')" "s' = s\<lparr>p_heap := h'\<rparr>"
    using run by (auto simp: p_realloc_def obind_eq_ok)
  have "steady s s' \<and> has_type s' k q"
  proof (cases p)
    case Null
    then have "p_malloc os (ucast n * 8) ob s = (q, s')" using c by (simp add: c_realloc_def p_malloc_def)
    with p_malloc_gives [OF assms(1) this assms(4)] assms(3) show ?thesis by simp
  next
    case (Ptr b o')
    then obtain old where old: "live (p_heap s) b = Some old" "o' = 0" "kind_of old = k" "typed_obj (p_heap s) old"
      using c(1) assms(1,2) by (auto simp: c_realloc_def well_typed_def split: option.splits if_splits)
    let ?m = "c_malloc (os_alloc os) (ucast n * 8) (grow (unat n) old) (p_heap s)"
    obtain h1 where m: "p_malloc os (ucast n * 8) (grow (unat n) old) s = (fst ?m, s\<lparr>p_heap := h1\<rparr>)" "h1 = snd ?m"
      by (auto simp: p_malloc_def split: prod.split)
    note g = p_malloc_gives [OF assms(1) m(1) shape(2) [OF old(4)]]
    have freed: "steady s1 (s1\<lparr>p_heap := (p_heap s1)\<lparr>live := (live (p_heap s1))(b := None)\<rparr>\<rparr>)"
      if "wt s1" "has_type s1 k p" "live (p_heap s1) b \<noteq> None" for s1 :: "'a pstate"
      using p_free_gives [OF that(1,2)] assms(5) that(3) by (auto simp: p_free_def c_free_def Ptr old(2) gives_def)
    show ?thesis
    proof (cases "ucast n * 8 = (0 :: u64) \<and> realloc0_frees (os_alloc os)")
      case True
      then show ?thesis using c old freed [OF assms(1,2)] by (simp add: c_realloc_def Ptr)
    next
      case False
      let ?s1 = "s\<lparr>p_heap := h1\<rparr>" and ?s2 = "s\<lparr>p_heap := h1\<lparr>live := (live h1)(b := None)\<rparr>\<rparr>"
      have "b < next_block (p_heap s)" using assms(1) old(1) by (auto simp: well_typed_def)
      then have "live h1 b \<noteq> None" using m(2) old(1) by (auto simp: c_malloc_def Let_def)
      then have 2: "steady ?s1 ?s2"
        using freed [OF steadyD(1) [OF g(1)] steadyD(3) [OF g(1) assms(2)]] by simp
      have "has_type ?s1 k (fst ?m)" using g(2) old(3) shape(1) by simp
      note 3 = this steadyD(3) [OF 2 this]
      have "q = Null \<and> s' = ?s1 \<or> q = fst ?m \<and> s' = ?s2"
        using c False old m(2) by (auto simp: c_realloc_def Ptr split: prod.splits if_splits)
      with 3 g(1) steady_trans [OF g(1) 2] show ?thesis by auto
    qed
  qed
  then show "steady s s'" "has_type s' k q" by simp_all
qed

section \<open>Rules\<close>

text \<open>
  One rule per access, for a state \<open>s1\<close> reached from \<open>s\<close>. What has a type in \<open>s\<close> still has it in \<open>s1\<close>.
\<close>

named_theorems gives_rules

lemma steady_simps [simp]:
  "steady (p_close os fd s) s' = steady s s'" "steady (p_emit a s) s' = steady s s'" "steady (s\<lparr>p_world := w\<rparr>) s' = steady s s'"
  "steady s (p_close os fd s') = steady s s'" "steady s (p_emit a s') = steady s s'" "steady s (s'\<lparr>p_world := w\<rparr>) = steady s s'"
  "follows (p_close os fd s) s' = follows s s'" "follows (p_emit a s) s' = follows s s'" "follows (s\<lparr>p_world := w\<rparr>) s' = follows s s'"
  "follows s (p_close os fd s') = follows s s'" "follows s (p_emit a s') = follows s s'" "follows s (s'\<lparr>p_world := w\<rparr>) = follows s s'"
  by (simp_all add: steady_def follows_def)

lemma gives_if [simp]: "gives P (if b then m else n) \<longleftrightarrow> (b \<longrightarrow> gives P m) \<and> (\<not> b \<longrightarrow> gives P n)"
  by simp

lemma gives_after:
  "gives (steady s1) m \<Longrightarrow> steady s s1 \<Longrightarrow> (\<And>s2. steady s s2 \<Longrightarrow> Q s2) \<Longrightarrow> gives Q m"
  by (auto intro: gives_mono steady_trans)

lemma pd_get_rule [gives_rules]:
  "steady s s1 \<Longrightarrow> (\<And>D. heap_at d s1 = ok (PDisp D) \<Longrightarrow> has_type s1 KConns (pd_connections D) \<Longrightarrow>
     has_type s1 KList (pd_list D) \<Longrightarrow> Q D) \<Longrightarrow> gives Q (pd_get d s1)"
  using pd_get_gives [OF steadyD(1)] by (rule gives_mono) simp_all

lemma mc_get_rule [gives_rules]:
  "steady s s1 \<Longrightarrow> (\<And>C. has_type s1 KEcho (mc_handledata C) \<Longrightarrow> Q C) \<Longrightarrow> gives Q (mc_get c s1)"
  using mc_get_gives [OF steadyD(1)] by (rule gives_mono) simp_all

lemma conn_cell_rule [gives_rules]:
  "steady s s1 \<Longrightarrow> (\<And>x. \<forall>p. x = Some p \<longrightarrow> has_type s1 KConn p \<Longrightarrow> Q x) \<Longrightarrow> gives Q (conn_cell p i s1)"
  using conn_cell_gives [OF steadyD(1)] by (rule gives_mono) simp_all

lemma poll_cell_rule [gives_rules]: "(\<And>x. Q x) \<Longrightarrow> gives Q (poll_cell p i s1)"
  by (rule gives_all)

lemma poll_read_rule [gives_rules]: "(\<And>x. Q x) \<Longrightarrow> gives Q (poll_read p i s1)"
  by (rule gives_all)

lemma used_rule [gives_rules]: "(\<And>y. x = Some y \<Longrightarrow> Q y) \<Longrightarrow> gives Q (used x)"
  using used_gives by (rule gives_mono)

lemma poll_put_rule [gives_rules]:
  "steady s s1 \<Longrightarrow> (\<And>s2. steady s s2 \<Longrightarrow> Q s2) \<Longrightarrow> gives Q (poll_put p i x s1)"
  by (rule gives_after [OF poll_put_gives [OF steadyD(1)]])

lemma conn_put_rule [gives_rules]:
  "steady s s1 \<Longrightarrow> \<forall>p. x = Some p \<longrightarrow> has_type s1 KConn p \<Longrightarrow> (\<And>s2. steady s s2 \<Longrightarrow> Q s2) \<Longrightarrow>
     gives Q (conn_put p i x s1)"
  by (rule gives_after [OF conn_put_gives [OF steadyD(1)]])

lemma mc_upd_rule [gives_rules]:
  "steady s s1 \<Longrightarrow> (\<And>C. has_type s1 KEcho (mc_handledata C) \<Longrightarrow> has_type s1 KEcho (mc_handledata (f C))) \<Longrightarrow>
     (\<And>s2. steady s s2 \<Longrightarrow> Q s2) \<Longrightarrow> gives Q (mc_upd p f s1)"
  by (rule gives_after [OF mc_upd_gives [OF steadyD(1)]])

lemma p_free_rule [gives_rules]:
  "steady s s1 \<Longrightarrow> has_type s k p \<Longrightarrow> k \<noteq> KDisp \<Longrightarrow> (\<And>s2. steady s s2 \<Longrightarrow> Q s2) \<Longrightarrow> gives Q (p_free p s1)"
  by (rule gives_after [OF p_free_gives [OF steadyD(1,3)]])

lemma put_dispatcher_rule:
  assumes "steady s s1" "heap_at d s = ok (PDisp D)" "has_type s1 KConns (pd_connections D')" "has_type s1 KList (pd_list D')"
  shows "follows s (heap_put d (PDisp D') s1)"
proof -
  have "follows s1 (heap_put d (PDisp D') s1)"
    using assms(3,4) by (intro put_follows [OF steadyD(1) [OF assms(1)] steadyD(4) [OF assms(1,2)]]) simp_all
  with steadyD(2) [OF assms(1)] show ?thesis by (rule follows_trans)
qed

section \<open>The operations of the dispatcher\<close>

lemma close_connection_rule [gives_rules]:
  "steady s s1 \<Longrightarrow> (\<And>s2. steady s s2 \<Longrightarrow> Q s2) \<Longrightarrow> gives Q (dispatcher_close_connection d i s1)"
  unfolding dispatcher_close_connection_def gives_simps by (intro gives_rules) simp_all

lemma set_userdata_rule [gives_rules]:
  "steady s s1 \<Longrightarrow> has_type s1 KEcho p \<Longrightarrow> (\<And>s2. steady s s2 \<Longrightarrow> Q s2) \<Longrightarrow> gives Q (dispatcher_set_userdata d i p s1)"
  unfolding dispatcher_set_userdata_def gives_simps by (intro gives_rules) simp_all

lemma set_event_rule [gives_rules]:
  "steady s s1 \<Longrightarrow> (\<And>s2. steady s s2 \<Longrightarrow> Q s2) \<Longrightarrow> gives Q (dispatcher_set_event d i e s1)"
  unfolding dispatcher_set_event_def gives_simps gives_if by (intro conjI impI gives_rules) simp_all

lemma remove_at_gives:
  assumes "wt s"
  shows "gives (follows s) (dispatcher_remove_at os d i s)"
proof -
  have s: "steady s s" using assms by (simp add: steady_heap)
  show ?thesis
    unfolding dispatcher_remove_at_def gives_simps Let_def gives_if
    by (intro conjI impI gives_rules put_dispatcher_rule) (auto intro: s steadyD(3))
qed

lemma p_realloc_rule [gives_rules]:
  assumes "steady s s1" "has_type s1 k p" "kind_of ob = k" "typed_obj (p_heap s1) ob" "k \<in> {KList, KConns}"
    "\<And>q s2. steady s s2 \<Longrightarrow> steady s1 s2 \<Longrightarrow> has_type s2 k q \<Longrightarrow> Q (q, s2)"
  shows "gives Q (p_realloc os p n ob s1)"
  by (rule gives_mono [OF p_realloc_gives [OF steadyD(1) [OF assms(1)] assms(2-5)]])
    (auto intro: assms(6) steady_trans [OF assms(1)])

lemma p_sys_eq: "p_sys f s = (fst (f (p_world s)), s\<lparr>p_world := snd (f (p_world s))\<rparr>)"
  by (simp add: p_sys_def split: prod.split)

lemma conn_fill_rule [gives_rules]:
  "steady s s1 \<Longrightarrow> (\<And>s2. steady s s2 \<Longrightarrow> Q s2) \<Longrightarrow> gives Q (conn_fill os c sa n s1)"
  unfolding conn_fill_def p_sys_eq Let_def case_prod_unfold fst_conv snd_conv gives_simps gives_if
  by (intro conjI impI gives_rules) (assumption | simp)+

lemma follows_refl: "wt s \<Longrightarrow> follows s s"
  by (rule follows_heap) simp_all

lemma heap_at_put: "heap_at d s = ok ob \<Longrightarrow> heap_at d (heap_put d ob' s) = ok ob'"
  unfolding heap_at_eq by (elim ex_forward) (simp add: heap_put_def)

lemma grow_lists_gives:
  assumes "wt s" "heap_at d s = ok (PDisp D)"
  shows "gives (follows s)
    (if pd_count D \<ge> pd_max D then
       let D = D\<lparr>pd_max := pd_max D + 1\<rparr> in
       obind (p_realloc os (pd_list D) (pd_max D) (PList (replicate (unat (pd_max D)) None)) s) (\<lambda>(list, s).
       obind (p_realloc os (pd_connections D) (pd_max D) (PConns (replicate (unat (pd_max D)) None)) s) (\<lambda>(conns, s).
       ok (heap_put d (PDisp (D\<lparr>pd_list := list, pd_connections := conns\<rparr>)) s)))
     else ok s)"
proof -
  have s: "steady s s" using assms(1) by (simp add: steady_heap)
  have "has_type s KConns (pd_connections D)" "has_type s KList (pd_list D)"
    using at_typed [OF assms] by simp_all
  then show ?thesis
    unfolding gives_if Let_def case_prod_unfold gives_simps
    apply (intro conjI impI p_realloc_rule put_dispatcher_rule follows_refl)
    apply (rule s | assumption | simp | rule assms | (erule steadyD(3), simp))+
    done
qed

text \<open>The count goes up before the lists grow.\<close>

lemma put_count:
  assumes "steady s s2" "heap_at d s = ok (PDisp D)" "wt s"
  shows "follows s (heap_put d (PDisp (D\<lparr>pd_count := k\<rparr>)) s2)"
    "heap_at d (heap_put d (PDisp (D\<lparr>pd_count := k\<rparr>)) s2) = ok (PDisp (D\<lparr>pd_count := k\<rparr>))"
  using at_typed [OF assms(3,2)] heap_at_put [OF steadyD(4) [OF assms(1,2)]] steadyD(3) [OF assms(1)]
  by (simp_all add: put_dispatcher_rule [OF assms(1,2)])

lemma put_count_follows:
  "follows (heap_put d (PDisp (D\<lparr>pd_count := k\<rparr>)) s2) s3 \<Longrightarrow> steady s s2 \<Longrightarrow> heap_at d s = ok (PDisp D) \<Longrightarrow> wt s \<Longrightarrow>
    follows s s3"
  by (rule follows_trans [OF put_count(1)])

lemma add_connection_gives:
  assumes "wt s"
  shows "gives (follows s) (dispatcher_add_connection os d fd sa n f data s)"
proof -
  have s: "steady s s" using assms by (simp add: steady_heap)
  show ?thesis
    unfolding dispatcher_add_connection_def gives_simps Let_def
    by (intro gives_rules gives_mono [OF grow_lists_gives [unfolded Let_def]])
      (rule s | assumption | rule follows_wt [OF put_count(1)] put_count(2) assms | erule put_count_follows)+
qed

lemma add_connection_from:
  assumes "wt s" "p_heap s1 = p_heap s"
  shows "gives (follows s) (dispatcher_add_connection os d fd sa n f data s1)"
proof -
  have "wt s1" using assms by simp
  from add_connection_gives [OF this] show ?thesis unfolding follows_def assms(2) .
qed

section \<open>Creation and destruction\<close>

lemma create_gives:
  assumes "wt s"
  shows "gives (\<lambda>(d, s'). follows s s' \<and> has_type s' KDisp d) (dispatcher_create_poll os s)"
proof -
  obtain d s1 where 1: "p_malloc os 24 (PDisp \<lparr>pd_connections = Null, pd_list = Null, pd_count = 0, pd_max = 1\<rparr>) s = (d, s1)"
    by fastforce
  obtain l s2 where 2: "p_malloc os 8 (PList [None]) s1 = (l, s2)" by fastforce
  obtain cs s3 where 3: "p_malloc os 8 (PConns [None]) s2 = (cs, s3)" by fastforce
  let ?s4 = "heap_put d (PDisp \<lparr>pd_connections = cs, pd_list = l, pd_count = 0, pd_max = 1\<rparr>) s3"
  obtain c s5 where 5: "p_malloc os 752 (PConn zero_my_connection) ?s4 = (c, s5)" by fastforce
  show ?thesis
  proof (cases "d = Null")
    case True
    then show ?thesis by (simp add: dispatcher_create_poll_def 1)
  next
    case False
    note s1 = p_malloc_gives [OF assms 1]
    have d: "steady s s1" "heap_at d s1 = ok (PDisp \<lparr>pd_connections = Null, pd_list = Null, pd_count = 0, pd_max = 1\<rparr>)"
      using s1(1,3) False by simp_all
    note s2 = p_malloc_gives [OF steadyD(1) [OF d(1)] 2]
    have s2': "steady s1 s2" "has_type s2 KList l" using s2(1,2) by simp_all
    note s3 = p_malloc_gives [OF steadyD(1) [OF s2'(1)] 3]
    have s3': "steady s2 s3" "has_type s3 KConns cs" "has_type s3 KList l"
      using s3(1,2) steadyD(3) [OF s3(1) s2'(2)] by simp_all
    have s4: "follows s1 ?s4"
      by (rule put_dispatcher_rule [OF steady_trans [OF s2'(1) s3'(1)] d(2)]) (simp_all add: s3'(2,3))
    note s5 = p_malloc_gives [OF follows_wt [OF s4] 5]
    have s5': "steady ?s4 s5" "has_type s5 KConn c"
      using s5(1,2) by (simp_all add: zero_my_connection_def)
    have "follows s s5" by (rule follows_trans [OF follows_trans [OF steadyD(2) [OF d(1)] s4] steadyD(2) [OF s5'(1)]])
    moreover have "has_type s5 KDisp d"
      using steadyD(3) [OF s5'(1) follows_typed [OF s4]] s1(2) by simp
    moreover have "gives (steady s5) (conn_put cs 0 (Some c) s5)"
      using conn_put_gives [OF steadyD(1) [OF s5'(1)]] s5'(2) by simp
    ultimately show ?thesis
      using False by (auto simp: dispatcher_create_poll_def 1 2 3 5 elim!: gives_mono intro: follows_trans steadyD)
  qed
qed

lemma destroy_loop_gives: "destroy_loop os d s = Some r \<Longrightarrow> wt s \<Longrightarrow> gives (follows s) (Some r)"
proof (induction rule: destroy_loop.raw_induct [rotated, consumes 1, case_names step])
  case (step loop os d s r)
  have "gives (follows s) (loop os d s1)" if "follows s s1" for s1
    using step.IH [of os d s1] follows_wt [OF that] follows_trans [OF that] by (fastforce simp: gives_def ok_def)
  then have "gives (follows s) (obind (pd_get d s) (\<lambda>D. if pd_count D \<noteq> 0
      then obind (dispatcher_remove_at os d (ucast (pd_count D - 1)) s) (loop os d) else ok s))"
    using step.prems unfolding gives_simps gives_if
    by - (rule gives_all, intro conjI impI, rule gives_mono [OF remove_at_gives], auto intro: follows_refl)
  with step.hyps show ?case by simp
qed

lemma destroy_gives:
  assumes "wt s"
  shows "gives (follows s) (dispatcher_destroy_poll os d s)"
proof -
  have loop: "gives (follows s) (destroy_loop os d s)"
    using destroy_loop_gives [OF _ assms] by (auto simp: gives_def ok_def)
  have rest: "gives (follows s) (obind (pd_get d s1) (\<lambda>D. obind (p_free (pd_list D) s1) (\<lambda>s. p_free (pd_connections D) s)))"
    if "follows s s1" for s1
  proof -
    have s1: "steady s1 s1" using follows_wt [OF that] by (simp add: steady_heap)
    show ?thesis
      unfolding gives_simps
      by (intro pd_get_rule [OF s1] p_free_rule [OF s1], assumption, simp, intro p_free_rule)
        (assumption | simp | blast intro: follows_trans [OF that] steadyD(2))+
  qed
  then show ?thesis
    unfolding dispatcher_destroy_poll_def gives_simps by (rule gives_mono [OF loop])
qed

lemma register_server_gives:
  assumes "wt s"
  shows "gives (\<lambda>(r, s'). follows s s') (dispatcher_register_server os d h n f data s)"
proof -
  have add: "gives (\<lambda>s'. follows s s') (dispatcher_add_connection os d fd sa n f dat s1)" if "p_heap s1 = p_heap s" for fd sa n f dat s1
    by (rule add_connection_from [OF assms that])
  have clean: "gives (\<lambda>x. follows s (snd x)) (server_cleanup os fd ai s1)" if "p_heap s1 = p_heap s" for fd ai s1
    using assms that by (cases ai) (simp_all add: server_cleanup_def follows_heap Let_def)
  show ?thesis
    unfolding dispatcher_register_server_def p_sys_eq Let_def case_prod_unfold fst_conv snd_conv gives_simps gives_if
    by (intro conjI impI add clean) (simp_all add: if_distrib [where f = p_heap])
qed

end
