(* ===== verification/Echo_Types.thy ===== *)
theory Echo_Types
  imports Poll_Types
begin

text \<open>
  The types of the heap under the calls of handlers: the contract \<open>typed_handlers\<close>, its instance for the
  echo service, and the steps that a program makes of the operations of both.
\<close>

section \<open>Handlers\<close>

text \<open>A handler may do with the dispatcher what it likes as long as it keeps the types.\<close>

locale typed_handlers =
  fixes hs :: "'w phandlers"
  assumes handler_gives: "\<lbrakk>wt s; has_type s KEcho data\<rbrakk> \<Longrightarrow> gives (\<lambda>(r, s'). follows s s') (hs f d i fd e data s)"
begin

lemma notify_rule:
  assumes "follows s s1" "\<And>s2. follows s s2 \<Longrightarrow> Q s2"
  shows "gives Q (poll_notify hs d i c e s1)"
proof -
  have s1: "steady s1 s1" using follows_wt [OF assms(1)] by (simp add: steady_heap)
  have "gives Q (call_handler hs (mc_handler C) d i fd e (mc_handledata C) s1)" if "has_type s1 KEcho (mc_handledata C)" for C fd
  proof -
    let ?s1 = "p_emit (Handle (mc_handler C) i fd e) s1"
    have "gives (\<lambda>(r, s'). follows ?s1 s') (hs (mc_handler C) d i fd e (mc_handledata C) ?s1)"
      using that follows_wt [OF assms(1)] by (intro handler_gives) simp_all
    then show ?thesis
      unfolding call_handler_def gives_simps gives_if
      by (intro conjI impI gives_simps(2)) (erule gives_mono, clarsimp, rule assms(2), erule follows_trans [OF assms(1)])
  qed
  then show ?thesis
    unfolding poll_notify_def gives_simps by (intro gives_rules) (rule s1 | assumption)+
qed

lemma remove_and_stay_rule:
  assumes "follows s s1" "\<And>j s2. follows s s2 \<Longrightarrow> Q (j, s2)"
  shows "gives Q (remove_and_stay os d i s1)"
  unfolding remove_and_stay_def gives_simps
  by (rule gives_mono [OF remove_at_gives [OF follows_wt [OF assms(1)]]]) (rule assms(2), erule follows_trans [OF assms(1)])

lemma remove_if_closing_rule:
  assumes "follows s s1" "\<And>j s2. follows s s2 \<Longrightarrow> Q (j, s2)"
  shows "gives Q (remove_if_closing os d i c s1)"
  unfolding remove_if_closing_def gives_simps gives_if
  by (rule gives_all, intro conjI impI remove_and_stay_rule [OF assms(1)]) (auto intro: assms)

lemma poll_one_gives:
  assumes "wt s"
  shows "gives (\<lambda>(j, s'). follows s s') (poll_one os hs d i s)"
proof -
  have s: "follows s s" "steady s s" "\<And>a. follows s (p_emit a s)" using assms by (simp_all add: follows_refl steady_heap)
  show ?thesis
    unfolding poll_one_def gives_simps gives_if Let_def
    by (intro pd_get_rule [OF s(2)] conn_cell_rule [OF s(2)] mc_get_rule [OF s(2)] used_rule poll_cell_rule conjI impI
        notify_rule [OF s(1)] notify_rule [OF s(3)])
      (simp add: s(1) | rule notify_rule remove_and_stay_rule remove_if_closing_rule, assumption)+
qed

lemma poll_loop_some: "poll_loop os h d i s = Some r \<Longrightarrow> h = hs \<Longrightarrow> wt s \<Longrightarrow> gives (follows s) (Some r)"
proof (induction rule: poll_loop.raw_induct [rotated, consumes 1, case_names step])
  case (step loop os h d i s r)
  have "gives (follows s) (loop os hs d j s1)" if "follows s s1" for j s1
    using step.IH [of os hs d j s1] step.prems(1) follows_wt [OF that] follows_trans [OF that]
    by (fastforce simp: gives_def ok_def)
  then have "gives (follows s) (obind (pd_get d s) (\<lambda>D. if i < pd_count D
      then obind (poll_one os hs d i s) (\<lambda>(j, s). loop os hs d j s) else ok s))"
    using step.prems(2) unfolding gives_simps gives_if
    by - (rule gives_all, intro conjI impI, rule gives_mono [OF poll_one_gives], auto intro: follows_refl)
  then show ?case unfolding step.hyps [symmetric] step.prems(1) .
qed

lemma poll_loop_rule:
  assumes "follows s s1" "\<And>s2. follows s s2 \<Longrightarrow> Q s2"
  shows "gives Q (poll_loop os hs d i s1)"
proof (rule gives_mono)
  show "gives (follows s1) (poll_loop os hs d i s1)"
    using poll_loop_some [of os hs d i s1, OF _ refl follows_wt [OF assms(1)]] by (auto simp: gives_def ok_def)
qed (rule assms(2), erule follows_trans [OF assms(1)])

lemma poll_write_gives: "wt s \<Longrightarrow> gives (steady s) (poll_write p fds rs s)"
  by (auto simp: gives_def poll_write_def obind_eq_ok split: pobj.split_asm intro!: put_steady)

lemma dispatch_gives:
  assumes "wt s"
  shows "gives (\<lambda>(r, s'). follows s s') (dispatcher_dispatch_poll os hs d ms s)"
proof -
  have s: "steady s s" "follows s s" using assms by (simp_all add: follows_refl steady_heap)
  have wr: "gives Q (poll_write p fds rs (s\<lparr>p_world := w\<rparr>))" if "\<And>s2. follows s s2 \<Longrightarrow> Q s2" for Q p fds rs w
    by (rule gives_mono [OF poll_write_gives]) (auto simp: assms intro: that steadyD(2))
  have idle: "gives (\<lambda>(r, s'). follows s s') (case x of None \<Rightarrow> None | Some w \<Rightarrow> ok (-1, s\<lparr>p_world := w\<rparr>))" for x
    using s by (cases x) simp_all
  show ?thesis
    unfolding dispatcher_dispatch_poll_def p_sys_eq Let_def case_prod_unfold fst_conv snd_conv gives_simps gives_if
    by (intro conjI impI pd_get_rule [OF s(1)] poll_read_rule wr idle [unfolded case_prod_unfold] poll_loop_rule) simp_all
qed

end

section \<open>The echo service\<close>

lemma echo_get_rule: "(\<And>e. heap_at p s1 = ok (PEcho e) \<Longrightarrow> Q e) \<Longrightarrow> gives Q (echo_get p s1)"
  using echo_get_gives by (rule gives_mono)

lemma put_echo: "steady s s1 \<Longrightarrow> heap_at p s1 = ok (PEcho e) \<Longrightarrow> steady s (heap_put p (PEcho e') s1)"
  by (rule steady_trans, assumption, rule put_steady [OF steadyD(1)]) (assumption | simp)+

lemma heap_at_world [simp]: "heap_at p (s\<lparr>p_world := w\<rparr>) = heap_at p s" "heap_at p (p_emit a s) = heap_at p s"
  by (simp_all add: heap_at_def split: ptr.split)

lemma echo_writeable_rule:
  assumes "steady s s1" "\<And>s2. steady s s2 \<Longrightarrow> Q s2"
  shows "gives Q (echo_writeable os d i fd data s1)"
  unfolding echo_writeable_def dispatcher_print_error_def p_sys_eq Let_def case_prod_unfold fst_conv snd_conv gives_simps gives_if
  by (intro echo_get_rule conjI impI gives_simps(2) set_event_rule [where s = s]
      close_connection_rule [where s = s])
    (assumption | rule assms(2) put_echo | simp add: assms(1))+

lemma case_recv_rule:
  "\<lbrakk>gives Q m; gives Q n; \<And>b bs. gives Q (f b bs)\<rbrakk> \<Longrightarrow>
    gives Q (case r of None \<Rightarrow> m | Some xs \<Rightarrow> case xs of [] \<Rightarrow> n | b # bs \<Rightarrow> f b bs)"
  by (simp split: option.split list.split)

lemma echo_readable_rule:
  assumes "steady s s1" "\<And>s2. steady s s2 \<Longrightarrow> Q s2"
  shows "gives Q (echo_readable os d i fd data s1)"
  unfolding echo_readable_def dispatcher_print_error_def dispatcher_print_info_def p_sys_eq Let_def case_prod_unfold
    fst_conv snd_conv gives_simps
  by (intro echo_get_rule case_recv_rule close_connection_rule [where s = s] echo_writeable_rule [where s = s])
    (assumption | rule assms(2) put_echo | simp add: assms(1))+

lemma p_malloc_rule:
  assumes "steady s s1" "typed_obj (p_heap s1) ob"
    and "\<And>p s2. steady s s2 \<Longrightarrow> has_type s2 (kind_of ob) p \<Longrightarrow> gives Q (f p s2)"
  shows "gives Q (case p_malloc os n ob s1 of (p, s2) \<Rightarrow> f p s2)"
proof -
  obtain p s2 where m: "p_malloc os n ob s1 = (p, s2)" by fastforce
  note g = p_malloc_gives [OF steadyD(1) [OF assms(1)] m assms(2)]
  show ?thesis unfolding m case_prod_conv by (rule assms(3) [OF steady_trans [OF assms(1) g(1)] g(2)])
qed

lemma echo_created_rule:
  assumes "steady s s1" "\<And>s2. steady s s2 \<Longrightarrow> Q s2"
  shows "gives Q (echo_created os d i data s1)"
  unfolding echo_created_def Let_def gives_if
  by (intro conjI impI p_malloc_rule [OF assms(1)]) (simp_all add: assms set_userdata_rule)

lemma echo_errored_heap: "p_heap (echo_errored os d i fd s) = p_heap s"
  by (simp add: echo_errored_def dispatcher_print_error_def p_sys_eq Let_def split: option.split)

lemma echo_connection_gives:
  assumes "wt s" "has_type s KEcho data"
  shows "gives (\<lambda>(r, s'). follows s s') (builtin_handler_echo_connection os d i fd e data s)"
proof -
  have s: "steady s s" using assms(1) by (simp add: steady_heap)
  show ?thesis
    unfolding builtin_handler_echo_connection_def dispatcher_print_info_def gives_simps gives_if case_prod_conv
    by (intro conjI impI echo_created_rule [OF s] echo_readable_rule [OF s] echo_writeable_rule [OF s]
        p_free_rule [OF s assms(2)] follows_heap assms(1) steadyD(2)) (simp_all add: echo_errored_heap)
qed

lemma echo_listen_gives:
  assumes "wt s"
  shows "gives (\<lambda>(r, s'). follows s s') (builtin_echo_listen os d i fd e data s)"
proof -
  show ?thesis
    unfolding builtin_echo_listen_def dispatcher_print_error_def p_sys_eq Let_def case_prod_unfold fst_conv snd_conv
      gives_simps gives_if
    by (intro conjI impI add_connection_from [OF assms]) (simp_all add: follows_refl assms)
qed

interpretation typed_echo: typed_handlers "echo_handlers os"
  by unfold_locales (simp add: echo_handlers_def echo_connection_gives echo_listen_gives)

section \<open>Runs\<close>

text \<open>A step of a program that uses the poll dispatcher with the echo service.\<close>

inductive poll_step :: "('w, 'm) pos_scheme \<Rightarrow> 'w pstate \<Rightarrow> 'w pstate \<Rightarrow> bool" for os where
  create: "dispatcher_create_poll os s = ok (d, s') \<Longrightarrow> poll_step os s s'"
| register: "dispatcher_register_server os d h n f data s = ok (r, s') \<Longrightarrow> poll_step os s s'"
| add: "dispatcher_add_connection os d fd sa n f data s = ok s' \<Longrightarrow> poll_step os s s'"
| close: "dispatcher_close_connection d i s = ok s' \<Longrightarrow> poll_step os s s'"
| remove: "dispatcher_remove_at os d k s = ok s' \<Longrightarrow> poll_step os s s'"
| set_event: "dispatcher_set_event d i e s = ok s' \<Longrightarrow> poll_step os s s'"
| set_userdata: "has_type s KEcho data \<Longrightarrow> dispatcher_set_userdata d i data s = ok s' \<Longrightarrow> poll_step os s s'"
| dispatch: "dispatcher_dispatch_poll os (echo_handlers os) d ms s = ok (r, s') \<Longrightarrow> poll_step os s s'"
| destroy: "dispatcher_destroy_poll os d s = ok s' \<Longrightarrow> poll_step os s s'"

lemma poll_step_follows:
  assumes "poll_step os s s'" "wt s"
  shows "follows s s'"
  using assms
proof cases
  case (create d)
  from givesD [OF create_gives [OF assms(2)] this] show ?thesis by simp
next
  case (register d h n f data r)
  from givesD [OF register_server_gives [OF assms(2)] this] show ?thesis by simp
next
  case (dispatch d ms r)
  from givesD [OF typed_echo.dispatch_gives [OF assms(2)] this] show ?thesis by simp
next
  case (add d fd sa n f data)
  with add_connection_gives [OF assms(2)] show ?thesis by (rule givesD)
next
  case (remove d k)
  with remove_at_gives [OF assms(2)] show ?thesis by (rule givesD)
next
  case (destroy d)
  with destroy_gives [OF assms(2)] show ?thesis by (rule givesD)
next
  case (close d i)
  show ?thesis by (rule givesD [OF close_connection_rule close]) (rule steady_heap [OF assms(2) refl] | erule steadyD(2))+
next
  case (set_event d i e)
  show ?thesis by (rule givesD [OF set_event_rule set_event]) (rule steady_heap [OF assms(2) refl] | erule steadyD(2))+
next
  case (set_userdata data d i)
  show ?thesis
    by (rule givesD [OF set_userdata_rule set_userdata(2)]) (rule steady_heap [OF assms(2) refl] set_userdata(1) | erule steadyD(2))+
qed

lemma poll_steps_follow: "(poll_step os)\<^sup>*\<^sup>* s s' \<Longrightarrow> wt s \<Longrightarrow> follows s s'"
proof (induction rule: rtranclp_induct)
  case (step s1 s2)
  then show ?case using poll_step_follows follows_wt follows_trans by blast
qed (rule follows_refl)

end
