(* ===== verification/Poll_Props.thy ===== *)
theory Poll_Props
  imports Echo_Handler Echo_Types
begin

text \<open>The properties of the poll dispatcher and of the echo service.\<close>

section \<open>A concrete dispatcher\<close>

definition poll_conn :: "nat \<Rightarrow> my_connection" where
  "poll_conn k = zero_my_connection\<lparr>mc_handler := 1, mc_handledata := Ptr k 0\<rparr>"

definition poll_site :: "u16 \<Rightarrow> unit pstate" where
  "poll_site r = \<lparr>p_heap = \<lparr>next_block = 8, live = [1 \<mapsto> PDisp \<lparr>pd_connections = Ptr 3 0, pd_list = Ptr 2 0, pd_count = 2, pd_max = 3\<rparr>,
     2 \<mapsto> PList [Some \<lparr>pf_fd = 7, pf_events = POLLIN, pf_revents = r\<rparr>, Some \<lparr>pf_fd = 8, pf_events = POLLIN, pf_revents = 0\<rparr>, None],
     3 \<mapsto> PConns [Some (Ptr 4 0), Some (Ptr 5 0), None], 4 \<mapsto> PConn (poll_conn 6), 5 \<mapsto> PConn (poll_conn 7),
     6 \<mapsto> PEcho \<lparr>e_buf = replicate 2048 0, e_len = 0\<rparr>, 7 \<mapsto> PEcho \<lparr>e_buf = replicate 2048 0, e_len = 0\<rparr>]\<rparr>, p_world = (), p_trace = []\<rparr>"

definition poll_view :: "u16 \<Rightarrow> (pollfd \<times> nat) list" where
  "poll_view r = [(\<lparr>pf_fd = 7, pf_events = POLLIN, pf_revents = r\<rparr>, 4), (\<lparr>pf_fd = 8, pf_events = POLLIN, pf_revents = 0\<rparr>, 5)]"

lemma poll_site_ok: "polled 1 (poll_view r) (poll_site r)"
  by (rule polledI [where D = "\<lparr>pd_connections = Ptr 3 0, pd_list = Ptr 2 0, pd_count = 2, pd_max = 3\<rparr>" and a = 2 and b = 3])
    (auto simp: poll_site_def poll_view_def less_Suc_eq)

lemma poll_site_conn [simp]: "live (p_heap (poll_site r)) 4 = Some (PConn (poll_conn 6))"
  by (simp add: poll_site_def)

definition poll_os :: "u8 list \<Rightarrow> int \<Rightarrow> unit pos" where
  "poll_os data sent = \<lparr>os_alloc = \<lparr>refuses = (\<lambda>_ _. False), realloc0_frees = True\<rparr>, os_time = (\<lambda>w. (0, w)),
     os_select = (\<lambda>n r wr e t w. ((0, r, wr, e), w)), os_sleep = (\<lambda>t w. w), os_recv = (\<lambda>fd n w. (Some (take n data), w)),
     os_so_error = (\<lambda>fd w. (None, w)), os_accept = (\<lambda>fd w. ((9, 0), w)),
     os_getnameinfo = (\<lambda>a w. ((0, ''h'', ''p''), w)),
     os_getaddrinfo = (\<lambda>p w. ((1, \<lparr>ai_family = 0, ai_addr = 0\<rparr>), w)), os_socket = (\<lambda>f w. (5, w)),
     os_fcntl_getfl = (\<lambda>fd w. (0, w)), os_fcntl_setfl = (\<lambda>fd f w. (0, w)), os_reuseaddr = (\<lambda>fd w. (0, w)),
     os_reuseport = (\<lambda>fd w. (0, w)), os_bind = (\<lambda>fd a w. (0, w)), os_listen = (\<lambda>fd n w. (0, w)),
     os_close = (\<lambda>fd w. w), os_errno = (\<lambda>w. 0), strerror = (\<lambda>e. []), gai_strerror = (\<lambda>e. []),
     p_poll = (\<lambda>fds t w. ((1, [POLLIN]), w)), p_send = (\<lambda>fd bytes w. (min sent (int (length bytes)), w)),
     p_getaddrinfo = (\<lambda>h p w. ((0, \<lparr>ai_family = 2, ai_addr = 3\<rparr>), w)), p_addrlen = (\<lambda>sa. 16),
     p_clock = \<lparr>sys_nanosleep = (\<lambda>ts w. ((0, 0, ts), w)), sys_clock = (\<lambda>w. ((0, 0, \<lparr>tv_sec = 0, tv_nsec = 0\<rparr>), w)),
       sys_mach_time = (\<lambda>w. (0, w)), sys_printf = (\<lambda>s w. w)\<rparr>, p_uninit_sa = (\<lambda>w. 0)\<rparr>"

section \<open>Lists\<close>

text \<open>C28: \<open>dispatcher_remove_at\<close> closes the descriptor of entry \<open>i\<close> when it is positive, frees its
  connection and moves the last entry into its place; every other connection and all data of handlers stay as they are.\<close>
theorem dispatcher_remove_at_correct:
  assumes "polled d xs s" "i < length xs"
  shows "\<exists>s'. dispatcher_remove_at os (Ptr d 0) (of_nat i) s = ok s' \<and> polled d (swap_remove i xs) s' \<and>
    live (p_heap s') (snd (xs ! i)) = None \<and> p_trace s' = p_trace s @ closes (fst (xs ! i)) \<and>
    kept {snd (xs ! i)} s s' \<and> kept {} s' s"
  using remove_at_ok [OF assms] by blast

lemma dispatcher_remove_at_correct_witness:
  "\<exists>s'. dispatcher_remove_at (poll_os [] 0) (Ptr 1 0) (of_nat 0) (poll_site 0) = ok s' \<and>
    polled 1 [(\<lparr>pf_fd = 8, pf_events = POLLIN, pf_revents = 0\<rparr>, 5)] s' \<and> p_trace s' = [Sys (Close 7)]"
  using dispatcher_remove_at_correct [OF poll_site_ok, of 0 0 "poll_os [] 0"]
  by (auto simp: poll_view_def swap_remove_def closes_def) (auto simp: poll_site_def)

text \<open>C31: \<open>dispatcher_destroy\<close> ends. It closes all descriptors, from the last to the first, and frees all
  connections and both arrays; no handler is told, and the dispatcher itself stays allocated.\<close>
theorem dispatcher_destroy_closes:
  assumes "polled d xs s"
  shows "\<exists>s'. dispatcher_destroy_poll os (Ptr d 0) s = ok s' \<and>
    p_trace s' = p_trace s @ concat (map (\<lambda>x. closes (fst x)) (rev xs)) \<and>
    (\<forall>x \<in> set xs. live (p_heap s') (snd x) = None) \<and> live (p_heap s') d \<noteq> None"
proof -
  obtain s1 where s1: "destroy_loop os (Ptr d 0) s = ok s1" "polled d [] s1"
      "p_trace s1 = p_trace s @ concat (map (\<lambda>x. closes (fst x)) (rev xs))" "\<forall>x \<in> set xs. live (p_heap s1) (snd x) = None"
    using destroy_loop_ok [OF assms] by blast
  from s1(2) show ?thesis
  proof (cases rule: polledE)
    case (1 D a b ys zs)
    have apart: "a \<noteq> b" "a \<noteq> d" "b \<noteq> d" using 1(1,3,5) by auto
    let ?h = "(p_heap s1)\<lparr>live := (live (p_heap s1))(a := None, b := None)\<rparr>"
    have "dispatcher_destroy_poll os (Ptr d 0) s = ok (s1\<lparr>p_heap := ?h\<rparr>)"
      using apart 1(1-5) by (simp add: dispatcher_destroy_poll_def s1(1))
    then show ?thesis
      using apart 1(1) s1(3,4) by (intro exI [of _ "s1\<lparr>p_heap := ?h\<rparr>"]) simp
  qed
qed

lemma dispatcher_destroy_closes_witness:
  "\<exists>s'. dispatcher_destroy_poll (poll_os [] 0) (Ptr 1 0) (poll_site 0) = ok s' \<and>
    p_trace s' = [Sys (Close 8), Sys (Close 7)] \<and> live (p_heap s') 1 \<noteq> None"
  using dispatcher_destroy_closes [OF poll_site_ok, of "poll_os [] 0" 0]
  by (auto simp: poll_view_def closes_def) (auto simp: poll_site_def)

section \<open>One event\<close>








section \<open>A whole call\<close>




section \<open>The first connection\<close>

definition generous :: "('w, 'm) pos_scheme \<Rightarrow> bool" where
  "generous os \<longleftrightarrow> (\<forall>n sz. \<not> refuses (os_alloc os) n sz)"

lemma p_malloc_ok:
  "generous os \<Longrightarrow> p_malloc os n ob s = (Ptr (next_block (p_heap s)) 0,
     s\<lparr>p_heap := \<lparr>next_block = Suc (next_block (p_heap s)), live = (live (p_heap s))(next_block (p_heap s) \<mapsto> ob)\<rparr>\<rparr>)"
  by (simp add: p_malloc_def c_malloc_def generous_def Let_def)

text \<open>The four blocks of a new dispatcher, and the six of one with a connection.\<close>

definition new_blocks :: "nat \<Rightarrow> nat \<Rightarrow> pobj option" where
  "new_blocks b = [b \<mapsto> PDisp \<lparr>pd_connections = Ptr (b + 2) 0, pd_list = Ptr (b + 1) 0, pd_count = 0, pd_max = 1\<rparr>,
     b + 1 \<mapsto> PList [None], b + 2 \<mapsto> PConns [Some (Ptr (b + 3) 0)], b + 3 \<mapsto> PConn zero_my_connection]"

lemma create_shape:
  assumes "generous os"
  shows "\<exists>s'. dispatcher_create_poll os s = ok (Ptr (next_block (p_heap s)) 0, s') \<and>
    live (p_heap s') = live (p_heap s) ++ new_blocks (next_block (p_heap s)) \<and>
    next_block (p_heap s') = next_block (p_heap s) + 4"
  using assms
  by (auto simp: dispatcher_create_poll_def p_malloc_ok Let_def new_blocks_def fun_eq_iff map_add_def)

lemma add_shape:
  assumes "generous os" "len \<le> 128" and s: "live (p_heap s) = h ++ new_blocks b" "next_block (p_heap s) = b + 4"
  shows "\<exists>s' C. dispatcher_add_connection os (Ptr b 0) fd sa len handler data s = ok s' \<and>
    live (p_heap s') = (h ++ new_blocks b)(b + 1 := None, b + 2 := None, b + 3 \<mapsto> PConn C,
      b + 4 \<mapsto> PList [Some \<lparr>pf_fd = fd, pf_events = POLLIN, pf_revents = 0\<rparr>, None],
      b + 5 \<mapsto> PConns [Some (Ptr (b + 3) 0), None],
      b \<mapsto> PDisp \<lparr>pd_connections = Ptr (b + 5) 0, pd_list = Ptr (b + 4) 0, pd_count = 1, pd_max = 2\<rparr>) \<and>
    mc_handler C = 0 \<and> mc_handledata C = Null"
proof -
  obtain err host port w where g: "os_getnameinfo os sa (p_world s) = ((err, host, port), w)"
    by (metis prod.exhaust)
  have at: "live (p_heap s) b = Some (PDisp \<lparr>pd_connections = Ptr (b + 2) 0, pd_list = Ptr (b + 1) 0, pd_count = 0, pd_max = 1\<rparr>)"
    "live (p_heap s) (b + 1) = Some (PList [None])" "live (p_heap s) (b + 2) = Some (PConns [Some (Ptr (b + 3) 0)])"
    "live (p_heap s) (b + 3) = Some (PConn zero_my_connection)"
    by (simp_all add: s new_blocks_def map_add_def)
  show ?thesis
    using assms(1,2) at s(2)
    by (auto simp: dispatcher_add_connection_def conn_fill_def p_sys_def g p_realloc_def c_realloc_def c_malloc_def
        generous_def grow_def Let_def s(1) fun_eq_iff zero_my_connection_def not_less)
qed

lemma single_polled:
  assumes "live (p_heap s) b = Some (PDisp \<lparr>pd_connections = Ptr (b + 5) 0, pd_list = Ptr (b + 4) 0, pd_count = 1, pd_max = 2\<rparr>)"
    "live (p_heap s) (b + 4) = Some (PList [Some p, None])" "live (p_heap s) (b + 5) = Some (PConns [Some (Ptr c 0), None])"
    "live (p_heap s) c = Some (PConn C)"
  shows "polled b [(p, c)] s"
  by (rule polledI [OF assms(1) _ assms(2) _ assms(3)]) (use assms(4) in auto)

lemma poll_event_null:
  assumes P: "polled d [(p, c)] s" and C: "live (p_heap s) c = Some (PConn C)" "mc_handler C = 0" and r: "pf_revents p \<noteq> 0"
  shows "poll_loop os hs (Ptr d 0) 0 s = raise Null_deref"
  using P
proof (cases rule: polledE)
  case (1 D a b ys zs)
  have "pd_count D = 1"
    using 1(6) by (simp add: word_unat_eq_iff)
  moreover have get: "conn_cell (Ptr b 0) 0 s = ok (Some (Ptr c 0))" "poll_cell (Ptr a 0) 0 s = ok (Some p)"
    using 1(3,5,7,8) 1(9,10) [of 0] by (simp_all add: Suc_le_eq)
  moreover have null: "poll_notify hs (Ptr d 0) 0 (Ptr c 0) e s1 = raise Null_deref" if "p_heap s1 = p_heap s" for e s1
    using 1(1,2,3,7) 1(9) [of 0] C that by (simp add: poll_notify_def call_handler_def Suc_le_eq)
  ultimately show ?thesis
    using 1(1,2,4) r C(1)
    by (simp add: poll_loop.simps [of os hs "Ptr d 0" 0 s] poll_one_def Let_def)
qed

text \<open>C32: A new dispatcher takes one connection, but the handler and its data are dropped, so the first
  event on it calls a null pointer; and a second connection is written through a pointer that was
  never initialised.\<close>
theorem poll_first_connection:
  assumes "generous os" "len \<le> 128"
  shows "\<exists>d c s1 s2. dispatcher_create_poll os s = ok (Ptr d 0, s1) \<and>
    dispatcher_add_connection os (Ptr d 0) fd sa len handler data s1 = ok s2 \<and>
    polled d [(\<lparr>pf_fd = fd, pf_events = POLLIN, pf_revents = 0\<rparr>, c)] s2 \<and>
    dispatcher_add_connection os (Ptr d 0) fd' sa' len' handler' data' s2 = raise Uninitialised \<and>
    (\<forall>r w. r \<noteq> 0 \<longrightarrow> p_poll os [(fd, POLLIN)] ms (p_world s2) = ((1, [r]), w) \<longrightarrow>
       dispatcher_dispatch_poll os hs (Ptr d 0) ms s2 = raise Null_deref)"
proof -
  let ?b = "next_block (p_heap s)"
  obtain s1 where s1: "dispatcher_create_poll os s = ok (Ptr ?b 0, s1)"
      "live (p_heap s1) = live (p_heap s) ++ new_blocks ?b" "next_block (p_heap s1) = ?b + 4"
    using create_shape [OF assms(1), of s] by blast
  let ?p = "\<lparr>pf_fd = fd, pf_events = POLLIN, pf_revents = 0\<rparr>"
  let ?D = "\<lparr>pd_connections = Ptr (?b + 5) 0, pd_list = Ptr (?b + 4) 0, pd_count = 1, pd_max = 2\<rparr>"
  obtain s2 C where s2: "dispatcher_add_connection os (Ptr ?b 0) fd sa len handler data s1 = ok s2" "mc_handler C = 0"
      "live (p_heap s2) = (live (p_heap s) ++ new_blocks ?b)(?b + 1 := None, ?b + 2 := None, ?b + 3 \<mapsto> PConn C,
        ?b + 4 \<mapsto> PList [Some ?p, None], ?b + 5 \<mapsto> PConns [Some (Ptr (?b + 3) 0), None], ?b \<mapsto> PDisp ?D)"
    using add_shape [OF assms s1(2,3), of fd sa handler data] by blast
  have at: "live (p_heap s2) ?b = Some (PDisp ?D)" "live (p_heap s2) (?b + 4) = Some (PList [Some ?p, None])"
    "live (p_heap s2) (?b + 5) = Some (PConns [Some (Ptr (?b + 3) 0), None])" "live (p_heap s2) (?b + 3) = Some (PConn C)"
    unfolding s2(3) by simp_all
  have again: "dispatcher_add_connection os (Ptr ?b 0) fd' sa' len' handler' data' s2 = raise Uninitialised"
    using at by (simp add: dispatcher_add_connection_def)
  have event: "dispatcher_dispatch_poll os hs (Ptr ?b 0) ms s2 = raise Null_deref"
    if r: "r \<noteq> 0" "p_poll os [(fd, POLLIN)] ms (p_world s2) = ((1, [r]), w)" for r w
  proof -
    let ?s = "heap_put (Ptr (?b + 4) 0) (PList [Some (?p\<lparr>pf_revents := r\<rparr>), None]) (s2\<lparr>p_world := w\<rparr>)"
    have "polled ?b [(?p\<lparr>pf_revents := r\<rparr>, ?b + 3)] ?s"
      by (rule single_polled) (use at in simp_all)
    then have "poll_loop os hs (Ptr ?b 0) 0 ?s = raise Null_deref"
      by (rule poll_event_null) (use at(4) s2(2) r(1) in simp_all)
    then show ?thesis
      using at r(2) by (simp add: dispatcher_dispatch_poll_def poll_read_def poll_write_def p_sys_def Let_def)
  qed
  show ?thesis
    using s1(1) s2(1) single_polled [OF at] again event by blast
qed

lemma poll_first_connection_witness:
  "\<exists>d s1 s2. dispatcher_create_poll (poll_os [] 0) (poll_site 0) = ok (Ptr d 0, s1) \<and>
    dispatcher_add_connection (poll_os [] 0) (Ptr d 0) 7 0 16 1 Null s1 = ok s2 \<and>
    dispatcher_dispatch_poll (poll_os [] 0) (echo_handlers (poll_os [] 0)) (Ptr d 0) 100 s2 = raise Null_deref"
proof -
  have "generous (poll_os [] 0)" "p_poll (poll_os [] 0) [(7, POLLIN)] 100 w = ((1, [POLLIN]), w)" "POLLIN \<noteq> 0" for w
    by (simp_all add: generous_def poll_os_def POLLIN_def)
  with poll_first_connection [of "poll_os [] 0" 16 "poll_site 0" 7 0 1 Null 0 0 0 0 Null 100 "echo_handlers (poll_os [] 0)"]
  show ?thesis by fastforce
qed

section \<open>The echo service\<close>

text \<open>C30: The echo handler loses nothing: of the bytes that \<open>recv\<close> delivers, \<open>send\<close> takes a front part, the
  rest is kept in order at the front of the buffer, and the connection waits for space to write
  exactly when there is a rest, else for more data.\<close>
theorem echo_keeps_rest:
  assumes "polled d xs s" "i < length xs" "live (p_heap s) k = Some (PEcho e)" "length (e_buf e) = ECHO_SIZE"
    and "os_recv os fd ECHO_SIZE (p_world s) = (Some bytes, w1)" "bytes \<noteq> []" "length bytes \<le> ECHO_SIZE"
    and "p_send os fd bytes w1 = (count, w2)" "0 \<le> count" "count \<le> int (length bytes)"
  shows "\<exists>s' e' sent. builtin_handler_echo_connection os (Ptr d 0) (of_nat i) fd DISPATCH_READABLE (Ptr k 0) s = ok (0, s') \<and>
    live (p_heap s') k = Some (PEcho e') \<and> p_trace s' = p_trace s @ [Send fd sent] \<and> length sent = nat count \<and>
    sent @ unsent e' = bytes \<and>
    polled d (xs[i := ((fst (xs ! i))\<lparr>pf_events := (if unsent e' = [] then POLLIN else POLLOUT), pf_revents := 0\<rparr>,
      snd (xs ! i))]) s'"
proof -
  let ?e = "\<lparr>e_buf = buf_recv bytes (e_buf e), e_len = int (length bytes)\<rparr>"
  let ?s = "heap_put (Ptr k 0) (PEcho ?e) (s\<lparr>p_world := w1\<rparr>)" and ?e' = "echo_rest count ?e"
  have e: "live (p_heap ?s) k = Some (PEcho ?e)" "echo_ok ?e" and un: "unsent ?e = bytes"
    using assms(4,7) by (simp_all add: echo_ok_def unsent_def buf_recv_def)
  have P: "polled d xs ?s"
    by (rule polled_echo [where e = e]) (use assms(1,3) in simp_all)
  have sent: "p_send os fd (unsent ?e) (p_world ?s) = (count, w2)" "count \<le> e_len ?e"
    using assms(8,10) by (simp_all add: un)
  note rest = echo_rest_ok [OF e(2) assms(9) sent(2), unfolded un]
  have bits: "(if count < e_len ?e then POLLOUT else POLLIN) = (if unsent ?e' = [] then POLLIN else POLLOUT)"
    using rest(3) sent(2) by auto
  have "builtin_handler_echo_connection os (Ptr d 0) (of_nat i) fd DISPATCH_READABLE (Ptr k 0) s =
      obind (echo_writeable os (Ptr d 0) (of_nat i) fd (Ptr k 0) ?s) (\<lambda>s. ok (0, s))"
    using assms(3,5,6)
    by (cases bytes)
      (simp_all add: builtin_handler_echo_connection_def echo_readable_def p_sys_def Let_def event_codes)
  with echo_writeable_ok [OF P assms(2) e sent(1) assms(9) sent(2)] rest(2,4) show ?thesis
    unfolding bits un by (auto intro!: exI [of _ ?e'])
qed

lemma echo_keeps_rest_witness:
  "\<exists>s' e'. builtin_handler_echo_connection (poll_os [1, 2, 3] 2) (Ptr 1 0) (of_nat 0) 7 DISPATCH_READABLE (Ptr 6 0) (poll_site 0) =
      ok (0, s') \<and> live (p_heap s') 6 = Some (PEcho e') \<and> length (unsent e') = 1"
proof -
  have hyps: "live (p_heap (poll_site 0)) 6 = Some (PEcho \<lparr>e_buf = replicate 2048 0, e_len = 0\<rparr>)"
    "os_recv (poll_os [1, 2, 3] 2) 7 ECHO_SIZE (p_world (poll_site 0)) = (Some [1, 2, 3], ())"
    "p_send (poll_os [1, 2, 3] 2) 7 [1, 2, 3] () = (2, ())"
    by (simp_all add: poll_site_def poll_os_def ECHO_SIZE_def)
  obtain s' e' sent where r: "builtin_handler_echo_connection (poll_os [1, 2, 3] 2) (Ptr 1 0) (of_nat 0) 7 DISPATCH_READABLE
        (Ptr 6 0) (poll_site 0) = ok (0, s')" "live (p_heap s') 6 = Some (PEcho e')" "length sent = nat 2"
      "sent @ unsent e' = [1, 2, 3]"
    using echo_keeps_rest [OF poll_site_ok _ hyps(1) _ hyps(2) _ _ hyps(3), of 0]
    by (auto simp: poll_view_def ECHO_SIZE_def)
  have "length (unsent e') = 1" using arg_cong [OF r(4), of length] r(3) by simp
  with r(1,2) show ?thesis by blast
qed

text \<open>The listener of the echo service hands its own descriptor to the dispatcher: on a new
  dispatcher, the connection that an accepted client gets polls the listening socket again, and the
  accepted descriptor is neither polled nor closed.\<close>
lemma echo_listen_polls_listener:
  assumes "generous os" "os_accept os fd (p_world s1) = ((fd2, sa), w)" "fd2 \<noteq> -1" "p_addrlen os sa \<le> 128"
    and "dispatcher_create_poll os s = ok (Ptr d 0, s1)"
  shows "\<exists>s2 c. builtin_echo_listen os (Ptr d 0) 0 fd DISPATCH_READABLE data s1 = ok (0, s2) \<and>
    polled d [(\<lparr>pf_fd = fd, pf_events = POLLIN, pf_revents = 0\<rparr>, c)] s2"
proof -
  let ?b = "next_block (p_heap s)"
  have s1: "d = ?b" "live (p_heap s1) = live (p_heap s) ++ new_blocks ?b" "next_block (p_heap s1) = ?b + 4"
    using create_shape [OF assms(1), of s] assms(5) by auto
  let ?s = "p_emit (Sys (Accept fd2)) (s1\<lparr>p_world := w\<rparr>)"
  have len: "ucast (p_addrlen os sa) \<le> (128 :: u64)"
  proof -
    have "unat (ucast (p_addrlen os sa) :: u64) = unat (p_addrlen os sa)"
      using unsigned_less [of "p_addrlen os sa", where ?'a = nat] by (simp add: unsigned_ucast_eq take_bit_nat_eq_self)
    with assms(4) show ?thesis by (simp add: word_le_nat_alt)
  qed
  have s: "live (p_heap ?s) = live (p_heap s) ++ new_blocks ?b" "next_block (p_heap ?s) = ?b + 4"
    using s1(2,3) by simp_all
  obtain s2 C where s2: "dispatcher_add_connection os (Ptr ?b 0) fd sa (ucast (p_addrlen os sa)) 1 Null ?s = ok s2"
      "live (p_heap s2) = (live (p_heap s) ++ new_blocks ?b)(?b + 1 := None, ?b + 2 := None, ?b + 3 \<mapsto> PConn C,
        ?b + 4 \<mapsto> PList [Some \<lparr>pf_fd = fd, pf_events = POLLIN, pf_revents = 0\<rparr>, None],
        ?b + 5 \<mapsto> PConns [Some (Ptr (?b + 3) 0), None],
        ?b \<mapsto> PDisp \<lparr>pd_connections = Ptr (?b + 5) 0, pd_list = Ptr (?b + 4) 0, pd_count = 1, pd_max = 2\<rparr>)"
    using add_shape [OF assms(1) len s, of fd sa 1 Null] by blast
  have "builtin_echo_listen os (Ptr d 0) 0 fd DISPATCH_READABLE data s1 = ok (0, s2)"
    using assms(2,3) s2(1) by (simp add: builtin_echo_listen_def p_sys_def s1(1))
  moreover have "polled d [(\<lparr>pf_fd = fd, pf_events = POLLIN, pf_revents = 0\<rparr>, ?b + 3)] s2"
    unfolding s1(1) by (rule single_polled) (simp_all add: s2(2))
  ultimately show ?thesis by blast
qed

section \<open>Types\<close>




end
