(* ===== verification/Logger.thy ===== *)
theory Logger
  imports Prelude
begin

text \<open>
  \<^verbatim>\<open>logger.c\<close>: messages that depend on the verbosity level. The state is the global level (an \<open>int\<close> of
  32 bits) and what has been written to \<open>stderr\<close>. A message comes formatted: what \<open>vfprintf\<close> makes of
  the caller's format and arguments is an argument here.
\<close>

record log_state =
  global_debug_level :: u32
  log_err :: string

definition LOG_add_level :: "u32 \<Rightarrow> log_state \<Rightarrow> log_state" where
  "LOG_add_level x s = s\<lparr>global_debug_level := global_debug_level s + x\<rparr>"

definition log_print :: "string \<Rightarrow> log_state \<Rightarrow> log_state" where
  "log_print str s = s\<lparr>log_err := log_err s @ str\<rparr>"

definition vLOG :: "u32 \<Rightarrow> string \<Rightarrow> log_state \<Rightarrow> log_state" where
  "vLOG level msg s = (if sint level \<le> sint (global_debug_level s) then log_print msg s else s)"

definition LOG :: "u32 \<Rightarrow> string \<Rightarrow> log_state \<Rightarrow> log_state" where
  "LOG level msg s = vLOG level msg s"

text \<open>\<open>snprintf\<close> into a buffer of \<open>n\<close> bytes; \<open>%-15s\<close> and \<open>%5u\<close>.\<close>

definition snprintf_to :: "nat \<Rightarrow> string \<Rightarrow> string" where
  "snprintf_to n str = take (n - 1) str"

definition pad_right :: "nat \<Rightarrow> string \<Rightarrow> string" where
  "pad_right n str = str @ replicate (n - length str) CHR '' ''"

definition pad_left :: "nat \<Rightarrow> string \<Rightarrow> string" where
  "pad_left n str = replicate (n - length str) CHR '' '' @ str"

definition octet :: "u32 \<Rightarrow> nat \<Rightarrow> u32" where
  "octet ip k = and (drop_bit k ip) 0xFF"

definition ip_text :: "u32 \<Rightarrow> string" where
  "ip_text ip = show_nat (unat (octet ip 24)) @ ''.'' @ show_nat (unat (octet ip 16)) @ ''.'' @
     show_nat (unat (octet ip 8)) @ ''.'' @ show_nat (unat (octet ip 0))"

definition vLOGip :: "u32 \<Rightarrow> u32 \<Rightarrow> u32 \<Rightarrow> string \<Rightarrow> log_state \<Rightarrow> log_state" where
  "vLOGip level ip port msg s =
     (if sint level \<le> sint (global_debug_level s)
      then let sz_ip = snprintf_to 16 (ip_text ip) in
        log_print msg (log_print (pad_right 15 sz_ip @ '':'' @ pad_left 5 (show_nat (unat port)) @ '': '') s)
      else s)"

definition LOGip :: "u32 \<Rightarrow> u32 \<Rightarrow> u32 \<Rightarrow> string \<Rightarrow> log_state \<Rightarrow> log_state" where
  "LOGip level ip port msg s = vLOGip level ip port msg s"

section \<open>Reading an address back\<close>

fun fields :: "string \<Rightarrow> string list" where
  "fields [] = [[]]"
| "fields (c # cs) = (if c = CHR ''.'' then [] # fields cs
     else (case fields cs of [] \<Rightarrow> [[c]] | f # fs \<Rightarrow> (c # f) # fs))"

definition parse_ip :: "string \<Rightarrow> nat option" where
  "parse_ip str = (case map read_nat (fields str) of
     [a, b, c, d] \<Rightarrow> Some (a * 2 ^ 24 + b * 2 ^ 16 + c * 2 ^ 8 + d) | _ \<Rightarrow> None)"

lemma fields_dot: "CHR ''.'' \<notin> set xs \<Longrightarrow> fields (xs @ CHR ''.'' # ys) = xs # fields ys"
  by (induction xs) auto

lemma fields_single: "CHR ''.'' \<notin> set xs \<Longrightarrow> fields xs = [xs]"
  by (induction xs) auto

lemma digit_not_dot: "d < 10 \<Longrightarrow> digit_char d \<noteq> CHR ''.''"
proof
  assume "d < 10" "digit_char d = CHR ''.''"
  then have "(of_char (CHR ''.'') :: nat) = 48 + d"
    using of_digit_char by metis
  then show False by simp
qed

lemma show_nat_no_dot: "CHR ''.'' \<notin> set (show_nat n)"
proof (induction n rule: show_nat.induct)
  case (1 n)
  then show ?case
    using digit_not_dot [of n] digit_not_dot [of "n mod 10"] by (subst show_nat.simps) (simp add: eq_commute)
qed

lemma length_show_nat: "n < 10 ^ k \<Longrightarrow> 0 < k \<Longrightarrow> length (show_nat n) \<le> k"
proof (induction k arbitrary: n)
  case (Suc k)
  show ?case
  proof (cases "n < 10")
    case True
    then show ?thesis by (simp add: show_nat.simps [of n])
  next
    case False
    then have "k \<noteq> 0" using Suc.prems(1) by (cases k) auto
    moreover have "n div 10 < 10 ^ k" using Suc.prems(1) by (simp add: less_mult_imp_div_less mult.commute)
    ultimately have "length (show_nat (n div 10)) \<le> k" using Suc.IH by blast
    then show ?thesis using False by (simp add: show_nat.simps [of n])
  qed
qed simp

lemma unat_octet: "unat (octet ip k) = unat ip div 2 ^ k mod 256"
proof -
  have "octet ip k = take_bit 8 (drop_bit k ip)"
    by (simp add: octet_def take_bit_eq_mask mask_eq_decr_exp)
  then have "unat (octet ip k) = take_bit 8 (drop_bit k (take_bit 32 (unat ip)))"
    by (simp only: unsigned_take_bit_eq unsigned_drop_bit_eq) (simp add: take_bit_take_bit)
  then show ?thesis
    using unsigned_less [of ip, where ?'a = nat] by (simp add: take_bit_nat_eq_self take_bit_eq_mod drop_bit_eq_div)
qed

lemma octets_sum:
  assumes "n < 2 ^ 32"
  shows "n div 2 ^ 24 mod 256 * 2 ^ 24 + n div 2 ^ 16 mod 256 * 2 ^ 16 + n div 2 ^ 8 mod 256 * 2 ^ 8 + n div 2 ^ 0 mod 256 =
    (n :: nat)"
proof -
  let ?a = "n div 256" let ?b = "?a div 256" let ?c = "?b div 256"
  have q: "n div 2 ^ 8 = ?a" "n div 2 ^ 16 = ?b" "n div 2 ^ 24 = ?c" "?c mod 256 = ?c"
    using assms by (simp_all add: div_mult2_eq [symmetric] less_mult_imp_div_less)
  have "c * 16777216 + s * 65536 + r * 256 + m = n" if "256 * a + m = n" "256 * b + r = a" "256 * c + s = b"
    for a b c r s m n :: nat
    using that by linarith
  from this [of ?a "n mod 256" n ?b "?a mod 256" ?c "?b mod 256"]
  have "?c * 16777216 + ?b mod 256 * 65536 + ?a mod 256 * 256 + n mod 256 = n"
    by simp
  then show ?thesis
    unfolding q by simp
qed

text \<open>C37: The buffer of 16 bytes holds every IPv4 address: nothing is cut off, the text has at most 15
  characters, and reading it back gives the address.\<close>
theorem ip_text_roundtrip:
  "snprintf_to 16 (ip_text ip) = ip_text ip \<and> length (ip_text ip) \<le> 15 \<and> parse_ip (ip_text ip) = Some (unat ip)"
proof -
  have len: "length (show_nat (unat (octet ip k))) \<le> 3" for k
    by (rule length_show_nat) (use mod_less_divisor [of 256 "unat ip div 2 ^ k"] in \<open>simp_all add: unat_octet\<close>)
  have l: "length (ip_text ip) \<le> 15"
    using len [of 24] len [of 16] len [of 8] len [of 0] by (simp add: ip_text_def)
  have "parse_ip (ip_text ip) = Some (unat (octet ip 24) * 2 ^ 24 + unat (octet ip 16) * 2 ^ 16 +
      unat (octet ip 8) * 2 ^ 8 + unat (octet ip 0))"
    by (simp add: parse_ip_def ip_text_def fields_dot fields_single show_nat_no_dot)
  also have "unat (octet ip 24) * 2 ^ 24 + unat (octet ip 16) * 2 ^ 16 + unat (octet ip 8) * 2 ^ 8 +
      unat (octet ip 0) = unat ip"
  proof -
    have "unat ip < 2 ^ 32" using unsigned_less [of ip, where ?'a = nat] by simp
    then show ?thesis by (simp only: unat_octet octets_sum)
  qed
  finally show ?thesis
    using l by (simp add: snprintf_to_def)
qed

end
