(* ===== verification/Pixie_Threads.thy ===== *)
theory Pixie_Threads
  imports Prelude
begin

text \<open>
  \<^verbatim>\<open>pixie-threads.c\<close>: priority, processor affinity, the number of processors, threads, in the variants
  for Windows, Linux and BSD. \<open>'w thread_os\<close> holds the system calls. A \<open>cpu_set_t\<close> is the set of its
  processors, which are below 1024. What the functions print goes through \<open>t_print\<close>.
\<close>

record 'w thread_os =
  t_print :: "string \<Rightarrow> 'w \<Rightarrow> 'w"
  t_errno :: "'w \<Rightarrow> int"
  t_policy :: "'w \<Rightarrow> int \<times> 'w"
  t_priority_max :: "int \<Rightarrow> 'w \<Rightarrow> int \<times> 'w"
  t_setschedprio :: "int \<Rightarrow> 'w \<Rightarrow> 'w"
  t_setaffinity :: "nat set \<Rightarrow> 'w \<Rightarrow> int \<times> 'w"
  t_getaffinity :: "'w \<Rightarrow> (int \<times> nat set) \<times> 'w"
  t_sysctl_ncpu :: "'w \<Rightarrow> (int \<times> u32) \<times> 'w"
  t_create :: "nat \<Rightarrow> nat \<Rightarrow> 'w \<Rightarrow> u64 \<times> 'w"
  t_join :: "u64 \<Rightarrow> 'w \<Rightarrow> 'w"
  w_set_priority :: "'w \<Rightarrow> u64 \<times> 'w"
  w_set_affinity :: "u64 \<Rightarrow> 'w \<Rightarrow> u64 \<times> 'w"
  w_affinity_masks :: "'w \<Rightarrow> (u64 \<times> u64 \<times> u64) \<times> 'w"
  w_last_error :: "'w \<Rightarrow> u32"
  w_beginthread :: "nat \<Rightarrow> nat \<Rightarrow> 'w \<Rightarrow> u64 \<times> 'w"

section \<open>Priority\<close>

definition win_raise_priority :: "'w thread_os \<Rightarrow> 'w \<Rightarrow> 'w" where
  "win_raise_priority os w =
     (let (result, w) = w_set_priority os w in
      if result = 0
      then t_print os (''set_priority: returned error win32:'' @ show_nat (unat (w_last_error os w)) @ newline) w
      else w)"

text \<open>The policy is that of a fresh attribute object, not of the thread.\<close>

definition pixie_cpu_raise_priority :: "'w thread_os \<Rightarrow> 'w \<Rightarrow> 'w" where
  "pixie_cpu_raise_priority os w =
     (let (policy, w) = t_policy os w;
          (max_prio, w) = t_priority_max os policy w
      in t_setschedprio os max_prio w)"

section \<open>Affinity\<close>

text \<open>A shift by 64 or more is undefined.\<close>

definition win_affinity_mask :: "u32 \<Rightarrow> u64 outcome" where
  "win_affinity_mask processor =
     (let p = (if processor > 0 then processor - 1 else processor) in
      if unat p < 64 then ok (push_bit (unat p) 1) else raise Undefined)"

definition win_set_affinity :: "'w thread_os \<Rightarrow> u32 \<Rightarrow> 'w \<Rightarrow> 'w outcome" where
  "win_set_affinity os processor w =
     obind (win_affinity_mask processor) (\<lambda>m.
        let (result, w) = w_set_affinity os m w in
        ok (if result = 0
          then t_print os (''set_affinity: returned error win32:'' @ show_nat (unat (w_last_error os w)) @ newline) w
          else w))"

definition CPU_SETSIZE :: nat where
  "CPU_SETSIZE = 1024"

definition CPU_SET :: "u32 \<Rightarrow> nat set \<Rightarrow> nat set" where
  "CPU_SET cpu cpuset = (if unat cpu < CPU_SETSIZE then insert (unat cpu) cpuset else cpuset)"

definition affinity_set :: "u32 \<Rightarrow> nat set" where
  "affinity_set processor = CPU_SET (processor + 1) {}"

definition pixie_cpu_set_affinity :: "'w thread_os \<Rightarrow> u32 \<Rightarrow> 'w \<Rightarrow> 'w" where
  "pixie_cpu_set_affinity os processor w =
     (let (x, w) = t_setaffinity os (affinity_set processor) w in
      if x \<noteq> 0
      then t_print os (''set_affinity: returned error linux:'' @ show_int (t_errno os w) @ newline) w
      else w)"

section \<open>Counting processors\<close>



definition bsd_cpu_count :: "'w thread_os \<Rightarrow> 'w \<Rightarrow> u32 \<times> 'w" where
  "bsd_cpu_count os w =
     (let ((x, ncpu), w) = t_sysctl_ncpu os w in
      if x = -1 then (1, t_print os ''sysctl(HW_NCPU) failed'' w) else (ncpu, w))"



section \<open>Threads\<close>

text \<open>Functions and their data are numbers. The results of \<open>pthread_create\<close> and \<open>pthread_join\<close> are dropped.\<close>

definition win_begin_thread :: "'w thread_os \<Rightarrow> nat \<Rightarrow> u32 \<Rightarrow> nat \<Rightarrow> 'w \<Rightarrow> u64 \<times> 'w" where
  "win_begin_thread os worker_thread flags worker_data w = w_beginthread os worker_thread worker_data w"

definition pixie_begin_thread :: "'w thread_os \<Rightarrow> nat \<Rightarrow> u32 \<Rightarrow> nat \<Rightarrow> 'w \<Rightarrow> u64 \<times> 'w" where
  "pixie_begin_thread os worker_thread flags worker_data w = t_create os worker_thread worker_data w"

definition pixie_thread_join :: "'w thread_os \<Rightarrow> u64 \<Rightarrow> 'w \<Rightarrow> 'w" where
  "pixie_thread_join os thread_handle w = t_join os thread_handle w"

section \<open>Atomic operations\<close>

text \<open>\<^verbatim>\<open>pixie-threads.h\<close>: each is one step on the word it points at, which becomes the second component.
  The variant of the addition for Microsoft's compiler returns the old value, that for GCC the new one.\<close>

definition win_locked_add_u32 :: "u32 \<Rightarrow> u32 \<Rightarrow> u32 \<times> u32" where
  "win_locked_add_u32 dst src = (dst, dst + src)"

definition pixie_locked_add_u32 :: "u32 \<Rightarrow> u32 \<Rightarrow> u32 \<times> u32" where
  "pixie_locked_add_u32 dst src = (dst + src, dst + src)"

definition pixie_locked_CAS32 :: "u32 \<Rightarrow> u32 \<Rightarrow> u32 \<Rightarrow> bool \<times> u32" where
  "pixie_locked_CAS32 dst src expected = (if dst = expected then (True, src) else (False, dst))"

definition pixie_locked_CAS64 :: "u64 \<Rightarrow> u64 \<Rightarrow> u64 \<Rightarrow> bool \<times> u64" where
  "pixie_locked_CAS64 dst src expected = (if dst = expected then (True, src) else (False, dst))"

definition rte_atomic32_cmpset :: "u32 \<Rightarrow> u32 \<Rightarrow> u32 \<Rightarrow> bool \<times> u32" where
  "rte_atomic32_cmpset dst expected src = (if dst = expected then (True, src) else (False, dst))"

section \<open>Lemmas\<close>

lemma locked_add_variants:
  "snd (win_locked_add_u32 dst src) = snd (pixie_locked_add_u32 dst src)"
  "fst (win_locked_add_u32 dst src) = fst (pixie_locked_add_u32 dst src) \<longleftrightarrow> src = 0"
  by (simp_all add: win_locked_add_u32_def pixie_locked_add_u32_def)






text \<open>On Linux the number of a processor is one too high; on Windows 0 and 1 mean the same processor.\<close>

lemma affinity_linux: "unat p < 1023 \<Longrightarrow> affinity_set p = {unat p + 1}" for p :: u32
  by (simp add: affinity_set_def CPU_SET_def CPU_SETSIZE_def unat_word_ariths)

lemma affinity_win: "win_affinity_mask 0 = win_affinity_mask 1"
  by (simp add: win_affinity_mask_def)

end
