(* ===== verification/Pixie_File.thy ===== *)
theory Pixie_File
  imports Prelude
begin

text \<open>
  \<^verbatim>\<open>pixie-file.c\<close>: opening a file so that others may rename it, for POSIX and for Windows. Streams and
  handles are numbers, 0 is the null stream. The result is the returned code and what \<open>*in_fp\<close> holds.
\<close>

record 'w file_os =
  f_fopen :: "string \<Rightarrow> string \<Rightarrow> 'w \<Rightarrow> nat \<times> 'w"
  f_errno :: "'w \<Rightarrow> int"
  f_CreateFile :: "string \<Rightarrow> u32 \<Rightarrow> 'w \<Rightarrow> u64 \<times> 'w"
  f_open_osfhandle :: "u64 \<Rightarrow> 'w \<Rightarrow> int \<times> 'w"
  f_perror :: "string \<Rightarrow> 'w \<Rightarrow> 'w"
  f_fdopen :: "int \<Rightarrow> string \<Rightarrow> 'w \<Rightarrow> nat \<times> 'w"

definition pixie_fopen_shareable :: "'w file_os \<Rightarrow> string \<Rightarrow> u32 \<Rightarrow> 'w \<Rightarrow> (int \<times> nat) \<times> 'w" where
  "pixie_fopen_shareable os filename is_append w =
     (let (fp, w) = f_fopen os filename (if is_append \<noteq> 0 then ''a'' else ''w'') w in
      if fp = 0 then ((f_errno os w, 0), w) else ((0, fp), w))"

definition GENERIC_WRITE :: u32 where "GENERIC_WRITE = 0x40000000"
definition FILE_APPEND_DATA :: u32 where "FILE_APPEND_DATA = 4"

text \<open>\<open>CREATE_ALWAYS\<close>, fixed in \<open>f_CreateFile\<close>, empties an existing file; \<open>fp\<close> is not tested.\<close>

definition win_fopen_shareable :: "'w file_os \<Rightarrow> string \<Rightarrow> u32 \<Rightarrow> 'w \<Rightarrow> (int \<times> nat) \<times> 'w" where
  "win_fopen_shareable os filename is_append w =
     (let (hFile, w) = f_CreateFile os filename (or GENERIC_WRITE (if is_append \<noteq> 0 then FILE_APPEND_DATA else 0)) w in
      if hFile = -1 then ((-1, 0), w) else
      let (fd, w) = f_open_osfhandle os hFile w in
      if fd = -1 then ((-1, 0), f_perror os ''_open_osfhandle'' w) else
      let (fp, w) = f_fdopen os fd ''w'' w in ((0, fp), w))"

end
