(* ===== verification/Stub_Lua.thy ===== *)
theory Stub_Lua
  imports Prelude
begin

text \<open>
  \<^verbatim>\<open>stub-lua.c\<close> and \<^verbatim>\<open>stub-lua.h\<close>: loading the Lua library at run time. Library handles and function
  addresses are numbers, 0 is \<open>NULL\<close>. The state is the value of every function pointer, what has been
  written to \<open>stderr\<close>, and the lookups made so far.
\<close>

datatype lookup = Open string | Sym nat string

record 'w lua_os =
  sys_dlopen :: "string \<Rightarrow> 'w \<Rightarrow> nat \<times> 'w"
  sys_dlsym :: "nat \<Rightarrow> string \<Rightarrow> 'w \<Rightarrow> nat \<times> 'w"

record 'w lua_state =
  l_fns :: "string \<Rightarrow> nat option"
  l_err :: string
  l_log :: "lookup list"
  l_world :: 'w

section \<open>The header\<close>


definition LUA_TNONE :: int where "LUA_TNONE = -1"
definition LUA_TNIL :: int where "LUA_TNIL = 0"
definition LUA_TBOOLEAN :: int where "LUA_TBOOLEAN = 1"
definition LUA_TLIGHTUSERDATA :: int where "LUA_TLIGHTUSERDATA = 2"
definition LUA_TNUMBER :: int where "LUA_TNUMBER = 3"
definition LUA_TSTRING :: int where "LUA_TSTRING = 4"
definition LUA_TTABLE :: int where "LUA_TTABLE = 5"
definition LUA_TFUNCTION :: int where "LUA_TFUNCTION = 6"
definition LUA_TUSERDATA :: int where "LUA_TUSERDATA = 7"
definition LUA_TTHREAD :: int where "LUA_TTHREAD = 8"

definition LUAI_MAXSTACK :: int where "LUAI_MAXSTACK = 1000000"
definition LUA_REGISTRYINDEX :: int where "LUA_REGISTRYINDEX = - LUAI_MAXSTACK - 1000"

text \<open>The macros that test the type of a value, given what \<open>lua_type\<close> returns, and two on indexes.\<close>

definition lua_isfunction :: "(int \<Rightarrow> int) \<Rightarrow> int \<Rightarrow> bool" where "lua_isfunction lua_type n \<longleftrightarrow> lua_type n = LUA_TFUNCTION"
definition lua_istable :: "(int \<Rightarrow> int) \<Rightarrow> int \<Rightarrow> bool" where "lua_istable lua_type n \<longleftrightarrow> lua_type n = LUA_TTABLE"
definition lua_islightuserdata :: "(int \<Rightarrow> int) \<Rightarrow> int \<Rightarrow> bool" where
  "lua_islightuserdata lua_type n \<longleftrightarrow> lua_type n = LUA_TLIGHTUSERDATA"
definition lua_isnil :: "(int \<Rightarrow> int) \<Rightarrow> int \<Rightarrow> bool" where "lua_isnil lua_type n \<longleftrightarrow> lua_type n = LUA_TNIL"
definition lua_isboolean :: "(int \<Rightarrow> int) \<Rightarrow> int \<Rightarrow> bool" where "lua_isboolean lua_type n \<longleftrightarrow> lua_type n = LUA_TBOOLEAN"
definition lua_isthread :: "(int \<Rightarrow> int) \<Rightarrow> int \<Rightarrow> bool" where "lua_isthread lua_type n \<longleftrightarrow> lua_type n = LUA_TTHREAD"
definition lua_isnone :: "(int \<Rightarrow> int) \<Rightarrow> int \<Rightarrow> bool" where "lua_isnone lua_type n \<longleftrightarrow> lua_type n = LUA_TNONE"
definition lua_isnoneornil :: "(int \<Rightarrow> int) \<Rightarrow> int \<Rightarrow> bool" where "lua_isnoneornil lua_type n \<longleftrightarrow> lua_type n \<le> 0"
definition lua_upvalueindex :: "int \<Rightarrow> int" where "lua_upvalueindex i = LUA_REGISTRYINDEX - i"
definition lua_pop :: "(int \<Rightarrow> 's \<Rightarrow> 's) \<Rightarrow> int \<Rightarrow> 's \<Rightarrow> 's" where "lua_pop lua_settop n s = lua_settop (- n - 1) s"

section \<open>Loading\<close>

definition names_apple :: "string list" where
  "names_apple = [''liblua.5.3.5.dylib'', ''liblua.5.3.dylib'', ''liblua5.3.dylib'', ''liblua.dylib'']"

definition names_windows :: "string list" where
  "names_windows = [''lua53.dll'', ''lua.dll'']"



definition DOLINK :: "'w lua_os \<Rightarrow> nat \<Rightarrow> string \<Rightarrow> 'w lua_state \<Rightarrow> 'w lua_state" where
  "DOLINK os lib name s =
     (case sys_dlsym os lib name (l_world s) of (f, w) \<Rightarrow>
        s\<lparr>l_fns := (l_fns s)(name \<mapsto> f), l_log := l_log s @ [Sym lib name], l_world := w,
          l_err := l_err s @ (if f = 0 then ''liblua: '' @ name @ '': failed'' @ newline else [])\<rparr>)"



section \<open>Lemmas\<close>



lemma DOLINK_simps [simp]:
  "l_log (DOLINK os lib n s) = l_log s @ [Sym lib n]" "dom (l_fns (DOLINK os lib n s)) = insert n (dom (l_fns s))"
  by (simp_all add: DOLINK_def split: prod.split)






end
