(* ===== verification/Lua_Macros.thy ===== *)
theory Lua_Macros
  imports Stub_Lua
begin

text \<open>
  The macros of \<^verbatim>\<open>stub-lua.h\<close> that call the linked functions. These functions are not part of the program:
  they are the fields of \<open>('s, 'n) lua_api\<close>, over states \<open>'s\<close> of the interpreter and its numbers \<open>'n\<close>.
  Addresses, among them those of functions and of results, are natural numbers, 0 is \<open>NULL\<close>; a string that
  may be \<open>NULL\<close> is an option.
\<close>

record ('s, 'n) lua_api =
  api_type :: "'s \<Rightarrow> int \<Rightarrow> int"
  api_typename :: "int \<Rightarrow> 's \<Rightarrow> string"
  api_settop :: "int \<Rightarrow> 's \<Rightarrow> 's"
  api_pcallk :: "int \<Rightarrow> int \<Rightarrow> int \<Rightarrow> int \<Rightarrow> nat \<Rightarrow> 's \<Rightarrow> int \<times> 's"
  api_yieldk :: "int \<Rightarrow> int \<Rightarrow> nat \<Rightarrow> 's \<Rightarrow> int \<times> 's"
  api_pushcclosure :: "nat \<Rightarrow> int \<Rightarrow> 's \<Rightarrow> 's"
  api_setglobal :: "string \<Rightarrow> 's \<Rightarrow> 's"
  api_getfield :: "int \<Rightarrow> string \<Rightarrow> 's \<Rightarrow> int \<times> 's"
  api_tonumberx :: "int \<Rightarrow> nat \<Rightarrow> 's \<Rightarrow> 'n \<times> 's"
  api_tointegerx :: "int \<Rightarrow> nat \<Rightarrow> 's \<Rightarrow> int \<times> 's"
  api_tolstring :: "int \<Rightarrow> nat \<Rightarrow> 's \<Rightarrow> string option \<times> 's"
  api_checklstring :: "int \<Rightarrow> nat \<Rightarrow> 's \<Rightarrow> string option \<times> 's"
  api_loadbufferx :: "string \<Rightarrow> nat \<Rightarrow> string \<Rightarrow> string option \<Rightarrow> 's \<Rightarrow> int \<times> 's"
  api_loadfilex :: "string \<Rightarrow> string option \<Rightarrow> 's \<Rightarrow> int \<times> 's"
  api_loadstring :: "string \<Rightarrow> 's \<Rightarrow> int \<times> 's"

definition LUA_MULTRET :: int where "LUA_MULTRET = -1"
definition LUA_OK :: int where "LUA_OK = 0"
definition LUA_YIELD :: int where "LUA_YIELD = 1"
definition LUA_ERRRUN :: int where "LUA_ERRRUN = 2"
definition LUA_ERRSYNTAX :: int where "LUA_ERRSYNTAX = 3"
definition LUA_ERRMEM :: int where "LUA_ERRMEM = 4"
definition LUA_ERRGCMM :: int where "LUA_ERRGCMM = 5"
definition LUA_ERRERR :: int where "LUA_ERRERR = 6"
definition LUA_NUMTAGS :: int where "LUA_NUMTAGS = 9"

definition lua_pcall :: "('s, 'n) lua_api \<Rightarrow> int \<Rightarrow> int \<Rightarrow> int \<Rightarrow> 's \<Rightarrow> int \<times> 's" where
  "lua_pcall L n r f = api_pcallk L n r f 0 0"

definition lua_pushcfunction :: "('s, 'n) lua_api \<Rightarrow> nat \<Rightarrow> 's \<Rightarrow> 's" where
  "lua_pushcfunction L f = api_pushcclosure L f 0"

definition lua_register :: "('s, 'n) lua_api \<Rightarrow> string \<Rightarrow> nat \<Rightarrow> 's \<Rightarrow> 's" where
  "lua_register L n f s = api_setglobal L n (lua_pushcfunction L f s)"

definition lua_tonumber :: "('s, 'n) lua_api \<Rightarrow> int \<Rightarrow> 's \<Rightarrow> 'n \<times> 's" where
  "lua_tonumber L i = api_tonumberx L i 0"

definition lua_tointeger :: "('s, 'n) lua_api \<Rightarrow> int \<Rightarrow> 's \<Rightarrow> int \<times> 's" where
  "lua_tointeger L i = api_tointegerx L i 0"

definition lua_tostring :: "('s, 'n) lua_api \<Rightarrow> int \<Rightarrow> 's \<Rightarrow> string option \<times> 's" where
  "lua_tostring L i = api_tolstring L i 0"

definition lua_yield :: "('s, 'n) lua_api \<Rightarrow> int \<Rightarrow> 's \<Rightarrow> int \<times> 's" where
  "lua_yield L n = api_yieldk L n 0 0"

definition luaL_checkstring :: "('s, 'n) lua_api \<Rightarrow> int \<Rightarrow> 's \<Rightarrow> string option \<times> 's" where
  "luaL_checkstring L n = api_checklstring L n 0"

definition luaL_loadfile :: "('s, 'n) lua_api \<Rightarrow> string \<Rightarrow> 's \<Rightarrow> int \<times> 's" where
  "luaL_loadfile L f = api_loadfilex L f None"

text \<open>The operator \<open>||\<close>: its second operand runs only when the first one gives 0, and the result is 0 or 1.\<close>

definition c_or :: "('s \<Rightarrow> int \<times> 's) \<Rightarrow> ('s \<Rightarrow> int \<times> 's) \<Rightarrow> 's \<Rightarrow> int \<times> 's" where
  "c_or f g s = (let (r, s) = f s in if r \<noteq> 0 then (1, s) else let (r, s) = g s in (if r \<noteq> 0 then 1 else 0, s))"

definition luaL_dofile :: "('s, 'n) lua_api \<Rightarrow> string \<Rightarrow> 's \<Rightarrow> int \<times> 's" where
  "luaL_dofile L fn = c_or (luaL_loadfile L fn) (lua_pcall L 0 LUA_MULTRET 0)"

definition luaL_dostring :: "('s, 'n) lua_api \<Rightarrow> string \<Rightarrow> 's \<Rightarrow> int \<times> 's" where
  "luaL_dostring L str = c_or (api_loadstring L str) (lua_pcall L 0 LUA_MULTRET 0)"

definition luaL_getmetatable :: "('s, 'n) lua_api \<Rightarrow> string \<Rightarrow> 's \<Rightarrow> int \<times> 's" where
  "luaL_getmetatable L n = api_getfield L LUA_REGISTRYINDEX n"

definition luaL_loadbuffer :: "('s, 'n) lua_api \<Rightarrow> string \<Rightarrow> nat \<Rightarrow> string \<Rightarrow> 's \<Rightarrow> int \<times> 's" where
  "luaL_loadbuffer L str sz n = api_loadbufferx L str sz n None"

definition luaL_opt :: "('s, 'n) lua_api \<Rightarrow> (int \<Rightarrow> 's \<Rightarrow> 'a \<times> 's) \<Rightarrow> int \<Rightarrow> 'a \<Rightarrow> 's \<Rightarrow> 'a \<times> 's" where
  "luaL_opt L f n d s = (if lua_isnoneornil (api_type L s) n then (d, s) else f n s)"

definition luaL_typename :: "('s, 'n) lua_api \<Rightarrow> int \<Rightarrow> 's \<Rightarrow> string" where
  "luaL_typename L i s = api_typename L (api_type L s i) s"

text \<open>A script has run to its end exactly when the macros give 0; a script that does not load is not run.\<close>

lemma c_or_eq_0: "c_or f g s = (0, s') \<longleftrightarrow> (\<exists>s1. f s = (0, s1) \<and> g s1 = (0, s'))"
  by (auto simp: c_or_def Let_def split: prod.split)

lemma luaL_dofile_ok:
  "luaL_dofile L fn s = (LUA_OK, s') \<longleftrightarrow>
    (\<exists>s1. luaL_loadfile L fn s = (LUA_OK, s1) \<and> lua_pcall L 0 LUA_MULTRET 0 s1 = (LUA_OK, s'))"
  by (simp add: luaL_dofile_def LUA_OK_def c_or_eq_0)

lemma luaL_dofile_not_loaded:
  "luaL_loadfile L fn s = (r, s1) \<Longrightarrow> r \<noteq> LUA_OK \<Longrightarrow> luaL_dofile L fn s = (1, s1)"
  by (simp add: luaL_dofile_def c_or_def LUA_OK_def)

end
