(* ===== verification/Pixie_Backtrace.thy ===== *)
theory Pixie_Backtrace
  imports Logger
begin

text \<open>
  \<^verbatim>\<open>pixie-backtrace.c\<close>, the variants for glibc and for Windows: the handler of a segmentation fault and
  its set-up. The
  global buffer \<open>global_self\<close> is a list of 512 characters; a string in it ends at the first zero
  character, and a read that finds none leaves the buffer. \<open>'w bt_os\<close> holds the system calls.
\<close>

record 'w bt_os =
  b_readlink :: "string \<Rightarrow> nat \<Rightarrow> 'w \<Rightarrow> string option \<times> 'w"
  b_symbols :: "'w \<Rightarrow> string list option \<times> 'w"
  b_backtrace :: "'w \<Rightarrow> nat \<times> 'w"
  b_system :: "string \<Rightarrow> 'w \<Rightarrow> int \<times> 'w"
  b_signal :: "int \<Rightarrow> 'w \<Rightarrow> 'w"

record 'w bt_state =
  global_self :: string
  b_out :: string
  b_world :: 'w

definition SELF_SIZE :: nat where
  "SELF_SIZE = 512"


definition c_string :: "string \<Rightarrow> string outcome" where
  "c_string buf = (if CHR 0x00 \<in> set buf then ok (takeWhile (\<lambda>c. c \<noteq> CHR 0x00) buf) else raise Out_of_bounds)"

definition b_printf :: "string \<Rightarrow> 'w bt_state \<Rightarrow> 'w bt_state" where
  "b_printf str s = s\<lparr>b_out := b_out s @ str\<rparr>"

section \<open>Set-up\<close>

text \<open>
  \<open>readlink\<close> writes at most the size it is given and no zero character after it; \<open>snprintf\<close> ends what it
  writes with one.
\<close>

definition SIGSEGV :: int where
  "SIGSEGV = 11"

definition pixie_backtrace_init :: "'w bt_os \<Rightarrow> string \<Rightarrow> 'w bt_state \<Rightarrow> 'w bt_state" where
  "pixie_backtrace_init os self s =
     (let (x, w) = b_readlink os ''/proc/self/exe'' SELF_SIZE (b_world s);
          text = (case x of Some bytes \<Rightarrow> take SELF_SIZE bytes
                  | None \<Rightarrow> snprintf_to SELF_SIZE self @ [CHR 0x00])
      in s\<lparr>global_self := text @ drop (length text) (global_self s), b_world := b_signal os SIGSEGV w\<rparr>)"

definition pixie_backtrace_finish :: "'w bt_state \<Rightarrow> 'w bt_state" where
  "pixie_backtrace_finish s = s"

section \<open>The handler\<close>

text \<open>\<open>strstr\<close> and \<open>strchr\<close>: the rest of the string from the first match on.\<close>

fun strstr :: "string \<Rightarrow> string \<Rightarrow> string option" where
  "strstr str pat = (if take (length pat) str = pat then Some str
     else (case str of [] \<Rightarrow> None | c # cs \<Rightarrow> strstr cs pat))"

declare strstr.simps [simp del]

definition strchr :: "string \<Rightarrow> char \<Rightarrow> string option" where
  "strchr str c = (let r = dropWhile (\<lambda>d. d \<noteq> c) str in if r = [] then None else Some r)"

text \<open>
  \<open>p = strstr(symbol, "[0x") + 1\<close>, \<open>pp = strchr(p, ']')\<close>, and \<open>%.*s\<close> prints the first \<open>pp - p\<close> characters
  of \<open>p\<close>. Without a bracket \<open>pp\<close> is null and the difference has no meaning.
\<close>

definition symbol_address :: "string \<Rightarrow> string option outcome" where
  "symbol_address symbol =
     (case strstr symbol ''[0x'' of
        None \<Rightarrow> ok None
      | Some q \<Rightarrow> let p = tl q in
          (case strchr p (CHR '']'') of
             None \<Rightarrow> raise Null_deref
           | Some pp \<Rightarrow> ok (Some (take (length p - length pp) p))))"

definition addr2line_command :: "string \<Rightarrow> string \<Rightarrow> string" where
  "addr2line_command self address = snprintf_to 1024 (''addr2line -p -i -f -e '' @ self @ '' '' @ address)"

text \<open>One round of the loop \<open>while (size > 0)\<close>.\<close>

definition print_symbol :: "'w bt_os \<Rightarrow> nat \<Rightarrow> string \<Rightarrow> 'w bt_state \<Rightarrow> 'w bt_state outcome" where
  "print_symbol os n symbol s =
     (let s = b_printf (show_nat n @ '': ['' @ symbol @ '']'' @ newline) s in
      obind (symbol_address symbol) (\<lambda>a. case a of
        None \<Rightarrow> ok s
      | Some address \<Rightarrow>
          obind (c_string (global_self s)) (\<lambda>self.
          let (r, w) = b_system os (addr2line_command self address) (b_world s);
              s = s\<lparr>b_world := w\<rparr>
          in ok (if r = -1 then b_printf (''(addr2line missing)'' @ newline) s else s))))"

fun print_symbols :: "'w bt_os \<Rightarrow> nat \<Rightarrow> string list \<Rightarrow> 'w bt_state \<Rightarrow> 'w bt_state outcome" where
  "print_symbols os 0 symb s = ok s"
| "print_symbols os (Suc n) symb s =
     (if n < length symb then obind (print_symbol os (Suc n) (symb ! n) s) (print_symbols os n symb)
      else raise Out_of_bounds)"

definition backtrace_banner :: string where
  "backtrace_banner = replicate 70 CHR ''='' @ newline @
     '' Segmentation fault: please post this backtrace to:'' @ newline @
     '' https://github.com/robertdavidgraham/masscan/issues'' @ newline @ replicate 70 CHR ''='' @ newline"

text \<open>A null table of symbols is indexed without a test. The handler ends with \<open>exit(1)\<close>.\<close>

definition handle_segfault :: "'w bt_os \<Rightarrow> 'w bt_state \<Rightarrow> 'w bt_state outcome" where
  "handle_segfault os s =
     (let s = b_printf backtrace_banner s;
          (size, w) = b_backtrace os (b_world s);
          (symb, w) = b_symbols os w;
          s = s\<lparr>b_world := w\<rparr>
      in obind (case symb of
             None \<Rightarrow> if size = 0 then ok s else raise Null_deref
           | Some symb \<Rightarrow> print_symbols os size symb s) (\<lambda>s. raise (Exited 1)))"

section \<open>Windows\<close>

text \<open>
  Handles and the addresses of functions are numbers, 0 is null. \<open>wb_module_name\<close> is what
  \<open>GetModuleFileNameA\<close> leaves in the buffer, \<open>wb_capture\<close> the return addresses on the stack, and
  \<open>wb_calloc\<close> tells whether \<open>calloc\<close> succeeds. The two fields of \<open>Dbg\<close> are part of the state. The
  function \<open>SymFromAddr\<close> finds changes the name and the address in the symbol it is given.
\<close>

record 'w wbt_os =
  wb_module_name :: "'w \<Rightarrow> string \<times> 'w"
  wb_LoadLibrary :: "string \<Rightarrow> 'w \<Rightarrow> nat \<times> 'w"
  wb_GetProcAddress :: "nat \<Rightarrow> string \<Rightarrow> 'w \<Rightarrow> nat \<times> 'w"
  wb_has_rtl :: bool
  wb_sym_initialize :: "nat \<Rightarrow> 'w \<Rightarrow> 'w"
  wb_sym_from_addr :: "nat \<Rightarrow> u64 \<Rightarrow> string \<times> u64 \<Rightarrow> 'w \<Rightarrow> (string \<times> u64) \<times> 'w"
  wb_capture :: "'w \<Rightarrow> u64 list \<times> 'w"
  wb_calloc :: "'w \<Rightarrow> bool"

record 'w wbt_state = "'w bt_state" +
  SymInitialize :: nat
  SymFromAddr :: nat

fun show_HEX :: "nat \<Rightarrow> string" where
  "show_HEX n = (let c = (if n mod 16 < 10 then digit_char (n mod 16) else char_of (55 + n mod 16))
                 in if n < 16 then [c] else show_HEX (n div 16) @ [c])"

declare show_HEX.simps [simp del]

text \<open>The loop over the frames; \<open>symbol\<close> is the content of the symbol, which keeps its value when a lookup
  fails. \<open>%0X\<close> takes the low 32 bits of the address.\<close>

fun print_frames :: "'w wbt_os \<Rightarrow> u64 list \<Rightarrow> string \<times> u64 \<Rightarrow> 'w wbt_state \<Rightarrow> 'w wbt_state" where
  "print_frames os [] symbol s = s"
| "print_frames os (a # stack) symbol s =
     (let ((name, address), w) = wb_sym_from_addr os (SymFromAddr s) a symbol (b_world s);
          line = show_nat (length stack) @ '': '' @ name @ '' - 0x'' @ show_HEX (unat (ucast address :: u32)) @ newline
      in print_frames os stack (name, address) (s\<lparr>b_world := w, b_out := b_out s @ line\<rparr>))"

definition printStack :: "'w wbt_os \<Rightarrow> 'w wbt_state \<Rightarrow> 'w wbt_state outcome" where
  "printStack os s =
     (if SymInitialize s = 0 then ok s
      else if SymFromAddr s = 0 then ok s
      else if \<not> wb_has_rtl os then ok s
      else
        let w = wb_sym_initialize os (SymInitialize s) (b_world s);
            (stack, w) = wb_capture os w;
            s = s\<lparr>b_world := w\<rparr>
        in if \<not> wb_calloc os w then raise Null_deref else ok (print_frames os (take 100 stack) ([], 0) s))"

definition win_handle_segfault :: "'w wbt_state \<Rightarrow> 'w wbt_state \<times> fault" where
  "win_handle_segfault s =
     (s\<lparr>b_out := b_out s @ replicate 70 CHR ''='' @ '' Segmentation fault: please post this backtrace to:'' @ newline @
        '' https://github.com/robertdavidgraham/masscan/issues'' @ newline @ replicate 70 CHR ''=''\<rparr>, Exited 1)"

text \<open>The set-up does not install the handler: the call of \<open>signal\<close> is a comment.\<close>

definition win_backtrace_init :: "'w wbt_os \<Rightarrow> string \<Rightarrow> 'w wbt_state \<Rightarrow> 'w wbt_state" where
  "win_backtrace_init os self s =
     (let (name, w) = wb_module_name os (b_world s);
          (h, w) = wb_LoadLibrary os ''DbgHelp.dll'' w;
          s = s\<lparr>global_self := name, b_world := w\<rparr>
      in if h = 0 then s
         else
           let (f, w) = wb_GetProcAddress os h ''SymFromAddr'' w;
               (g, w) = wb_GetProcAddress os h ''SymInitialize'' w;
               (h, w) = wb_LoadLibrary os ''Kernel32.dll'' w;
               (r, w) = wb_GetProcAddress os 0 ''RtlCaptureStackBackTrace'' w
           in s\<lparr>SymFromAddr := f, SymInitialize := g, b_world := w\<rparr>)"

section \<open>Lemmas\<close>

text \<open>Nothing is printed unless the set-up has found both functions.\<close>

lemma printStack_quiet: "SymInitialize s = 0 \<or> SymFromAddr s = 0 \<Longrightarrow> printStack os s = ok s"
  by (auto simp: printStack_def)

lemma print_frames_lines:
  "\<exists>lines. b_out (print_frames os stack symbol s) = b_out s @ concat (map (\<lambda>l. l @ newline) lines) \<and> length lines = length stack"
proof (induction stack arbitrary: symbol s)
  case (Cons a stack)
  obtain name address w where r: "wb_sym_from_addr os (SymFromAddr s) a symbol (b_world s) = ((name, address), w)"
    by (metis prod.exhaust)
  let ?l = "show_nat (length stack) @ '': '' @ name @ '' - 0x'' @ show_HEX (unat (ucast address :: u32))"
  let ?s = "s\<lparr>b_world := w, b_out := b_out s @ ?l @ newline\<rparr>"
  obtain ls where "b_out (print_frames os stack (name, address) ?s) = b_out ?s @ concat (map (\<lambda>l. l @ newline) ls)"
      "length ls = length stack"
    using Cons.IH by blast
  then show ?case
    by (intro exI [of _ "?l # ls"]) (simp add: r)
qed simp






text \<open>A longer link is not terminated: the first symbol with an address reads past the buffer.\<close>

lemma backtrace_unterminated:
  assumes "length (global_self s) = SELF_SIZE" "b_readlink os ''/proc/self/exe'' SELF_SIZE (b_world s) = (Some path, w)"
    and "CHR 0x00 \<notin> set path" "length path = SELF_SIZE"
  shows "c_string (global_self (pixie_backtrace_init os self s)) = raise Out_of_bounds"
  using assms by (simp add: pixie_backtrace_init_def c_string_def)



end
