(* ===== verification/Spec2Isabelle.thy ===== *)
theory Spec2Isabelle
  imports Malloc_Props Timer_Props Dispatch_Props Util_Time Poll_Props Logger Pixie_Threads Pixie_File Lua_Macros
    Pixie_Backtrace
begin

text \<open>
  A verification of \<^emph>\<open>scanme\<close>, a network service that accepts connections and prints what it receives.
  All paths are below \<^verbatim>\<open>src/src/\<close>.

  \<^bold>\<open>The program.\<close> \<^verbatim>\<open>main.c\<close> starts a telnet listener and then calls \<open>dispatcher_dispatch\<close> for ever. The
  dispatcher of \<^verbatim>\<open>dispatch.c\<close> keeps two arrays, of services and of connections, waits with \<open>select\<close>, calls
  the event and receive functions of the services, and closes connections whose timers have run out.
  The timers are entries inside the connections, linked into a ring of slots (\<^verbatim>\<open>event-timeout.c\<close>). All
  memory comes from checked wrappers (\<^verbatim>\<open>util-malloc.c\<close>, with an older copy in \<^verbatim>\<open>mymalloc.c\<close>). Beside these
  the sources hold an older dispatcher built on \<open>poll\<close> (\<^verbatim>\<open>dispatcher.c\<close>) with an echo service
  (\<^verbatim>\<open>builtin-echo.c\<close>), and portability code: clocks, a logger, threads, files, the loading of the Lua
  library, and the handler of a segmentation fault.

  \<^bold>\<open>Conventions.\<close> \<^theory_text>\<open>Prelude\<close> fixes the vocabulary. An integer is a word of its width, so arithmetic wraps as
  in C; counters that the code cannot bring near their limit are natural numbers where the theory says
  so. A pointer is \<open>Null\<close> or a block and an offset; blocks are never reused, so every use of freed memory
  is visible. An operation returns an outcome: a value, a fault (null dereference, dangling pointer,
  access out of bounds, bad \<open>free\<close>, uninitialised value, undefined
  arithmetic, \<open>abort\<close>, \<open>exit\<close>), or nothing when it does not
  return. Loops whose end is not obvious are partial functions into outcomes and their termination is a
  theorem; no fuel is used anywhere. The operating system is a record of functions on a world of any
  type: nothing is assumed of it unless a theorem says so. What is written, closed, opened and called is
  recorded in a trace.

  \<^bold>\<open>Theories, in the order of the code.\<close>

  \<^item> \<^theory_text>\<open>Util_Malloc\<close>, \<^theory_text>\<open>Malloc_Props\<close>: the wrappers of \<^verbatim>\<open>util-malloc.c\<close> and \<^verbatim>\<open>mymalloc.c\<close> over an allocator that
    may refuse any request. The locale \<open>checked_allocator\<close> is their interface. Shown: exact sizes, moved
    contents, the overflow guard, agreement of the two files.
  \<^item> \<^theory_text>\<open>Event_Timeout\<close> (the code of \<^verbatim>\<open>event-timeout.c\<close> and \<^verbatim>\<open>event-timeout.h\<close>), \<^theory_text>\<open>Timer_Lists\<close> (doubly linked
    lists in the heap), \<^theory_text>\<open>Timer_Wheel\<close> (the invariant of the ring and every operation against it),
    \<^theory_text>\<open>Timer_Queue\<close> (the abstract timer queue: a map from entries to deadlines; the locales \<open>timer_queue\<close> and
    \<open>timer_service\<close> and their interpretation on the ring), \<^theory_text>\<open>Timer_Props\<close>. The ring has \<open>SLOTS\<close> = 1048576
    slots, as in the code.
  \<^item> \<^theory_text>\<open>Dispatch_State\<close> (the structures, the heap, the system calls), \<^theory_text>\<open>Dispatch\<close> (every function of
    \<^verbatim>\<open>dispatch.c\<close> and \<^verbatim>\<open>util-socket.c\<close>), \<^theory_text>\<open>Dispatch_Inv\<close> (the invariant \<open>dinv\<close>, over a view of the dispatcher as
    lists of services and connections), \<^theory_text>\<open>Dispatch_Steps\<close> and \<^theory_text>\<open>Dispatch_Lists\<close> (the single steps),
    \<^theory_text>\<open>Dispatch_Handler\<close> (the contract with the application, locale \<open>handler\<close>, and adding and removing a
    connection under it), \<^theory_text>\<open>Dispatch_Loops\<close>, \<^theory_text>\<open>Dispatch_Select\<close>, \<^theory_text>\<open>Dispatch_Run\<close> (the loops, the phases of a
    call, the whole call), \<^theory_text>\<open>Dispatch_Start\<close> (creation and listeners), \<^theory_text>\<open>Dispatch_Returns\<close> (which operations
    never abort, and what the others need for that; locale \<open>returning_handler\<close>).
  \<^item> \<^theory_text>\<open>Telnet\<close> (\<^verbatim>\<open>main.c\<close> and \<^verbatim>\<open>util-ctype.h\<close>), \<^theory_text>\<open>Telnet_Handler\<close> (the interpretation of \<open>handler\<close> on the
    callbacks of the telnet service), \<^theory_text>\<open>Telnet_Program\<close> (start and main loop), \<^theory_text>\<open>Dispatch_Demo\<close> (a concrete
    dispatcher for the witnesses), \<^theory_text>\<open>Dispatch_Props\<close>.
  \<^item> \<^theory_text>\<open>Pixie_Timer\<close> (\<^verbatim>\<open>pixie-timer.c\<close> for POSIX and Mach), \<^theory_text>\<open>Floating\<close> (rounding to the 53 bits of a
    \<open>double\<close>), \<^theory_text>\<open>Win_Clock\<close> (\<^verbatim>\<open>pixie-timer.c\<close> for Windows, whose clock is a floating-point quotient),
    \<^theory_text>\<open>Util_Time\<close> (the copies of all of them in \<^verbatim>\<open>util-time.c\<close>). Shown: the copies agree, sleeping lasts
    long enough under the contract of \<open>nanosleep\<close>, the requests are exact, the Windows clock is accurate.
  \<^item> \<^theory_text>\<open>Poll_Dispatcher\<close> (\<^verbatim>\<open>dispatcher.c\<close>, \<^verbatim>\<open>dispatcher.h\<close>), \<^theory_text>\<open>Echo_Service\<close> (\<^verbatim>\<open>builtin-echo.c\<close>), \<^theory_text>\<open>Poll_Lists\<close>
    (the two arrays as one list, removal and destruction), \<^theory_text>\<open>Poll_Handler\<close> (the contract with the handlers,
    locale \<open>poll_handler\<close>; rounds, loop and call of the dispatcher under it), \<^theory_text>\<open>Echo_Handler\<close> (the echo
    service keeps the contract: interpretation \<open>echo\<close>), \<^theory_text>\<open>Poll_Types\<close> and \<^theory_text>\<open>Echo_Types\<close> (the types of
    the heap blocks, a relation of steps, and that no run of steps confuses types), \<^theory_text>\<open>Poll_Props\<close>.
  \<^item> \<^theory_text>\<open>Logger\<close>, \<^theory_text>\<open>Pixie_Threads\<close>, \<^theory_text>\<open>Pixie_File\<close>, \<^theory_text>\<open>Stub_Lua\<close> (with \<^theory_text>\<open>Lua_Macros\<close> for the macros over
    the linked functions), \<^theory_text>\<open>Pixie_Backtrace\<close>: one theory per file of the portability code, with its system
    calls as a record, each with its lemmas and property.

  \<^bold>\<open>How the parts meet.\<close> The ring of timers is used by the dispatcher only through the laws of
  \<^theory_text>\<open>Timer_Wheel\<close>; the invariant \<open>dinv\<close> contains the invariant of the ring, and the view says which timer
  belongs to which connection. An application is anything that satisfies the locale \<open>handler\<close>; the
  theorems on the dispatcher are proved once inside it, and the properties of the program are its
  instances for the telnet service. The poll dispatcher and the echo service are joined in the same way.

  \<^bold>\<open>Returning.\<close> \<open>safe P r\<close> says that \<open>r\<close> returns with \<open>P\<close> or ends in \<open>abort()\<close>, which the allocation wrappers
  call when the allocator refuses a request; \<open>no_abort r\<close> excludes the latter. The properties of the
  dispatcher say which of the two holds: what allocates nothing returns in every state of the invariant,
  the rest returns for a willing allocator while the two arrays have fewer than about \<open>2 ^ 61\<close> elements.
  No fuel is used anywhere: loops are partial functions into an option, and \<open>None\<close> is a run without end.

  \<^bold>\<open>Properties.\<close> They stand in the theories ending in \<open>_Props\<close>, and in the theory of the file for the
  portability code, each after a text with its number. Those with hypotheses have a witness, an instance
  on concrete data, named after the property.

  \<^bold>\<open>Not modelled.\<close> Headers and parts of headers that hold prototypes, includes, types of linked functions or
  macros renaming library functions, such as \<^verbatim>\<open>pixie-sockets.h\<close>: they contain no code. The memory barriers
  of \<^verbatim>\<open>pixie-threads.h\<close>, which have no effect in a sequential model. The buffer of 512 bytes in a
  connection of the poll dispatcher, which no function touches.
\<close>

end
